(* ===== verification/Xskip_Prelude.thy ===== *)
theory Xskip_Prelude
  imports Main "HOL-Library.Word" "HOL-Library.Multiset"
begin

unbundle bit_operations_syntax

text \<open>
  What every component of the development shares: the machine integers of the Rust sources, the
  values a Rust function can end with (a value, an \<^verbatim>\<open>io::Error\<close>, a panic), big-endian byte
  encodings, byte memory addressed by offsets (the UMEM), in-place slice copies, and one locale for
  invariants of step relations.  The collections \<open>bytes_simps\<close> and \<open>mem_simps\<close> carry the
  rewriting of the component proofs.
\<close>

named_theorems bytes_simps \<open>lengths, slices and encodings of byte lists\<close>
named_theorems mem_simps \<open>reads and writes of byte memory\<close>

section \<open>Machine integers and outcomes\<close>

type_synonym u8 = "8 word"
type_synonym u16 = "16 word"
type_synonym u32 = "32 word"
type_synonym u64 = "64 word"
type_synonym bytes = "u8 list"

text \<open>
  \<open>usize\<close> is 64 bits wide on the targets of AF\_XDP.  Lengths and offsets are natural numbers; where
  an operation can leave the 64-bit range the model says what happens.  That depends on the
  build profile: with overflow checks (\<^verbatim>\<open>cargo build\<close>) arithmetic panics and \<^verbatim>\<open>debug_assert!\<close>
  is evaluated, without them (\<^verbatim>\<open>cargo build --release\<close>) it wraps and the assertion is skipped.
\<close>

datatype profile = Debug | Release

abbreviation usize_modulus :: nat where
  "usize_modulus \<equiv> 18446744073709551616"

datatype error_kind =
    InvalidInput | InvalidData | NotConnected | NotFound | ConnectionRefused | WouldBlock
  | TimedOut | Other

text \<open>
  The text of an error message is its format string; the values interpolated into it are kept as
  constructor arguments.
\<close>

datatype error_msg =
    No_Message
  | Mtu_Leaves_No_Room nat
  | Mtu_Needs_Frames nat nat nat
  | Interface_Not_Found string
  | Insert_Xsks_Map
  | Insert_Config_Map
  | Reserve_Local_Port int
  | Read_Reserved_Port int
  | Attach_Xdp_Program
  | Open_Skeleton
  | Load_Skeleton
  | Register_Umem nat nat int
  | Tcp_Send
  | Tcp_Connect
  | Connection_Refused_Msg
  | Bad_Mac string
  | Bad_Mtu string

datatype io_error = Custom error_kind error_msg | Os_Error int

text \<open>How a call ends.  A panic unwinds through every caller, so it is an outcome of its own.\<close>

datatype panic =
    Arithmetic_Overflow
  | Slice_Out_Of_Range
  | Slice_Length_Mismatch
  | Remainder_By_Zero
  | Expect_Failed string
  | Debug_Assert_Failed string

datatype 'a outcome = Ok 'a | Err io_error | Panic panic

primrec bind_outcome :: "'a outcome \<Rightarrow> ('a \<Rightarrow> 'b outcome) \<Rightarrow> 'b outcome" where
  "bind_outcome (Ok x) f = f x"
| "bind_outcome (Err e) f = Err e"
| "bind_outcome (Panic p) f = Panic p"

primrec is_ok :: "'a outcome \<Rightarrow> bool" where
  "is_ok (Ok x) = True"
| "is_ok (Err e) = False"
| "is_ok (Panic p) = False"

lemma bind_outcome_eq_Ok_iff:
  "bind_outcome r f = Ok y \<longleftrightarrow> (\<exists>x. r = Ok x \<and> f x = Ok y)"
  by (cases r) auto

text \<open>\<open>a + b\<close> on \<open>usize\<close> in either profile.\<close>

definition add_usize :: "profile \<Rightarrow> nat \<Rightarrow> nat \<Rightarrow> nat outcome" where
  "add_usize p a b =
     (if a + b < usize_modulus then Ok (a + b)
      else if p = Debug then Panic Arithmetic_Overflow
      else Ok ((a + b) mod usize_modulus))"

lemma add_usize_small [simp]: "a + b < usize_modulus \<Longrightarrow> add_usize p a b = Ok (a + b)"
  by (simp add: add_usize_def)

section \<open>Words\<close>

lemma u32_bound: "unat (w :: u32) < 2 ^ 32"
  using unsigned_less [of w] by simp

lemma u64_bound: "unat (w :: u64) < 2 ^ 64"
  using unsigned_less [of w] by simp

lemma word_eq_unatI: "unat v = unat w \<Longrightarrow> v = w"
  by (simp add: unsigned_word_eqI)

lemma unat_pow2:
  assumes "k < LENGTH('a::len)"
  shows "unat (2 ^ k :: 'a word) = 2 ^ k"
proof -
  have "(2 ^ k :: 'a word) = of_nat (2 ^ k)" by simp
  moreover have "(2 :: nat) ^ k < 2 ^ LENGTH('a)"
    using assms by (simp add: power_strict_increasing)
  ultimately show ?thesis
    by (simp only: unat_of_nat mod_less)
qed

lemma unat_and_pow2:
  fixes x :: "'a::len word"
  assumes "k < LENGTH('a)"
  shows "unat (x AND (2 ^ k - 1)) = unat x mod 2 ^ k"
proof -
  have "x AND (2 ^ k - 1) = take_bit k x"
    by (simp add: take_bit_eq_mask mask_eq_exp_minus_1)
  then have "unat (x AND (2 ^ k - 1)) = take_bit k (unat x)"
    by (simp only: unsigned_take_bit_eq)
  then show ?thesis
    by (simp add: take_bit_eq_mod)
qed

lemma unat_and_not_pow2:
  fixes x :: "'a::len word"
  assumes "k < LENGTH('a)"
  shows "unat (x AND NOT (2 ^ k - 1)) = unat x div 2 ^ k * 2 ^ k"
proof -
  have "x AND NOT (2 ^ k - 1) = push_bit k (drop_bit k x)"
    by (rule bit_word_eqI)
       (auto simp: bit_and_iff bit_not_iff bit_push_bit_iff bit_drop_bit_eq bit_mask_iff
          mask_eq_exp_minus_1 [symmetric])
  then have "unat (x AND NOT (2 ^ k - 1)) = take_bit LENGTH('a) (push_bit k (drop_bit k (unat x)))"
    by (simp only: unsigned_push_bit_eq unsigned_drop_bit_eq take_bit_nat_eq_self [OF unsigned_less])
  moreover have "unat x div 2 ^ k * 2 ^ k < 2 ^ LENGTH('a)"
    by (rule le_less_trans [OF div_times_less_eq_dividend unsigned_less])
  ultimately show ?thesis
    by (simp add: take_bit_eq_mod push_bit_eq_mult drop_bit_eq_div)
qed

section \<open>Multisets without repetition\<close>

lemma count_distinct_le_1: "distinct xs \<Longrightarrow> count (mset xs) a \<le> 1"
  by (simp add: distinct_count_atmost_1)

section \<open>Byte encodings\<close>

text \<open>
  A fixed-width encoding of a type into bytes.  What a client relies on is that the width is
  constant and that decoding undoes encoding; then a value followed by anything can be taken off the
  front of a byte list unambiguously.
\<close>

locale fixed_codec =
  fixes enc :: "'a \<Rightarrow> bytes"
    and dec :: "bytes \<Rightarrow> 'a"
    and width :: nat
  assumes enc_length: "length (enc x) = width"
    and dec_enc: "dec (enc x) = x"
begin

lemma enc_eq_iff: "enc x = enc y \<longleftrightarrow> x = y"
  by (metis dec_enc)

lemma enc_append_eq_iff: "enc x @ r = enc y @ s \<longleftrightarrow> x = y \<and> r = s"
  by (simp add: enc_length enc_eq_iff)

lemma take_enc: "take width (enc x @ r) = enc x"
  by (simp add: enc_length)

lemma drop_enc: "drop width (enc x @ r) = r"
  by (simp add: enc_length)

lemma dec_take_enc: "dec (take width (enc x @ r)) = x"
  by (simp only: take_enc dec_enc)

end

text \<open>An encoding that uses every byte string of its width: encoding undoes decoding too.\<close>

locale exact_codec = fixed_codec +
  assumes enc_dec: "length bs = width \<Longrightarrow> enc (dec bs) = bs"
begin

lemma dec_eq_iff: "length bs = width \<Longrightarrow> dec bs = x \<longleftrightarrow> bs = enc x"
  using enc_dec dec_enc by metis

end

text \<open>\<^verbatim>\<open>u16::to_be_bytes\<close> and \<^verbatim>\<open>Ipv4Addr::octets\<close>: the most significant byte first.\<close>

definition to_be_bytes16 :: "u16 \<Rightarrow> bytes" where
  "to_be_bytes16 w = [ucast (drop_bit 8 w), ucast w]"

definition from_be_bytes16 :: "bytes \<Rightarrow> u16" where
  "from_be_bytes16 bs =
     (case bs of [a, b] \<Rightarrow> push_bit 8 (ucast a) OR ucast b | _ \<Rightarrow> 0)"

definition to_be_bytes32 :: "u32 \<Rightarrow> bytes" where
  "to_be_bytes32 w =
     [ucast (drop_bit 24 w), ucast (drop_bit 16 w), ucast (drop_bit 8 w), ucast w]"

definition from_be_bytes32 :: "bytes \<Rightarrow> u32" where
  "from_be_bytes32 bs =
     (case bs of
        [a, b, c, d] \<Rightarrow>
          push_bit 24 (ucast a) OR push_bit 16 (ucast b) OR push_bit 8 (ucast c) OR ucast d
      | _ \<Rightarrow> 0)"

lemma bytes16_decode:
  "push_bit 8 (ucast (ucast (drop_bit 8 w) :: u8)) OR ucast (ucast w :: u8) = (w :: u16)"
  by (rule bit_word_eqI)
     (auto simp: bit_or_iff bit_push_bit_iff bit_ucast_iff bit_drop_bit_eq)

lemma bytes32_decode:
  "push_bit 24 (ucast (ucast (drop_bit 24 w) :: u8)) OR push_bit 16 (ucast (ucast (drop_bit 16 w) :: u8))
     OR push_bit 8 (ucast (ucast (drop_bit 8 w) :: u8)) OR ucast (ucast w :: u8) = (w :: u32)"
proof (rule bit_word_eqI)
  fix n
  assume "n < LENGTH(32)"
  then consider "24 \<le> n" "n < 32" | "16 \<le> n" "n < 24" | "8 \<le> n" "n < 16" | "n < 8"
    by (simp, linarith)
  then show "bit (push_bit 24 (ucast (ucast (drop_bit 24 w) :: u8))
       OR push_bit 16 (ucast (ucast (drop_bit 16 w) :: u8))
       OR push_bit 8 (ucast (ucast (drop_bit 8 w) :: u8)) OR (ucast (ucast w :: u8) :: u32)) n = bit w n"
    by cases (auto simp: bit_or_iff bit_push_bit_iff bit_ucast_iff bit_drop_bit_eq)
qed

lemma bytes16_encode:
  "ucast (drop_bit 8 (push_bit 8 (ucast a) OR ucast b :: u16)) = (a :: u8)"
  "ucast (push_bit 8 (ucast a) OR ucast b :: u16) = (b :: u8)"
  by (rule bit_word_eqI; auto simp: bit_or_iff bit_push_bit_iff bit_ucast_iff bit_drop_bit_eq
      dest: bit_imp_le_length)+

lemma bytes32_encode:
  fixes a b c d :: u8
  defines "w \<equiv> push_bit 24 (ucast a) OR push_bit 16 (ucast b) OR push_bit 8 (ucast c) OR ucast d :: u32"
  shows "ucast (drop_bit 24 w) = a" "ucast (drop_bit 16 w) = b" "ucast (drop_bit 8 w) = c" "ucast w = d"
  unfolding w_def
  by (rule bit_word_eqI; auto simp: bit_or_iff bit_push_bit_iff bit_ucast_iff bit_drop_bit_eq
      dest: bit_imp_le_length)+

lemma length_2E: "length xs = 2 \<Longrightarrow> (\<And>a b. xs = [a, b] \<Longrightarrow> P) \<Longrightarrow> P"
  by (auto simp: numeral_2_eq_2 length_Suc_conv)

lemma length_4E: "length xs = 4 \<Longrightarrow> (\<And>a b c d. xs = [a, b, c, d] \<Longrightarrow> P) \<Longrightarrow> P"
  by (auto simp: numeral_eq_Suc length_Suc_conv)

interpretation be16: exact_codec to_be_bytes16 from_be_bytes16 2
  by unfold_locales
     (auto simp: to_be_bytes16_def from_be_bytes16_def bytes16_decode bytes16_encode
        simp del: drop_bit_or elim!: length_2E)

interpretation be32: exact_codec to_be_bytes32 from_be_bytes32 4
  by unfold_locales
     (auto simp: to_be_bytes32_def from_be_bytes32_def bytes32_decode bytes32_encode
        simp del: drop_bit_or elim!: length_4E)

declare be16.enc_length [bytes_simps] be32.enc_length [bytes_simps]

section \<open>Slices of byte lists\<close>

text \<open>\<^verbatim>\<open>&xs[a..b]\<close> for \<open>a \<le> b \<le> length xs\<close>.\<close>

definition slice :: "nat \<Rightarrow> nat \<Rightarrow> 'a list \<Rightarrow> 'a list" where
  "slice a b xs = take (b - a) (drop a xs)"

text \<open>
  \<^verbatim>\<open>xs[a..a + ys.len()].copy_from_slice(ys)\<close> when the range is inside \<open>xs\<close>.
\<close>

definition copy_at :: "nat \<Rightarrow> 'a list \<Rightarrow> 'a list \<Rightarrow> 'a list" where
  "copy_at a ys xs = take a xs @ ys @ drop (a + length ys) xs"

lemma length_slice [bytes_simps]: "b \<le> length xs \<Longrightarrow> length (slice a b xs) = b - a"
  by (simp add: slice_def)

lemma length_copy_at [bytes_simps]:
  "a + length ys \<le> length xs \<Longrightarrow> length (copy_at a ys xs) = length xs"
  by (simp add: copy_at_def)

lemma slice_append_left [bytes_simps]: "b \<le> length xs \<Longrightarrow> slice a b (xs @ ys) = slice a b xs"
  by (simp add: slice_def)

lemma slice_append_right [bytes_simps]:
  "length xs \<le> a \<Longrightarrow> slice a b (xs @ ys) = slice (a - length xs) (b - length xs) ys"
  by (simp add: slice_def)

lemma slice_all [bytes_simps]: "b = length xs \<Longrightarrow> slice 0 b xs = xs"
  by (simp add: slice_def)

lemma slice_take [bytes_simps]: "b \<le> n \<Longrightarrow> slice a b (take n xs) = slice a b xs"
  by (simp add: slice_def drop_take min_def)

lemma slice_drop: "slice a b (drop n xs) = slice (n + a) (n + b) xs"
  by (simp add: slice_def add.commute)

lemma slice_copy_at_same [bytes_simps]:
  "a + length ys \<le> length xs \<Longrightarrow> slice a (a + length ys) (copy_at a ys xs) = ys"
  by (simp add: slice_def copy_at_def)

lemma slice_copy_at_before [bytes_simps]:
  "b \<le> c \<Longrightarrow> c \<le> length xs \<Longrightarrow> slice a b (copy_at c ys xs) = slice a b xs"
  by (simp add: copy_at_def slice_append_left slice_take)

lemma slice_copy_at_after [bytes_simps]:
  assumes "c + length ys \<le> a" and "c + length ys \<le> length xs"
  shows "slice a b (copy_at c ys xs) = slice a b xs"
  using assms by (simp add: slice_def copy_at_def min_absorb2)

section \<open>Byte memory\<close>

text \<open>
  Memory reached through a raw base pointer: a byte at each offset.  The mapping's bound is not part
  of the memory; that accesses stay inside it is proved.
\<close>

type_synonym memory = "nat \<Rightarrow> u8"

definition read_mem :: "memory \<Rightarrow> nat \<Rightarrow> nat \<Rightarrow> bytes" where
  "read_mem m a n = map m [a..<a + n]"

definition write_mem :: "memory \<Rightarrow> nat \<Rightarrow> bytes \<Rightarrow> memory" where
  "write_mem m a bs = (\<lambda>i. if a \<le> i \<and> i < a + length bs then bs ! (i - a) else m i)"

lemma length_read_mem [simp]: "length (read_mem m a n) = n"
  by (simp add: read_mem_def)

lemma read_write_same [mem_simps]: "read_mem (write_mem m a bs) a (length bs) = bs"
  by (rule nth_equalityI) (simp_all add: read_mem_def write_mem_def)

lemma read_write_prefix [mem_simps]:
  "n \<le> length bs \<Longrightarrow> read_mem (write_mem m a bs) a n = take n bs"
  by (rule nth_equalityI) (simp_all add: read_mem_def write_mem_def)

lemma read_write_disjoint [mem_simps]:
  "a + n \<le> b \<or> b + length bs \<le> a \<Longrightarrow> read_mem (write_mem m b bs) a n = read_mem m a n"
  by (rule nth_equalityI) (auto simp: read_mem_def write_mem_def)

lemma take_read_mem [mem_simps]: "k \<le> n \<Longrightarrow> take k (read_mem m a n) = read_mem m a k"
  by (rule nth_equalityI) (simp_all add: read_mem_def)

lemma write_mem_append:
  "write_mem (write_mem m a xs) (a + length xs) ys = write_mem m a (xs @ ys)"
  by (auto simp: write_mem_def fun_eq_iff nth_append)

lemma drop_read_mem [mem_simps]: "drop k (read_mem m a n) = read_mem m (a + k) (n - k)"
  by (rule nth_equalityI) (auto simp: read_mem_def ac_simps)

section \<open>Invariants of step relations\<close>

text \<open>
  A component with an environment is a relation on states.  Its interface to a client is an
  invariant: true at the start, kept by each step; then it holds in every reachable state.
\<close>

locale invariant_system =
  fixes init :: "'s \<Rightarrow> bool"
    and step :: "'s \<Rightarrow> 's \<Rightarrow> bool"
    and inv :: "'s \<Rightarrow> bool"
  assumes inv_init: "init s \<Longrightarrow> inv s"
    and inv_step: "inv s \<Longrightarrow> step s t \<Longrightarrow> inv t"
begin

lemma inv_steps: "step\<^sup>*\<^sup>* s t \<Longrightarrow> inv s \<Longrightarrow> inv t"
  by (induction rule: rtranclp_induct) (auto intro: inv_step)

lemma inv_reachable: "init s \<Longrightarrow> step\<^sup>*\<^sup>* s t \<Longrightarrow> inv t"
  by (blast intro: inv_init inv_steps)

end

end
