(* ===== verification/Ring.thy ===== *)
theory Ring
  imports Xskip_Prelude
begin

text \<open>
  The single-producer single-consumer descriptor rings of AF\_XDP (\<^verbatim>\<open>struct Ring\<close> of
  \<^verbatim>\<open>src/socket.rs\<close>).  The two indices are free-running 32-bit counters shared with the kernel; a slot is the
  counter masked with \<open>size - 1\<close>.  Both sides of a ring are given: what user space does to FILL and
  TX (write a slot, advance \<open>cached\<close>, publish it as \<open>producer\<close>) and to RX and COMPLETION (read the
  slot at \<open>consumer\<close>, advance it).  The ring is then shown to be a bounded first-in first-out queue,
  across the wrap-around of the counters, through the locale \<open>bounded_fifo\<close>.
\<close>

section \<open>The ring\<close>

text \<open>
  The pointer fields \<^verbatim>\<open>producer\<close>, \<^verbatim>\<open>consumer\<close>, \<^verbatim>\<open>flags\<close> and \<^verbatim>\<open>desc\<close> are modelled by the
  memory they point to; \<open>r_map\<close> and \<open>r_map_len\<close> are the mapping that holds it.
\<close>

record 'd ring =
  r_producer :: u32
  r_consumer :: u32
  r_flags :: u32
  r_desc :: "nat \<Rightarrow> 'd"
  r_mask :: u32
  r_size :: u32
  r_map :: nat
  r_map_len :: nat
  r_cached :: u32

text \<open>\<^verbatim>\<open>XDP_RING_NEED_WAKEUP\<close> is bit 0 of the flags word.\<close>

definition needs_wakeup :: "'d ring \<Rightarrow> bool" where
  "needs_wakeup r \<longleftrightarrow> r_flags r AND 1 \<noteq> 0"

text \<open>
  The producer half of a slot: \<^verbatim>\<open>*desc.add(cached & mask) = d; cached = cached.wrapping_add(1)\<close>,
  then \<^verbatim>\<open>producer.store(cached, Release)\<close>.
\<close>

definition ring_put :: "'d \<Rightarrow> 'd ring \<Rightarrow> 'd ring" where
  "ring_put d r =
     r\<lparr>r_desc := (r_desc r)(unat (r_cached r AND r_mask r) := d), r_cached := r_cached r + 1\<rparr>"

definition ring_publish :: "'d ring \<Rightarrow> 'd ring" where
  "ring_publish r = r\<lparr>r_producer := r_cached r\<rparr>"

definition ring_produce :: "'d \<Rightarrow> 'd ring \<Rightarrow> 'd ring" where
  "ring_produce d r = ring_publish (ring_put d r)"

text \<open>The consumer half: nothing when the indices meet, else the oldest slot.\<close>

definition ring_consume :: "'d ring \<Rightarrow> ('d \<times> 'd ring) option" where
  "ring_consume r =
     (if r_consumer r = r_producer r then None
      else Some (r_desc r (unat (r_consumer r AND r_mask r)), r\<lparr>r_consumer := r_consumer r + 1\<rparr>))"

text \<open>
  What the other side of a ring does.  The kernel keeps its own producer index and publishes it; for
  RX and COMPLETION its produce step is the mirror image of \<open>ring_produce\<close>.
\<close>

definition peer_produce :: "'d \<Rightarrow> 'd ring \<Rightarrow> 'd ring" where
  "peer_produce d r =
     r\<lparr>r_desc := (r_desc r)(unat (r_producer r AND r_mask r) := d), r_producer := r_producer r + 1\<rparr>"

section \<open>Queue contents\<close>

definition ring_count :: "'d ring \<Rightarrow> nat" where
  "ring_count r = unat (r_producer r - r_consumer r)"

definition ring_slot :: "'d ring \<Rightarrow> nat \<Rightarrow> nat" where
  "ring_slot r i = unat ((r_consumer r + of_nat i) AND r_mask r)"

definition ring_items :: "'d ring \<Rightarrow> 'd list" where
  "ring_items r = map (\<lambda>i. r_desc r (ring_slot r i)) [0..<ring_count r]"

text \<open>
  A well-formed ring has a power-of-two size (the kernel refuses others), the matching mask, and at
  most \<open>size\<close> unconsumed slots.
\<close>

definition ring_geometry :: "'d ring \<Rightarrow> bool" where
  "ring_geometry r \<longleftrightarrow> (\<exists>k<32. r_size r = 2 ^ k) \<and> r_mask r = r_size r - 1"

definition ring_ok :: "'d ring \<Rightarrow> bool" where
  "ring_ok r \<longleftrightarrow> ring_geometry r \<and> ring_count r \<le> unat (r_size r)"

text \<open>User space is the producer: what it has written is published.\<close>

definition ring_ok_user :: "'d ring \<Rightarrow> bool" where
  "ring_ok_user r \<longleftrightarrow> ring_ok r \<and> r_cached r = r_producer r"

section \<open>The interface: a bounded queue\<close>

locale bounded_fifo =
  fixes ok :: "'q \<Rightarrow> bool"
    and items :: "'q \<Rightarrow> 'a list"
    and cap :: "'q \<Rightarrow> nat"
    and put :: "'a \<Rightarrow> 'q \<Rightarrow> 'q"
    and get :: "'q \<Rightarrow> ('a \<times> 'q) option"
  assumes items_bounded: "ok q \<Longrightarrow> length (items q) \<le> cap q"
    and ok_put: "ok q \<Longrightarrow> length (items q) < cap q \<Longrightarrow> ok (put x q)"
    and items_put: "ok q \<Longrightarrow> length (items q) < cap q \<Longrightarrow> items (put x q) = items q @ [x]"
    and cap_put: "cap (put x q) = cap q"
    and get_empty: "ok q \<Longrightarrow> get q = None \<longleftrightarrow> items q = []"
    and get_items: "ok q \<Longrightarrow> get q = Some (x, q') \<Longrightarrow> items q = x # items q'"
    and ok_get: "ok q \<Longrightarrow> get q = Some (x, q') \<Longrightarrow> ok q'"
    and cap_get: "get q = Some (x, q') \<Longrightarrow> cap q' = cap q"
begin

lemma get_some: "ok q \<Longrightarrow> items q = x # xs \<Longrightarrow> \<exists>q'. get q = Some (x, q') \<and> items q' = xs \<and> ok q'"
  using get_empty [of q] get_items [of q] ok_get [of q] by (cases "get q") auto

lemma fold_put:
  "ok q \<Longrightarrow> length (items q) + length xs \<le> cap q \<Longrightarrow>
     ok (fold put xs q) \<and> items (fold put xs q) = items q @ xs \<and> cap (fold put xs q) = cap q"
proof (induction xs arbitrary: q)
  case Nil
  then show ?case by simp
next
  case (Cons x xs)
  then have "length (items q) < cap q" by simp
  with Cons.prems have "ok (put x q)" "items (put x q) = items q @ [x]"
    by (auto intro: ok_put items_put)
  with Cons show ?case by (simp add: cap_put)
qed

text \<open>What goes in first comes out first, and putting more behind it does not disturb it.\<close>

lemma get_fold_put:
  assumes "ok q" "items q = []" "Suc (length xs) \<le> cap q"
  shows "\<exists>q'. get (fold put (x # xs) q) = Some (x, q') \<and> items q' = xs \<and> ok q'"
  using fold_put [of q "x # xs"] assms by (intro get_some) auto

end

section \<open>The ring is a bounded queue\<close>

lemma ring_geometry_pos: "ring_geometry r \<Longrightarrow> 0 < unat (r_size r)"
  by (auto simp: ring_geometry_def unat_gt_0)

lemma unat_and_mask:
  assumes "ring_geometry r"
  shows "unat (x AND r_mask r) = unat x mod unat (r_size r)"
proof -
  from assms obtain k where "k < 32" "r_size r = 2 ^ k" "r_mask r = 2 ^ k - 1"
    by (auto simp: ring_geometry_def)
  then show ?thesis
    by (simp add: unat_and_pow2 unat_pow2)
qed

lemma size_dvd: "ring_geometry r \<Longrightarrow> unat (r_size r) dvd 2 ^ 32"
  by (auto simp: ring_geometry_def unat_pow2 le_imp_power_dvd simp del: power_numeral)

lemma ring_slot_eq:
  assumes "ring_geometry r"
  shows "ring_slot r i = (unat (r_consumer r) + i) mod unat (r_size r)"
proof -
  have "unat (r_consumer r + of_nat i) = (unat (r_consumer r) + i) mod 2 ^ 32"
    by (simp add: unat_word_ariths unat_of_nat mod_add_right_eq)
  then show ?thesis
    by (simp only: ring_slot_def unat_and_mask [OF assms] mod_mod_cancel [OF size_dvd [OF assms]])
qed

lemma mod_window_inj:
  fixes c i j n :: nat
  assumes "(c + i) mod n = (c + j) mod n" "i < n" "j < n"
  shows "i = j"
proof (rule ccontr)
  assume "i \<noteq> j"
  have "(c + max i j) mod n = (c + min i j) mod n"
    using assms(1) by (simp add: max_def min_def)
  then have "n dvd (c + max i j) - (c + min i j)"
    by (subst (asm) mod_eq_dvd_iff_nat) simp_all
  then have "n dvd max i j - min i j" by simp
  with assms(2,3) \<open>i \<noteq> j\<close> show False
    by (auto simp: max_def min_def dest!: dvd_imp_le split: if_splits)
qed

lemma ring_slot_inj:
  assumes "ring_geometry r" "i < unat (r_size r)" "j < unat (r_size r)"
  shows "ring_slot r i = ring_slot r j \<longleftrightarrow> i = j"
  using assms by (auto simp: ring_slot_eq dest: mod_window_inj)

text \<open>Producing through either index appends; consuming takes the head off.\<close>

lemma ring_count_Suc:
  assumes "ring_geometry r" "ring_count r < unat (r_size r)"
  shows "unat (r_producer r + 1 - r_consumer r) = Suc (ring_count r)"
proof -
  have "unat (r_size r) < 2 ^ LENGTH(32)" by (rule unsigned_less)
  then have "unat ((r_producer r - r_consumer r) + 1) = Suc (ring_count r)"
    using assms(2) by (subst unat_add_lem [THEN iffD1]) (simp_all add: ring_count_def)
  then show ?thesis by (simp add: algebra_simps)
qed

lemma ring_items_peer_produce:
  assumes ok: "ring_ok r" and room: "ring_count r < unat (r_size r)"
  shows "ring_items (peer_produce d r) = ring_items r @ [d]"
proof -
  let ?r = "peer_produce d r" and ?n = "ring_count r"
  have g: "ring_geometry r" using ok by (simp add: ring_ok_def)
  have cnt: "ring_count ?r = Suc ?n"
    using ring_count_Suc [OF g room] by (simp add: ring_count_def peer_produce_def)
  have slot: "ring_slot ?r i = ring_slot r i" for i
    by (simp add: ring_slot_def peer_produce_def)
  have "r_consumer r + of_nat ?n = r_producer r"
    by (simp add: ring_count_def)
  then have last: "unat (r_producer r AND r_mask r) = ring_slot r ?n"
    by (simp add: ring_slot_def)
  have "r_desc ?r (ring_slot r i) = r_desc r (ring_slot r i)" if "i < ?n" for i
    using that room by (simp add: peer_produce_def last ring_slot_inj [OF g])
  moreover have "r_desc ?r (ring_slot r ?n) = d"
    by (simp add: peer_produce_def last)
  ultimately show ?thesis
    by (simp add: ring_items_def cnt slot)
qed

lemma ring_ok_peer_produce:
  "ring_ok r \<Longrightarrow> ring_count r < unat (r_size r) \<Longrightarrow> ring_ok (peer_produce d r)"
  using ring_count_Suc [of r]
  by (simp add: ring_ok_def ring_geometry_def ring_count_def peer_produce_def)

lemma ring_produce_peer:
  "r_cached r = r_producer r \<Longrightarrow>
     ring_produce d r = (peer_produce d r)\<lparr>r_cached := r_producer r + 1\<rparr>"
  by (simp add: ring_produce_def ring_publish_def ring_put_def peer_produce_def)

lemma ring_cached_irrelevant [simp]:
  "ring_items (r\<lparr>r_cached := c\<rparr>) = ring_items r"
  "ring_ok (r\<lparr>r_cached := c\<rparr>) = ring_ok r"
  by (simp_all add: ring_items_def ring_count_def ring_slot_def ring_ok_def ring_geometry_def)

lemma ring_flags_irrelevant [simp]:
  "ring_items (r\<lparr>r_flags := f\<rparr>) = ring_items r"
  "ring_ok (r\<lparr>r_flags := f\<rparr>) = ring_ok r"
  "ring_ok_user (r\<lparr>r_flags := f\<rparr>) = ring_ok_user r"
  by (simp_all add: ring_items_def ring_count_def ring_slot_def ring_ok_def ring_geometry_def
      ring_ok_user_def)

lemma length_ring_items [simp]: "length (ring_items r) = ring_count r"
  by (simp add: ring_items_def)

lemma ring_consume_None: "ring_consume r = None \<longleftrightarrow> ring_items r = []"
  by (auto simp: ring_consume_def ring_items_def ring_count_def unat_eq_zero)

lemma ring_consume_Some:
  assumes "ring_consume r = Some (d, r')"
  shows "ring_items r = d # ring_items r'"
    and "Suc (ring_count r') = ring_count r"
proof -
  from assms have ne: "r_producer r - r_consumer r \<noteq> 0"
    and d: "d = r_desc r (ring_slot r 0)"
    and r': "r' = r\<lparr>r_consumer := r_consumer r + 1\<rparr>"
    by (auto simp: ring_consume_def ring_slot_def split: if_splits)
  have "unat (r_producer r - (r_consumer r + 1)) = ring_count r - 1"
    using unat_minus_one [OF ne] by (simp add: ring_count_def algebra_simps)
  moreover have "0 < ring_count r"
    using ne by (simp add: ring_count_def unat_gt_0)
  ultimately show cnt: "Suc (ring_count r') = ring_count r"
    by (simp add: r' ring_count_def)
  have slot: "ring_slot r' i = ring_slot r (Suc i)" for i
    by (simp add: ring_slot_def r' algebra_simps)
  have desc: "r_desc r' = r_desc r" by (simp add: r')
  show "ring_items r = d # ring_items r'"
    unfolding ring_items_def cnt [symmetric] slot desc
    by (simp add: d map_upt_Suc del: upt_Suc)
qed

lemma ring_consume_fields:
  assumes "ring_consume r = Some (d, r')"
  shows "r_size r' = r_size r" "r_mask r' = r_mask r" "r_producer r' = r_producer r"
    "r_cached r' = r_cached r"
  using assms by (auto simp: ring_consume_def split: if_splits)

lemma ring_ok_consume: "ring_ok r \<Longrightarrow> ring_consume r = Some (d, r') \<Longrightarrow> ring_ok r'"
  using ring_consume_Some(2) [of r d r'] ring_consume_fields [of r d r']
  by (simp add: ring_ok_def ring_geometry_def)

lemma ring_produce_fields [simp]:
  "r_size (peer_produce d r) = r_size r"
  "r_size (ring_produce d r) = r_size r"
  "r_consumer (ring_produce d r) = r_consumer r"
  by (simp_all add: peer_produce_def ring_produce_def ring_put_def ring_publish_def)

lemma ring_ok_count: "ring_ok r \<Longrightarrow> ring_count r \<le> unat (r_size r)"
  by (simp add: ring_ok_def)

interpretation peer_ring: bounded_fifo ring_ok ring_items "\<lambda>r. unat (r_size r)" peer_produce
  ring_consume
  by unfold_locales
     (auto simp: ring_items_peer_produce ring_ok_peer_produce ring_consume_None ring_ok_count
        ring_consume_fields intro: ring_ok_consume dest: ring_consume_Some(1))

lemma ring_ok_user_produce:
  "ring_ok_user r \<Longrightarrow> ring_count r < unat (r_size r) \<Longrightarrow> ring_ok_user (ring_produce d r)"
  using peer_ring.ok_put [of r d]
  by (simp add: ring_ok_user_def ring_produce_peer) (simp add: peer_produce_def)

lemma ring_items_produce:
  "ring_ok_user r \<Longrightarrow> ring_count r < unat (r_size r) \<Longrightarrow>
     ring_items (ring_produce d r) = ring_items r @ [d]"
  by (simp add: ring_ok_user_def ring_produce_peer peer_ring.items_put)

lemma ring_ok_user_consume:
  "ring_ok_user r \<Longrightarrow> ring_consume r = Some (d, r') \<Longrightarrow> ring_ok_user r'"
  by (auto simp: ring_ok_user_def ring_consume_fields intro: ring_ok_consume)

interpretation user_ring: bounded_fifo ring_ok_user ring_items "\<lambda>r. unat (r_size r)" ring_produce
  ring_consume
  by unfold_locales
     (auto simp: ring_items_produce ring_ok_user_produce ring_consume_None ring_consume_fields
        ring_ok_user_def [THEN iffD1, THEN conjunct1, THEN ring_ok_count]
      intro: ring_ok_user_consume dest: ring_consume_Some(1))

end
