(* ===== verification/Ring_Order.thy ===== *)
theory Ring_Order
  imports Ring "HOL-Library.Sublist"
begin

text \<open>
  The memory orderings of the rings.  The rest of the development lets an access to a ring take effect at
  once; here the two sides of a ring run with the reorderings that the orderings written in
  \<^verbatim>\<open>src/socket.rs\<close> leave open.  A store waits in a buffer and becomes visible after any store that was
  made later, unless the two go to the same place or the earlier ones are ordered before it by
  \<^verbatim>\<open>Release\<close>; a descriptor consists of several fields, each with stores and loads of its own; and a load is
  made early unless an \<^verbatim>\<open>Acquire\<close> load stands before it.  The two ends then still see one first-in
  first-out queue.  A call on a ring of the theory \<open>Ring\<close> is a run of this machine.
\<close>

section \<open>Orderings\<close>

datatype ordering = Relaxed | Acquire | Release

text \<open>\<^verbatim>\<open>producer().store(cached, Ordering::Release)\<close>.\<close>

definition publish_ordering :: ordering where
  "publish_ordering = Release"

text \<open>\<^verbatim>\<open>producer().load(Ordering::Acquire)\<close>.\<close>

definition peek_ordering :: ordering where
  "peek_ordering = Acquire"

text \<open>\<^verbatim>\<open>consumer().store(cons.wrapping_add(1), Ordering::Release)\<close>.\<close>

definition consume_ordering :: ordering where
  "consume_ordering = Release"

section \<open>A ring on weakly ordered memory\<close>

text \<open>
  A store of the producer that is not visible yet: a field of the descriptor at a position, or the index.
  Positions count from the start of the run; the index in memory is a 32-bit word, and the slot of a
  position is that word under the mask.
\<close>

datatype 'v store = Cell nat nat 'v | Index nat

definition slot_at :: "nat \<Rightarrow> nat \<Rightarrow> nat" where
  "slot_at k n = unat ((of_nat n :: u32) AND (2 ^ k - 1))"

text \<open>
  Besides memory and the buffer the state has what the consumer has done of its current call: the index
  it loaded, the fields it read, whether its own index is stored.  \<open>wk_put\<close> and \<open>wk_got\<close> record the
  descriptors written and returned so far; \<open>cached\<close> and the consumer's index are their lengths as words.
\<close>

record 'v weak =
  wk_cells :: "nat \<Rightarrow> nat \<Rightarrow> 'v"
  wk_prod :: u32
  wk_cons :: u32
  wk_buf :: "'v store list"
  wk_load :: "u32 option"
  wk_vals :: "nat \<rightharpoonup> 'v"
  wk_stored :: bool
  wk_put :: "'v list list"
  wk_got :: "'v list list"

primrec may_pass :: "nat \<Rightarrow> 'v store \<Rightarrow> 'v store list \<Rightarrow> bool" where
  "may_pass k (Cell n f v) xs = (\<forall>n' v'. Cell n' f v' \<in> set xs \<longrightarrow> slot_at k n' \<noteq> slot_at k n)"
| "may_pass k (Index p) xs =
     (if publish_ordering = Release then xs = [] else (\<forall>q. Index q \<notin> set xs))"

primrec make_visible :: "nat \<Rightarrow> 'v store \<Rightarrow> 'v weak \<Rightarrow> 'v weak" where
  "make_visible k (Cell n f v) s =
     s\<lparr>wk_cells := (wk_cells s)(slot_at k n := (wk_cells s (slot_at k n))(f := v))\<rparr>"
| "make_visible k (Index p) s = s\<lparr>wk_prod := of_nat p\<rparr>"

text \<open>The positions the producer may not reuse yet.\<close>

definition wk_taken :: "'v weak \<Rightarrow> nat" where
  "wk_taken s = length (wk_got s) + (if wk_stored s then 1 else 0)"

text \<open>
  A ring of \<open>2 ^ k\<close> slots and descriptors of \<open>w\<close> fields.  The producer writes a descriptor when a slot is
  free, and stores its index; the call of the consumer loads the producer's index, reads the fields,
  stores its own index if the ring was not empty, and returns.
\<close>

inductive weak_step :: "nat \<Rightarrow> nat \<Rightarrow> 'v weak \<Rightarrow> 'v weak \<Rightarrow> bool" for k w where
  weak_put:
    "length d = w \<Longrightarrow> length (wk_put s) - wk_taken s < 2 ^ k \<Longrightarrow>
     weak_step k w s
       (s\<lparr>wk_buf := wk_buf s @ map (\<lambda>f. Cell (length (wk_put s)) f (d ! f)) [0..<w], wk_put := wk_put s @ [d]\<rparr>)"
| weak_publish:
    "weak_step k w s (s\<lparr>wk_buf := wk_buf s @ [Index (length (wk_put s))]\<rparr>)"
| weak_visible:
    "wk_buf s = xs @ x # ys \<Longrightarrow> may_pass k x xs \<Longrightarrow>
     weak_step k w s (make_visible k x (s\<lparr>wk_buf := xs @ ys\<rparr>))"
| weak_load:
    "wk_load s = None \<Longrightarrow> weak_step k w s (s\<lparr>wk_load := Some (wk_prod s)\<rparr>)"
| weak_read:
    "f < w \<Longrightarrow> wk_vals s f = None \<Longrightarrow> peek_ordering = Acquire \<longrightarrow> wk_load s \<noteq> None \<Longrightarrow>
     weak_step k w s
       (s\<lparr>wk_vals := (wk_vals s)(f \<mapsto> wk_cells s (slot_at k (length (wk_got s))) f)\<rparr>)"
| weak_store:
    "\<not> wk_stored s \<Longrightarrow> wk_load s = Some p \<Longrightarrow> p \<noteq> of_nat (length (wk_got s)) \<Longrightarrow>
     consume_ordering = Release \<longrightarrow> (\<forall>f < w. wk_vals s f \<noteq> None) \<Longrightarrow>
     weak_step k w s (s\<lparr>wk_stored := True, wk_cons := of_nat (length (wk_got s)) + 1\<rparr>)"
| weak_empty:
    "wk_load s = Some (of_nat (length (wk_got s))) \<Longrightarrow>
     weak_step k w s (s\<lparr>wk_load := None, wk_vals := Map.empty\<rparr>)"
| weak_return:
    "wk_stored s \<Longrightarrow> \<forall>f < w. wk_vals s f \<noteq> None \<Longrightarrow>
     weak_step k w s
       (s\<lparr>wk_got := wk_got s @ [map (\<lambda>f. the (wk_vals s f)) [0..<w]], wk_load := None, wk_vals := Map.empty,
          wk_stored := False\<rparr>)"

definition weak_init :: "'v weak \<Rightarrow> bool" where
  "weak_init s \<longleftrightarrow>
     wk_prod s = 0 \<and> wk_cons s = 0 \<and> wk_buf s = [] \<and> wk_load s = None \<and> wk_vals s = Map.empty
     \<and> \<not> wk_stored s \<and> wk_put s = [] \<and> wk_got s = []"

section \<open>The invariant\<close>

lemma slot_at_mod: "k < 32 \<Longrightarrow> slot_at k n = n mod 2 ^ k"
proof -
  assume k: "k < 32"
  have "slot_at k n = (n mod 2 ^ 32) mod 2 ^ k"
    using unat_and_pow2 [of k "of_nat n :: u32"] k by (simp add: slot_at_def unat_of_nat)
  also have "\<dots> = n mod 2 ^ k"
    using k by (intro mod_mod_cancel le_imp_power_dvd) simp
  finally show ?thesis .
qed

text \<open>Positions less than a ring apart lie in different slots, and their words differ.\<close>

lemma mod_inj_near:
  assumes "(a :: nat) mod m = b mod m" "a \<le> b" "b < a + m"
  shows "a = b"
proof (rule ccontr)
  assume "a \<noteq> b"
  then have "0 < b - a" "b - a < m" using assms(2,3) by simp_all
  moreover have "m dvd b - a" using assms(1,2) mod_eq_dvd_iff_nat [of a b m] by simp
  ultimately show False using nat_dvd_not_less by blast
qed

lemma slot_at_near: "k < 32 \<Longrightarrow> slot_at k a = slot_at k b \<Longrightarrow> a \<le> b \<Longrightarrow> b < a + 2 ^ k \<Longrightarrow> a = b"
  using mod_inj_near [of a "2 ^ k" b] by (simp add: slot_at_mod)

lemma of_nat_near:
  assumes "(of_nat a :: u32) = of_nat b" "a \<le> b" "b < a + 2 ^ 32"
  shows "a = b"
proof -
  have "a mod 2 ^ 32 = b mod 2 ^ 32"
    using assms(1) by (simp add: word_of_nat_eq_iff take_bit_eq_mod)
  then show ?thesis using assms(2,3) by (rule mod_inj_near)
qed

text \<open>
  In the buffer no field of a position waits behind an index beyond it; \<open>p\<close> is the index in memory.
\<close>

fun in_order :: "nat \<Rightarrow> 'v store list \<Rightarrow> bool" where
  "in_order p [] = True"
| "in_order p (Cell n f v # b) = (p \<le> n \<and> in_order p b)"
| "in_order p (Index q # b) = (p \<le> q \<and> in_order q b)"

lemma in_order_mono: "in_order q b \<Longrightarrow> p \<le> q \<Longrightarrow> in_order p b"
  by (induction q b arbitrary: p rule: in_order.induct) auto

lemma in_order_cell: "in_order p b \<Longrightarrow> Cell n f v \<in> set b \<Longrightarrow> p \<le> n"
  by (induction p b rule: in_order.induct) auto

lemma in_order_append:
  "in_order p (b @ c) \<longleftrightarrow> in_order p b \<and> in_order (fold (\<lambda>x q. case x of Index r \<Rightarrow> r | _ \<Rightarrow> q) b p) c"
  by (induction p b rule: in_order.induct) auto

lemma in_order_drop_cell: "in_order p (xs @ Cell n f v # ys) \<Longrightarrow> in_order p (xs @ ys)"
  by (simp add: in_order_append)

lemma last_index_le:
  "p \<le> n \<Longrightarrow> \<forall>q. Index q \<in> set b \<longrightarrow> q \<le> n \<Longrightarrow> fold (\<lambda>x q. case x of Index r \<Rightarrow> r | _ \<Rightarrow> q) b p \<le> (n :: nat)"
  by (induction b arbitrary: p) (auto split: store.splits)

lemma in_order_cells: "p \<le> n \<Longrightarrow> in_order p (map (\<lambda>f. Cell n f (g f)) fs)"
  by (induction fs) auto

text \<open>
  \<open>p\<close> is the position the producer's index in memory stands for.  Every descriptor at a position not yet given
  back is, field by field, in memory or on its way; below \<open>p\<close> nothing is on its way any more.
\<close>

definition producer_ok :: "nat \<Rightarrow> nat \<Rightarrow> nat \<Rightarrow> 'v weak \<Rightarrow> bool" where
  "producer_ok k w p s \<longleftrightarrow>
     wk_taken s \<le> p \<and> p \<le> length (wk_put s) \<and> length (wk_put s) \<le> wk_taken s + 2 ^ k
     \<and> wk_prod s = of_nat p \<and> in_order p (wk_buf s) \<and> (\<forall>q. Index q \<in> set (wk_buf s) \<longrightarrow> q \<le> length (wk_put s))
     \<and> (\<forall>n f v. Cell n f v \<in> set (wk_buf s) \<longrightarrow> n < length (wk_put s) \<and> f < w \<and> v = wk_put s ! n ! f)
     \<and> (\<forall>n f. wk_taken s \<le> n \<and> n < length (wk_put s) \<and> f < w \<longrightarrow>
          (\<exists>v. Cell n f v \<in> set (wk_buf s)) \<or> wk_cells s (slot_at k n) f = wk_put s ! n ! f)"

text \<open>What the consumer has read of a descriptor that is there is what was written.\<close>

definition consumer_ok :: "nat \<Rightarrow> nat \<Rightarrow> 'v weak \<Rightarrow> bool" where
  "consumer_ok w p s \<longleftrightarrow>
     wk_cons s = of_nat (wk_taken s) \<and> (\<forall>d \<in> set (wk_put s). length d = w)
     \<and> prefix (wk_got s) (wk_put s)
     \<and> (\<forall>i. wk_load s = Some i \<longrightarrow> (\<exists>q. i = of_nat q \<and> length (wk_got s) \<le> q \<and> q \<le> p))
     \<and> (\<forall>i f v. wk_load s = Some i \<and> i \<noteq> of_nat (length (wk_got s)) \<and> wk_vals s f = Some v \<longrightarrow>
          v = wk_put s ! length (wk_got s) ! f)
     \<and> (wk_load s = None \<longrightarrow> wk_vals s = Map.empty)
     \<and> (wk_stored s \<longrightarrow> (\<exists>i. wk_load s = Some i \<and> i \<noteq> of_nat (length (wk_got s))) \<and> (\<forall>f < w. wk_vals s f \<noteq> None))"

definition weak_ok :: "nat \<Rightarrow> nat \<Rightarrow> nat \<Rightarrow> 'v weak \<Rightarrow> bool" where
  "weak_ok k w p s \<longleftrightarrow> producer_ok k w p s \<and> consumer_ok w p s"

text \<open>An index that differs from the consumer's shows a descriptor.\<close>

lemma loaded_nonempty:
  assumes "consumer_ok w p s" "p \<le> length (wk_put s)" "wk_load s = Some i" "i \<noteq> of_nat (length (wk_got s))"
  shows "length (wk_got s) < p" "length (wk_got s) < length (wk_put s)"
proof -
  obtain q where "i = of_nat q" "length (wk_got s) \<le> q" "q \<le> p"
    using assms(1,3) unfolding consumer_ok_def by blast
  then show "length (wk_got s) < p" "length (wk_got s) < length (wk_put s)"
    using assms(2,4) by (cases "q = length (wk_got s)"; simp)+
qed

section \<open>Every step keeps it\<close>

lemma weak_ok_put:
  assumes "weak_ok k w p s" "length d = w" "length (wk_put s) - wk_taken s < 2 ^ k"
  shows "weak_ok k w p
    (s\<lparr>wk_buf := wk_buf s @ map (\<lambda>f. Cell (length (wk_put s)) f (d ! f)) [0..<w], wk_put := wk_put s @ [d]\<rparr>)"
    (is "weak_ok k w p ?s")
proof -
  have ok: "producer_ok k w p s" "consumer_ok w p s" using assms(1) by (simp_all add: weak_ok_def)
  have t: "wk_taken ?s = wk_taken s" by (simp add: wk_taken_def)
  have p: "p \<le> length (wk_put s)" "wk_taken s \<le> length (wk_put s)" using ok(1) by (simp_all add: producer_ok_def)
  have "in_order p (wk_buf ?s)"
    using ok(1) last_index_le [of p "length (wk_put s)" "wk_buf s"]
    by (simp add: in_order_append in_order_cells producer_ok_def)
  then have "producer_ok k w p ?s"
    using ok(1) assms(2,3) p unfolding producer_ok_def t
    by (auto simp: nth_append less_Suc_eq image_iff)
  moreover have "consumer_ok w p ?s"
  proof -
    have "length (wk_got s) \<le> length (wk_put s)" using p(2) by (simp add: wk_taken_def split: if_splits)
    then show ?thesis
      using ok(2) assms(2) loaded_nonempty [OF ok(2) p(1)] unfolding consumer_ok_def t
      by (auto simp: nth_append)
  qed
  ultimately show ?thesis by (simp add: weak_ok_def)
qed

lemma weak_ok_publish:
  assumes "weak_ok k w p s"
  shows "weak_ok k w p (s\<lparr>wk_buf := wk_buf s @ [Index (length (wk_put s))]\<rparr>)"
  using assms last_index_le [of p "length (wk_put s)" "wk_buf s"]
  by (auto simp: weak_ok_def producer_ok_def consumer_ok_def wk_taken_def in_order_append)

lemma weak_ok_cell:
  assumes "weak_ok k w p s" "k < 32" "wk_buf s = xs @ Cell n f v # ys"
  shows "weak_ok k w p (make_visible k (Cell n f v) (s\<lparr>wk_buf := xs @ ys\<rparr>))" (is "weak_ok k w p ?s")
proof -
  have ok: "producer_ok k w p s" "consumer_ok w p s" using assms(1) by (simp_all add: weak_ok_def)
  have t: "wk_taken ?s = wk_taken s" by (simp add: wk_taken_def)
  have nf: "p \<le> n" "n < length (wk_put s)" "v = wk_put s ! n ! f" "wk_taken s \<le> p"
    "length (wk_put s) \<le> wk_taken s + 2 ^ k"
    using ok(1) assms(3) in_order_cell [of p "wk_buf s" n f v] by (auto simp: producer_ok_def)
  have other: "slot_at k n' = slot_at k n \<Longrightarrow> wk_taken s \<le> n' \<Longrightarrow> n' < length (wk_put s) \<Longrightarrow> n' = n" for n'
    using slot_at_near [OF assms(2), of n' n] slot_at_near [OF assms(2), of n n'] nf by (cases "n' \<le> n") auto
  have there: "(\<exists>v. Cell n' f' v \<in> set (xs @ ys)) \<or> wk_cells ?s (slot_at k n') f' = wk_put s ! n' ! f'"
    if "wk_taken s \<le> n'" "n' < length (wk_put s)" "f' < w" for n' f'
  proof (cases "n' = n \<and> f' = f")
    case True
    then show ?thesis using nf(3) by simp
  next
    case False
    have "(\<exists>v. Cell n' f' v \<in> set (wk_buf s)) \<or> wk_cells s (slot_at k n') f' = wk_put s ! n' ! f'"
      using ok(1) that unfolding producer_ok_def by blast
    then have "(\<exists>v. Cell n' f' v \<in> set (xs @ ys)) \<or> wk_cells s (slot_at k n') f' = wk_put s ! n' ! f'"
      using False assms(3) by auto
    then show ?thesis using False other [of n'] that by auto
  qed
  have "producer_ok k w p ?s"
    using ok(1) there in_order_drop_cell [of p xs n f v ys] assms(3) unfolding producer_ok_def t by simp
  moreover have "consumer_ok w p ?s" using ok(2) unfolding consumer_ok_def t by auto
  ultimately show ?thesis by (simp add: weak_ok_def)
qed

lemma weak_ok_index:
  assumes "weak_ok k w p s" "wk_buf s = Index q # ys"
  shows "weak_ok k w q (make_visible k (Index q) (s\<lparr>wk_buf := ys\<rparr>))" (is "weak_ok k w q ?s")
proof -
  have ok: "producer_ok k w p s" "consumer_ok w p s" using assms(1) by (simp_all add: weak_ok_def)
  have t: "wk_taken ?s = wk_taken s" by (simp add: wk_taken_def)
  have q: "p \<le> q" "q \<le> length (wk_put s)" "in_order q ys" using ok(1) assms(2) by (simp_all add: producer_ok_def)
  have "producer_ok k w q ?s" using ok(1) assms(2) q unfolding producer_ok_def t by simp
  moreover have "consumer_ok w q ?s"
  proof -
    have "\<exists>r. i = of_nat r \<and> length (wk_got s) \<le> r \<and> r \<le> q" if "wk_load s = Some i" for i
      using ok(2) that q(1) unfolding consumer_ok_def by (meson le_trans)
    then show ?thesis using ok(2) unfolding consumer_ok_def t by auto
  qed
  ultimately show ?thesis by (simp add: weak_ok_def)
qed

lemma weak_ok_load:
  assumes "weak_ok k w p s" "wk_load s = None"
  shows "weak_ok k w p (s\<lparr>wk_load := Some (wk_prod s)\<rparr>)"
  using assms
  by (auto simp: weak_ok_def producer_ok_def consumer_ok_def wk_taken_def split: if_splits)

lemma weak_ok_read:
  assumes "weak_ok k w p s" "f < w" "wk_vals s f = None" "wk_load s \<noteq> None"
  shows "weak_ok k w p (s\<lparr>wk_vals := (wk_vals s)(f \<mapsto> wk_cells s (slot_at k (length (wk_got s))) f)\<rparr>)"
proof -
  have ok: "producer_ok k w p s" "consumer_ok w p s" using assms(1) by (simp_all add: weak_ok_def)
  have taken: "wk_taken s = length (wk_got s)" using ok(2) assms(2,3) by (auto simp: consumer_ok_def wk_taken_def)
  have "wk_cells s (slot_at k (length (wk_got s))) f = wk_put s ! length (wk_got s) ! f"
    if "wk_load s = Some i" "i \<noteq> of_nat (length (wk_got s))" for i
  proof -
    note c = loaded_nonempty [OF ok(2) _ that]
    have "p \<le> length (wk_put s)" using ok(1) by (simp add: producer_ok_def)
    note c = c [OF this]
    have "Cell (length (wk_got s)) f v \<notin> set (wk_buf s)" for v
      using ok(1) c(1) in_order_cell [of p "wk_buf s"] unfolding producer_ok_def by fastforce
    moreover have "wk_taken s \<le> length (wk_got s)" using taken by simp
    ultimately show ?thesis using ok(1) c(2) assms(2) unfolding producer_ok_def by blast
  qed
  then have "consumer_ok w p (s\<lparr>wk_vals := (wk_vals s)(f \<mapsto> wk_cells s (slot_at k (length (wk_got s))) f)\<rparr>)"
    using ok(2) assms(4) by (auto simp: consumer_ok_def wk_taken_def)
  then show ?thesis using ok(1) by (simp add: weak_ok_def producer_ok_def wk_taken_def)
qed

lemma weak_ok_store:
  assumes "weak_ok k w p s" "\<not> wk_stored s" "wk_load s = Some i" "i \<noteq> of_nat (length (wk_got s))"
    "\<forall>f < w. wk_vals s f \<noteq> None"
  shows "weak_ok k w p (s\<lparr>wk_stored := True, wk_cons := of_nat (length (wk_got s)) + 1\<rparr>)" (is "weak_ok k w p ?s")
proof -
  have ok: "producer_ok k w p s" "consumer_ok w p s" using assms(1) by (simp_all add: weak_ok_def)
  have t: "wk_taken s = length (wk_got s)" "wk_taken ?s = Suc (length (wk_got s))"
    using assms(2) by (simp_all add: wk_taken_def)
  have "p \<le> length (wk_put s)" using ok(1) by (simp add: producer_ok_def)
  note c = loaded_nonempty [OF ok(2) this assms(3,4)]
  have "producer_ok k w p ?s" using ok(1) c unfolding producer_ok_def t by auto
  moreover have "consumer_ok w p ?s" using ok(2) assms(3-5) unfolding consumer_ok_def t by (auto simp: add.commute)
  ultimately show ?thesis by (simp add: weak_ok_def)
qed

lemma weak_ok_empty:
  assumes "weak_ok k w p s" "wk_load s = Some (of_nat (length (wk_got s)))"
  shows "weak_ok k w p (s\<lparr>wk_load := None, wk_vals := Map.empty\<rparr>)"
  using assms by (auto simp: weak_ok_def producer_ok_def consumer_ok_def wk_taken_def)

lemma weak_ok_return:
  assumes "weak_ok k w p s" "wk_stored s"
  shows "map (\<lambda>f. the (wk_vals s f)) [0..<w] = wk_put s ! length (wk_got s)" "length (wk_got s) < length (wk_put s)"
    and "weak_ok k w p (s\<lparr>wk_got := wk_got s @ [map (\<lambda>f. the (wk_vals s f)) [0..<w]], wk_load := None,
          wk_vals := Map.empty, wk_stored := False\<rparr>)" (is "weak_ok k w p ?s")
proof -
  have ok: "producer_ok k w p s" "consumer_ok w p s" using assms(1) by (simp_all add: weak_ok_def)
  obtain i where i: "wk_load s = Some i" "i \<noteq> of_nat (length (wk_got s))" "\<forall>f < w. wk_vals s f \<noteq> None"
    using ok(2) assms(2) by (auto simp: consumer_ok_def)
  have "p \<le> length (wk_put s)" using ok(1) by (simp add: producer_ok_def)
  note c = loaded_nonempty [OF ok(2) this i(1,2)]
  show "length (wk_got s) < length (wk_put s)" by (rule c(2))
  then have "length (wk_put s ! length (wk_got s)) = w" using ok(2) by (simp add: consumer_ok_def)
  then show d: "map (\<lambda>f. the (wk_vals s f)) [0..<w] = wk_put s ! length (wk_got s)"
    using ok(2) i by (intro nth_equalityI) (auto simp: consumer_ok_def)
  have t: "wk_taken ?s = wk_taken s" using assms(2) by (simp add: wk_taken_def)
  have "consumer_ok w p ?s"
    using ok(2) c(2) unfolding consumer_ok_def t by (simp add: d append_one_prefix)
  moreover have "producer_ok k w p ?s" using ok(1) unfolding producer_ok_def t by simp
  ultimately show "weak_ok k w p ?s" by (simp add: weak_ok_def)
qed

lemma weak_ok_step:
  assumes "weak_step k w s s'" "weak_ok k w p s" "k < 32"
  shows "\<exists>p'. weak_ok k w p' s'"
  using assms(1)
proof (cases rule: weak_step.cases)
  case (weak_visible xs x ys)
  show ?thesis
  proof (cases x)
    case (Cell n f v)
    then show ?thesis using weak_ok_cell [OF assms(2,3)] weak_visible by blast
  next
    case (Index q)
    then have "xs = []" using weak_visible by (simp add: publish_ordering_def)
    then show ?thesis using weak_ok_index [OF assms(2)] weak_visible Index by auto
  qed
next
  case (weak_read f)
  then show ?thesis using weak_ok_read [OF assms(2)] by (auto simp: peek_ordering_def)
next
  case (weak_store i)
  then show ?thesis using weak_ok_store [OF assms(2)] by (auto simp: consume_ordering_def)
qed (use weak_ok_put [OF assms(2)] weak_ok_publish [OF assms(2)] weak_ok_load [OF assms(2)]
      weak_ok_empty [OF assms(2)] weak_ok_return(3) [OF assms(2)] in blast)+

lemma weak_ok_init: "weak_init s \<Longrightarrow> weak_ok k w 0 s"
  by (simp add: weak_init_def weak_ok_def producer_ok_def consumer_ok_def wk_taken_def)

interpretation weak_rings: invariant_system weak_init "weak_step k w" "\<lambda>s. k < 32 \<longrightarrow> (\<exists>p. weak_ok k w p s)"
  for k w
  by unfold_locales (auto intro: weak_ok_init dest: weak_ok_step)

section \<open>One queue\<close>

definition weak_queue :: "'v weak \<Rightarrow> 'v list list" where
  "weak_queue s = drop (length (wk_got s)) (wk_put s)"

lemma weak_queue_step:
  assumes "weak_step k w s s'" "weak_ok k w p s"
  shows "(weak_queue s' = weak_queue s \<and> wk_put s' = wk_put s \<and> wk_got s' = wk_got s)
    \<or> (\<exists>d. weak_queue s' = weak_queue s @ [d] \<and> wk_put s' = wk_put s @ [d] \<and> wk_got s' = wk_got s)
    \<or> (\<exists>d. weak_queue s = d # weak_queue s' \<and> wk_put s' = wk_put s \<and> wk_got s' = wk_got s @ [d])"
  using assms(1)
proof (cases rule: weak_step.cases)
  case (weak_put d)
  have "length (wk_got s) \<le> length (wk_put s)"
    using assms(2) by (auto simp: weak_ok_def consumer_ok_def dest: prefix_length_le)
  then show ?thesis using weak_put by (simp add: weak_queue_def)
next
  case (weak_visible xs x ys)
  then show ?thesis by (cases x) (simp_all add: weak_queue_def)
next
  case weak_return
  note r = weak_ok_return(1,2) [OF assms(2) weak_return(2)]
  show ?thesis
    using weak_return(1) Cons_nth_drop_Suc [OF r(2)] by (simp add: weak_queue_def r(1))
qed (simp_all add: weak_queue_def)

text \<open>
  C3.  The rings are one queue for both ends, whatever the memory reorders.  Descriptors are written field
  by field, the fields and the index of the producer become visible late and out of order as far as the
  orderings of the source allow, and the consumer reads field by field.  In every reachable state what
  was written is what was returned followed by the queue, and every step leaves the queue alone, or appends the
  descriptor just written, or returns the oldest one whole.
\<close>

theorem weak_ring_refines_queue:
  assumes "k < 32" and "weak_init s0" and "(weak_step k w)\<^sup>*\<^sup>* s0 s" and "weak_step k w s s'"
  shows "wk_put s = wk_got s @ weak_queue s
    \<and> ((weak_queue s' = weak_queue s \<and> wk_put s' = wk_put s \<and> wk_got s' = wk_got s)
       \<or> (\<exists>d. weak_queue s' = weak_queue s @ [d] \<and> wk_put s' = wk_put s @ [d] \<and> wk_got s' = wk_got s)
       \<or> (\<exists>d. weak_queue s = d # weak_queue s' \<and> wk_put s' = wk_put s \<and> wk_got s' = wk_got s @ [d]))"
proof -
  obtain p where p: "weak_ok k w p s"
    using weak_rings.inv_reachable [OF assms(2,3)] assms(1) by blast
  then have "wk_put s = wk_got s @ weak_queue s"
    by (auto simp: weak_ok_def consumer_ok_def weak_queue_def prefix_def)
  with weak_queue_step [OF assms(4) p] show ?thesis by blast
qed

section \<open>The operations of the rings are runs\<close>

text \<open>
  When nothing waits in the buffer and no call is under way, memory is a ring of the other theories, and the
  calls on that ring are runs here.
\<close>

definition weak_ring :: "nat \<Rightarrow> nat \<Rightarrow> 'v weak \<Rightarrow> 'v list ring \<Rightarrow> bool" where
  "weak_ring k w s r \<longleftrightarrow>
     wk_buf s = [] \<and> wk_load s = None \<and> wk_vals s = Map.empty \<and> \<not> wk_stored s
     \<and> r_producer r = wk_prod s \<and> r_consumer r = wk_cons s \<and> wk_cons s = of_nat (length (wk_got s))
     \<and> r_cached r = of_nat (length (wk_put s)) \<and> r_mask r = 2 ^ k - 1
     \<and> (\<forall>i. r_desc r i = map (wk_cells s i) [0..<w])"

lemma make_visible_buf: "make_visible k x (s\<lparr>wk_buf := b\<rparr>) = (make_visible k x s)\<lparr>wk_buf := b\<rparr>"
  by (cases x) simp_all

lemma buffer_drains:
  "(weak_step k w)\<^sup>*\<^sup>* (s\<lparr>wk_buf := b\<rparr>) ((fold (make_visible k) b s)\<lparr>wk_buf := []\<rparr>)"
proof (induction b arbitrary: s)
  case (Cons x b)
  have "may_pass k x []" by (cases x) simp_all
  then have "weak_step k w (s\<lparr>wk_buf := x # b\<rparr>) ((make_visible k x s)\<lparr>wk_buf := b\<rparr>)"
    using weak_step.weak_visible [of "s\<lparr>wk_buf := x # b\<rparr>" "[]" x b k w] by (simp add: make_visible_buf)
  then show ?case using Cons.IH [of "make_visible k x s"] by (simp add: converse_rtranclp_into_rtranclp)
qed simp

lemma cells_visible:
  "fold (make_visible k) (map (\<lambda>f. Cell n f (d ! f)) [0..<m]) s =
   s\<lparr>wk_cells := (wk_cells s)(slot_at k n := (\<lambda>f. if f < m then d ! f else wk_cells s (slot_at k n) f))\<rparr>"
proof (induction m)
  case (Suc m)
  have "(\<lambda>f. if f < m then d ! f else wk_cells s (slot_at k n) f)(m := d ! m) =
      (\<lambda>f. if f < Suc m then d ! f else wk_cells s (slot_at k n) f)"
    by (auto simp: less_Suc_eq)
  then show ?case by (simp add: Suc.IH fun_upd_def cong: if_cong)
qed simp

lemma ring_produce_runs:
  assumes "weak_ring k w s r" "length d = w" "length (wk_put s) - length (wk_got s) < 2 ^ k"
  shows "\<exists>s'. (weak_step k w)\<^sup>*\<^sup>* s s' \<and> weak_ring k w s' (ring_produce d r)
    \<and> wk_put s' = wk_put s @ [d] \<and> wk_got s' = wk_got s"
proof -
  let ?n = "length (wk_put s)" and ?cs = "map (\<lambda>f. Cell (length (wk_put s)) f (d ! f)) [0..<w]"
  let ?put = "s\<lparr>wk_buf := ?cs, wk_put := wk_put s @ [d]\<rparr>" and ?b = "?cs @ [Index (Suc ?n)]"
  let ?t = "(fold (make_visible k) ?b ?put)\<lparr>wk_buf := []\<rparr>"
  have q: "wk_buf s = []" "wk_taken s = length (wk_got s)" using assms(1) by (simp_all add: weak_ring_def wk_taken_def)
  have "weak_step k w s ?put" using weak_step.weak_put [OF assms(2), of s k] assms(3) q by simp
  moreover have "weak_step k w ?put (?put\<lparr>wk_buf := ?b\<rparr>)"
    using weak_step.weak_publish [of k w ?put] by simp
  moreover have "(weak_step k w)\<^sup>*\<^sup>* (?put\<lparr>wk_buf := ?b\<rparr>) ?t" by (rule buffer_drains)
  ultimately have "(weak_step k w)\<^sup>*\<^sup>* s ?t" by (meson converse_rtranclp_into_rtranclp)
  moreover have "map ((wk_cells ?t) i) [0..<w] = (if i = slot_at k ?n then d else map (wk_cells s i) [0..<w])" for i
    using assms(2) by (auto simp: cells_visible map_nth [of d] intro!: nth_equalityI)
  then have "weak_ring k w ?t (ring_produce d r)"
    using assms(1) by (auto simp: weak_ring_def ring_produce_def ring_put_def ring_publish_def cells_visible slot_at_def)
  moreover have "wk_put ?t = wk_put s @ [d]" "wk_got ?t = wk_got s" by (simp_all add: cells_visible)
  ultimately show ?thesis by blast
qed

lemma fields_read:
  assumes "wk_load s \<noteq> None" "wk_vals s = Map.empty" "m \<le> w"
  shows "(weak_step k w)\<^sup>*\<^sup>* s
    (s\<lparr>wk_vals := (\<lambda>f. if f < m then Some (wk_cells s (slot_at k (length (wk_got s))) f) else None)\<rparr>)"
  using assms(3)
proof (induction m)
  case 0
  have "s\<lparr>wk_vals := Map.empty\<rparr> = s" using assms(2) by (cases s) simp
  then show ?case by simp
next
  case (Suc m)
  let ?v = "\<lambda>m f. if f < m then Some (wk_cells s (slot_at k (length (wk_got s))) f) else None"
  have v: "(?v m)(m \<mapsto> wk_cells s (slot_at k (length (wk_got s))) m) = ?v (Suc m)"
    by (auto simp: less_Suc_eq)
  have "weak_step k w (s\<lparr>wk_vals := ?v m\<rparr>) (s\<lparr>wk_vals := ?v (Suc m)\<rparr>)"
    using weak_step.weak_read [of m w "s\<lparr>wk_vals := ?v m\<rparr>" k] Suc.prems assms(1) by (simp add: v)
  then show ?case using Suc by (simp add: rtranclp.rtrancl_into_rtrancl)
qed

lemma ring_consume_runs:
  assumes "weak_ring k w s r" "ring_consume r = Some (d, r')"
  shows "\<exists>s'. (weak_step k w)\<^sup>*\<^sup>* s s' \<and> weak_ring k w s' r'
    \<and> wk_put s' = wk_put s \<and> wk_got s' = wk_got s @ [d]"
proof -
  have q: "wk_buf s = []" "wk_load s = None" "wk_vals s = Map.empty" "\<not> wk_stored s" "wk_cons s = of_nat (length (wk_got s))"
    and r: "r_producer r = wk_prod s" "r_consumer r = wk_cons s" "r_mask r = 2 ^ k - 1"
      "\<forall>i. r_desc r i = map (wk_cells s i) [0..<w]"
    using assms(1) by (simp_all add: weak_ring_def)
  let ?slot = "slot_at k (length (wk_got s))" and ?p = "wk_prod s"
  have d: "wk_cons s \<noteq> ?p" "d = map (wk_cells s ?slot) [0..<w]" "r' = r\<lparr>r_consumer := wk_cons s + 1\<rparr>"
    using assms(2) r q(5) by (auto simp: ring_consume_def slot_at_def split: if_splits)
  let ?v = "\<lambda>f. if f < w then Some (wk_cells s ?slot f) else None"
  let ?a = "s\<lparr>wk_load := Some ?p\<rparr>" and ?b = "s\<lparr>wk_load := Some ?p, wk_vals := ?v\<rparr>"
  let ?c = "?b\<lparr>wk_stored := True, wk_cons := wk_cons s + 1\<rparr>"
  let ?e = "?c\<lparr>wk_got := wk_got s @ [d], wk_load := None, wk_vals := Map.empty, wk_stored := False\<rparr>"
  have "weak_step k w s ?a" using q(2) by (rule weak_step.weak_load)
  moreover have "(weak_step k w)\<^sup>*\<^sup>* ?a ?b" using fields_read [of ?a w w k] q(3) by (simp cong: if_cong)
  moreover have "weak_step k w ?b ?c"
    using weak_step.weak_store [of ?b ?p w k] q(4,5) d(1) by auto
  moreover have "map (\<lambda>f. the (?v f)) [0..<w] = d" unfolding d(2) by simp
  then have "weak_step k w ?c ?e" using weak_step.weak_return [of ?c w k] by simp
  ultimately have "(weak_step k w)\<^sup>*\<^sup>* s ?e"
    by (meson converse_rtranclp_into_rtranclp rtranclp.rtrancl_into_rtrancl rtranclp_trans)
  moreover have "weak_ring k w ?e r'"
    using assms(1) q(5) d(3) by (simp add: weak_ring_def)
  moreover have "wk_put ?e = wk_put s" "wk_got ?e = wk_got s @ [d]" by simp_all
  ultimately show ?thesis by blast
qed

text \<open>A run on a ring of two slots: one descriptor, written, published and returned.\<close>

definition weak_sample :: "nat \<Rightarrow> nat weak" where
  "weak_sample i =
     \<lparr>wk_cells = (if i < 3 then (\<lambda>_ _. 0) else (\<lambda>_ _. 0)(0 := (\<lambda>_. 0)(0 := 5))),
      wk_prod = (if i < 4 then 0 else 1), wk_cons = (if i < 7 then 0 else 1),
      wk_buf = (if i = 1 then [Cell 0 0 5] else if i = 2 then [Cell 0 0 5, Index 1] else if i = 3 then [Index 1] else []),
      wk_load = (if i < 5 then None else Some 1), wk_vals = (if i < 6 then Map.empty else [0 \<mapsto> 5]),
      wk_stored = (7 \<le> i), wk_put = (if i = 0 then [] else [[5]]), wk_got = []\<rparr>"

lemma weak_sample_steps: "i < 7 \<Longrightarrow> weak_step 1 1 (weak_sample i) (weak_sample (Suc i))"
proof -
  have slot0: "slot_at (Suc 0) 0 = 0" by (simp add: slot_at_def)
  have "weak_step 1 1 (weak_sample 0) (weak_sample 1)"
    using weak_step.weak_put [of "[5]" 1 "weak_sample 0" 1] by (simp add: weak_sample_def wk_taken_def)
  moreover have "weak_step 1 1 (weak_sample 1) (weak_sample 2)"
    using weak_step.weak_publish [of 1 1 "weak_sample 1"] by (simp add: weak_sample_def)
  moreover have "weak_step 1 1 (weak_sample 2) (weak_sample 3)"
    using weak_step.weak_visible [of "weak_sample 2" "[]" "Cell 0 0 5" "[Index 1]" 1 1]
    by (simp add: weak_sample_def slot0)
  moreover have "weak_step 1 1 (weak_sample 3) (weak_sample 4)"
    using weak_step.weak_visible [of "weak_sample 3" "[]" "Index 1" "[]" 1 1] by (simp add: weak_sample_def)
  moreover have "weak_step 1 1 (weak_sample 4) (weak_sample 5)"
    using weak_step.weak_load [of "weak_sample 4" 1 1] by (simp add: weak_sample_def)
  moreover have "weak_step 1 1 (weak_sample 5) (weak_sample 6)"
    using weak_step.weak_read [of 0 1 "weak_sample 5" 1] by (simp add: weak_sample_def slot0)
  moreover have "weak_step 1 1 (weak_sample 6) (weak_sample 7)"
    using weak_step.weak_store [of "weak_sample 6" 1 1 1] by (simp add: weak_sample_def)
  moreover assume "i < 7"
  then have "i \<in> {0, 1, 2, 3, 4, 5, 6}" by auto
  ultimately show "weak_step 1 1 (weak_sample i) (weak_sample (Suc i))" by (auto simp: eval_nat_numeral)
qed

theorem weak_ring_refines_queue_witness:
  "\<exists>s' :: nat weak. weak_step 1 1 (weak_sample 7) s' \<and> weak_queue (weak_sample 7) = [[5]] \<and> wk_got s' = [[5]]"
proof -
  have reach: "i \<le> 7 \<Longrightarrow> (weak_step 1 1)\<^sup>*\<^sup>* (weak_sample 0) (weak_sample i)" for i
  proof (induction i)
    case (Suc i)
    then show ?case using weak_sample_steps [of i] by (auto elim: rtranclp.rtrancl_into_rtrancl)
  qed simp
  let ?s = "(weak_sample 7)\<lparr>wk_got := [[5]], wk_load := None, wk_vals := Map.empty, wk_stored := False\<rparr>"
  have init: "weak_init (weak_sample 0)" by (simp add: weak_init_def weak_sample_def)
  have step: "weak_step 1 1 (weak_sample 7) ?s"
    using weak_step.weak_return [of "weak_sample 7" 1 1] by (simp add: weak_sample_def)
  have "wk_put (weak_sample 7) = [[5]]" "wk_got (weak_sample 7) = []" by (simp_all add: weak_sample_def)
  then have "weak_queue (weak_sample 7) = [[5]]"
    using weak_ring_refines_queue [OF _ init reach step] by simp
  then show ?thesis using step by (intro exI [of _ ?s]) simp
qed

end
