(* ===== verification/Umem_Config.thy ===== *)
theory Umem_Config
  imports Xskip_Prelude
begin

text \<open>
  The sizes of the UMEM and its rings, the frame size derived from the link MTU, the huge page and
  bind mode options, and the mapping of the UMEM region (\<^verbatim>\<open>frame_size_for\<close>, \<^verbatim>\<open>HugePage\<close>,
  \<^verbatim>\<open>XdpMode\<close>, \<^verbatim>\<open>map_umem\<close> of \<^verbatim>\<open>src/socket.rs\<close>).  What the operating system answers to
  a call is a parameter; what a call acquires or releases is an event of a log.
\<close>

section \<open>Sizes\<close>

definition FRAME_COUNT :: u32 where "FRAME_COUNT = 4096"
definition FILL_SIZE :: u32 where "FILL_SIZE = 2048"
definition RX_SIZE :: u32 where "RX_SIZE = 2048"
definition TX_SIZE :: u32 where "TX_SIZE = 2048"

definition ETH_HDR_LEN :: nat where "ETH_HDR_LEN = 14"

text \<open>\<^verbatim>\<open>IPV4_HEADER_LEN\<close> and \<^verbatim>\<open>UDP_HEADER_LEN\<close> of \<^verbatim>\<open>smoltcp::wire\<close> are the 20 and 8 bytes
  of RFC 791 and RFC 768.\<close>

definition IPV4_HEADER_LEN :: nat where "IPV4_HEADER_LEN = 20"
definition UDP_HEADER_LEN :: nat where "UDP_HEADER_LEN = 8"
definition UDP_OVERHEAD :: nat where "UDP_OVERHEAD = IPV4_HEADER_LEN + UDP_HEADER_LEN"
definition MIN_CHUNK_SIZE :: nat where "MIN_CHUNK_SIZE = 2048"

lemmas header_len_defs = ETH_HDR_LEN_def IPV4_HEADER_LEN_def UDP_HEADER_LEN_def UDP_OVERHEAD_def

lemmas umem_size_defs = FRAME_COUNT_def FILL_SIZE_def RX_SIZE_def TX_SIZE_def

text \<open>
  \<^verbatim>\<open>usize::next_power_of_two\<close>: the least power of two that is at least \<open>n\<close>.  Above \<open>2 ^ 63\<close> there is
  none in range: overflow checks panic, without them the result is 0.
\<close>

function pow2_above :: "nat \<Rightarrow> nat \<Rightarrow> nat" where
  "pow2_above p n = (if p = 0 \<or> n \<le> p then p else pow2_above (2 * p) n)"
  by pat_completeness auto
termination
  by (relation "measure (\<lambda>(p, n). n - p)") auto

declare pow2_above.simps [simp del]

definition next_power_of_two :: "profile \<Rightarrow> nat \<Rightarrow> nat outcome" where
  "next_power_of_two p n =
     (let q = pow2_above 1 n in
      if q < usize_modulus then Ok q
      else if p = Debug then Panic Arithmetic_Overflow else Ok 0)"

definition frame_size_for :: "profile \<Rightarrow> nat \<Rightarrow> nat \<Rightarrow> u32 outcome" where
  "frame_size_for p mtu page_size =
     bind_outcome (add_usize p ETH_HDR_LEN mtu) (\<lambda>need.
     bind_outcome (next_power_of_two p need) (\<lambda>q.
       let sz = max q MIN_CHUNK_SIZE in
       if page_size < sz then Err (Custom InvalidInput (Mtu_Needs_Frames mtu sz page_size))
       else Ok (of_nat sz)))"

section \<open>Huge pages and bind modes\<close>

datatype huge_page = Off | Mb2 | Gb1

primrec huge_bytes :: "huge_page \<Rightarrow> nat option" where
  "huge_bytes Off = None"
| "huge_bytes Mb2 = Some (2 * 2 ^ 20)"
| "huge_bytes Gb1 = Some (1 * 2 ^ 30)"

primrec huge_label :: "huge_page \<Rightarrow> string" where
  "huge_label Off = ''normal pages (hugetlb pool empty; sysctl vm.nr_hugepages)''"
| "huge_label Mb2 = ''2 MiB hugepages''"
| "huge_label Gb1 = ''1 GiB hugepages''"

datatype xdp_mode = Copy | ZeroCopy | Auto

text \<open>The bind flags of \<^verbatim>\<open>linux/if_xdp.h\<close>, as \<^verbatim>\<open>libc\<close> exports them.\<close>

definition XDP_COPY :: u16 where "XDP_COPY = 2"
definition XDP_ZEROCOPY :: u16 where "XDP_ZEROCOPY = 4"
definition XDP_USE_NEED_WAKEUP :: u16 where "XDP_USE_NEED_WAKEUP = 8"

primrec attempts :: "xdp_mode \<Rightarrow> (u16 \<times> string) list" where
  "attempts Copy = [(XDP_COPY, ''copy mode'')]"
| "attempts ZeroCopy = [(XDP_ZEROCOPY, ''zero-copy'')]"
| "attempts Auto = [(XDP_ZEROCOPY, ''zero-copy''), (XDP_COPY, ''copy mode'')]"

section \<open>Resources of the operating system\<close>

text \<open>
  Calls that acquire, release or poke a kernel object, in the order they are made.  File descriptors
  are their numbers; a mapping is its base address and length; an XDP hook is an interface and a mode, and a
  call to detach has the system's answer with it.
\<close>

datatype os_event =
    Opened int
  | Closed int
  | Mapped nat nat
  | Unmapped nat nat
  | Bound int u16 u32 u32
  | Sendto int
  | Recvfrom int
  | Attached int bool
  | Detach int bool "int option"

primrec live_fds :: "os_event list \<Rightarrow> int multiset \<Rightarrow> int multiset" where
  "live_fds [] s = s"
| "live_fds (e # es) s =
     live_fds es (case e of Opened fd \<Rightarrow> add_mset fd s | Closed fd \<Rightarrow> s - {#fd#} | _ \<Rightarrow> s)"

primrec live_maps :: "os_event list \<Rightarrow> (nat \<times> nat) multiset \<Rightarrow> (nat \<times> nat) multiset" where
  "live_maps [] s = s"
| "live_maps (e # es) s =
     live_maps es (case e of Mapped a n \<Rightarrow> add_mset (a, n) s | Unmapped a n \<Rightarrow> s - {#(a, n)#} | _ \<Rightarrow> s)"

lemma live_fds_append [simp]: "live_fds (xs @ ys) s = live_fds ys (live_fds xs s)"
  by (induction xs arbitrary: s) simp_all

lemma live_maps_append [simp]: "live_maps (xs @ ys) s = live_maps ys (live_maps xs s)"
  by (induction xs arbitrary: s) simp_all

text \<open>\<^verbatim>\<open>usize::trailing_zeros\<close>, 64 for zero.\<close>

function trailing_zeros :: "nat \<Rightarrow> nat" where
  "trailing_zeros n = (if n = 0 then 64 else if odd n then 0 else Suc (trailing_zeros (n div 2)))"
  by pat_completeness auto
termination
  by (relation "measure id") auto

declare trailing_zeros.simps [simp del]

text \<open>
  \<^verbatim>\<open>map_umem\<close>: one attempt with huge pages if the length is a multiple of their size, then normal
  pages.  \<open>mmap\<close> is the system's answer to an anonymous mapping of that length, with the log2 of the
  huge page size or \<^const>\<open>None\<close>: an errno or the base address.
\<close>

definition map_umem ::
  "(nat option \<Rightarrow> nat \<Rightarrow> int + nat) \<Rightarrow> nat \<Rightarrow> huge_page \<Rightarrow> (nat \<times> huge_page) outcome \<times> os_event list"
where
  "map_umem mmap len hugepage =
     (let normal =
        (case mmap None len of
           Inl e \<Rightarrow> (Err (Os_Error e), [])
         | Inr a \<Rightarrow> (Ok (a, Off), [Mapped a len]))
      in case huge_bytes hugepage of
           None \<Rightarrow> normal
         | Some sz \<Rightarrow>
             if sz dvd len then
               (case mmap (Some (trailing_zeros sz)) len of
                  Inl e \<Rightarrow> normal
                | Inr a \<Rightarrow> (Ok (a, hugepage), [Mapped a len]))
             else normal)"

section \<open>The frame size\<close>

lemma pow2_above_ge: "0 < p \<Longrightarrow> n \<le> pow2_above p n"
proof (induction p n rule: pow2_above.induct)
  case (1 p n)
  then show ?case by (cases "n \<le> p") (auto simp: pow2_above.simps [of p n])
qed

lemma pow2_above_pow2: "\<exists>k\<ge>j. pow2_above (2 ^ j) n = 2 ^ k"
proof (induction "2 ^ j :: nat" n arbitrary: j rule: pow2_above.induct)
  case (1 n)
  show ?case
  proof (cases "n \<le> 2 ^ j")
    case True
    then show ?thesis by (auto simp: pow2_above.simps [of "2 ^ j" n])
  next
    case False
    then obtain k where "k \<ge> Suc j" "pow2_above (2 ^ Suc j) n = 2 ^ k"
      using "1.hyps" [of "Suc j"] by auto
    with False show ?thesis
      by (intro exI [of _ k]) (simp add: pow2_above.simps [of "2 ^ j" n])
  qed
qed

lemma pow2_above_least: "j \<le> k \<Longrightarrow> n \<le> 2 ^ k \<Longrightarrow> pow2_above (2 ^ j) n \<le> 2 ^ k"
proof (induction "2 ^ j :: nat" n arbitrary: j rule: pow2_above.induct)
  case (1 n)
  show ?case
  proof (cases "n \<le> 2 ^ j")
    case True
    with "1.prems" show ?thesis by (simp add: pow2_above.simps [of "2 ^ j" n])
  next
    case False
    with "1.prems" have "j \<noteq> k" by auto
    with False "1.prems" have "pow2_above (2 ^ Suc j) n \<le> 2 ^ k"
      by (intro "1.hyps") auto
    with False show ?thesis by (simp add: pow2_above.simps [of "2 ^ j" n])
  qed
qed

text \<open>The power a frame is rounded up to, within the range where nothing overflows.\<close>

lemma next_power_of_two_in_range:
  assumes "n \<le> 2 ^ 63"
  shows "\<exists>k\<le>63. next_power_of_two p n = Ok (2 ^ k) \<and> n \<le> 2 ^ k \<and> (\<forall>j. n \<le> 2 ^ j \<longrightarrow> k \<le> j)"
proof -
  obtain k where k: "pow2_above 1 n = 2 ^ k"
    using pow2_above_pow2 [of 0 n] by auto
  have le: "k \<le> j" if "n \<le> 2 ^ j" for j
    using pow2_above_least [of 0 j n] that k by (simp add: power_increasing_iff)
  have "k \<le> 63" using le [OF assms] .
  moreover from this have "(2::nat) ^ k < usize_modulus"
    using power_increasing [of k 63 "2::nat"] by simp
  ultimately show ?thesis
    using le k pow2_above_ge [of 1 n] by (intro exI [of _ k]) (simp add: next_power_of_two_def)
qed

lemma max_pow2_min_chunk: "max (2 ^ k) MIN_CHUNK_SIZE = 2 ^ max k 11"
  using power_increasing [of k 11 "2::nat"] power_increasing [of 11 k "2::nat"]
  by (auto simp: MIN_CHUNK_SIZE_def max_def)

lemma frame_size_for_eq:
  assumes "ETH_HDR_LEN + mtu \<le> 2 ^ 63"
  shows "\<exists>k\<ge>11. ETH_HDR_LEN + mtu \<le> 2 ^ k
    \<and> (\<forall>j\<ge>11. ETH_HDR_LEN + mtu \<le> 2 ^ j \<longrightarrow> k \<le> j)
    \<and> frame_size_for p mtu page =
       (if page < 2 ^ k then Err (Custom InvalidInput (Mtu_Needs_Frames mtu (2 ^ k) page))
        else Ok (of_nat (2 ^ k)))"
proof -
  obtain q where q: "next_power_of_two p (ETH_HDR_LEN + mtu) = Ok (2 ^ q)"
    "ETH_HDR_LEN + mtu \<le> 2 ^ q" "\<forall>j. ETH_HDR_LEN + mtu \<le> 2 ^ j \<longrightarrow> q \<le> j"
    using next_power_of_two_in_range [OF assms] by blast
  have "add_usize p ETH_HDR_LEN mtu = Ok (ETH_HDR_LEN + mtu)"
    using assms by simp
  with q(1) have "frame_size_for p mtu page =
     (if page < 2 ^ max q 11 then Err (Custom InvalidInput (Mtu_Needs_Frames mtu (2 ^ max q 11) page))
      else Ok (of_nat (2 ^ max q 11)))"
    by (simp add: frame_size_for_def Let_def max_pow2_min_chunk)
  moreover have "ETH_HDR_LEN + mtu \<le> 2 ^ max q 11"
    by (rule order.trans [OF q(2)]) (simp add: power_increasing)
  ultimately show ?thesis
    using q(3) by (intro exI [of _ "max q 11"] conjI) simp_all
qed

lemma unat_of_nat_pow2_32:
  fixes page :: nat
  assumes "2 ^ k \<le> page" "page < 2 ^ 32"
  shows "k < 32 \<and> unat (of_nat (2 ^ k) :: u32) = 2 ^ k"
proof -
  have "(2::nat) ^ k < 2 ^ 32" using assms by linarith
  then have "k < 32" by (rule power_less_imp_less_exp [rotated]) simp
  then show ?thesis by (simp add: unat_pow2)
qed

lemma frame_size_for_Ok:
  assumes "ETH_HDR_LEN + mtu \<le> 2 ^ 63" "page < 2 ^ 32" "frame_size_for p mtu page = Ok fs"
  shows "\<exists>k\<ge>11. k < 32 \<and> fs = 2 ^ k \<and> ETH_HDR_LEN + mtu \<le> 2 ^ k \<and> 2 ^ k \<le> page"
proof -
  obtain k where k: "11 \<le> k" "ETH_HDR_LEN + mtu \<le> 2 ^ k"
    "frame_size_for p mtu page =
       (if page < 2 ^ k then Err (Custom InvalidInput (Mtu_Needs_Frames mtu (2 ^ k) page))
        else Ok (of_nat (2 ^ k)))"
    using frame_size_for_eq [OF assms(1), of p page] by blast
  with assms(3) have "2 ^ k \<le> page" "fs = 2 ^ k"
    by (simp_all split: if_splits)
  with k(1,2) unat_of_nat_pow2_32 [OF _ assms(2)] show ?thesis by blast
qed

text \<open>
  C23.  For every MTU that does not overflow \<^verbatim>\<open>usize\<close> and every page size under 4 GiB,
  \<^verbatim>\<open>frame_size_for\<close> either returns the least power of two that is at least 2048 and holds the Ethernet
  header plus one MTU, and that fits a page, or it reports \<^verbatim>\<open>InvalidInput\<close> and no such power of two
  fits a page.  It never panics, and the conversion to 32 bits loses nothing.
\<close>

theorem frame_size_for_spec:
  assumes "ETH_HDR_LEN + mtu \<le> 2 ^ 63" and "page < 2 ^ 32"
  shows "case frame_size_for p mtu page of
      Ok fs \<Rightarrow> \<exists>k. 11 \<le> k \<and> unat fs = 2 ^ k \<and> ETH_HDR_LEN + mtu \<le> unat fs \<and> unat fs \<le> page
                \<and> (\<forall>j\<ge>11. ETH_HDR_LEN + mtu \<le> 2 ^ j \<longrightarrow> unat fs \<le> 2 ^ j)
    | Err e \<Rightarrow> (\<exists>sz. e = Custom InvalidInput (Mtu_Needs_Frames mtu sz page))
                \<and> (\<forall>j\<ge>11. ETH_HDR_LEN + mtu \<le> 2 ^ j \<longrightarrow> page < 2 ^ j)
    | Panic _ \<Rightarrow> False"
proof -
  obtain k where k: "11 \<le> k" "ETH_HDR_LEN + mtu \<le> 2 ^ k"
    "\<forall>j\<ge>11. ETH_HDR_LEN + mtu \<le> 2 ^ j \<longrightarrow> k \<le> j"
    "frame_size_for p mtu page =
       (if page < 2 ^ k then Err (Custom InvalidInput (Mtu_Needs_Frames mtu (2 ^ k) page))
        else Ok (of_nat (2 ^ k)))"
    using frame_size_for_eq [OF assms(1), of p page] by blast
  have least: "\<forall>j\<ge>11. ETH_HDR_LEN + mtu \<le> 2 ^ j \<longrightarrow> (2::nat) ^ k \<le> 2 ^ j"
    using k(3) by (simp add: power_increasing)
  show ?thesis
  proof (cases "page < 2 ^ k")
    case True
    moreover from this least have "\<forall>j\<ge>11. ETH_HDR_LEN + mtu \<le> 2 ^ j \<longrightarrow> page < 2 ^ j"
      by (blast intro: less_le_trans)
    ultimately show ?thesis by (simp add: k(4))
  next
    case False
    then have page: "2 ^ k \<le> page" by simp
    have "unat (of_nat (2 ^ k) :: u32) = 2 ^ k"
      using unat_of_nat_pow2_32 [OF page assms(2)] by blast
    moreover have "frame_size_for p mtu page = Ok (of_nat (2 ^ k))"
      using False by (simp add: k(4))
    ultimately show ?thesis
      using page k(1,2) least by (auto intro!: exI [of _ k] simp del: of_nat_power)
  qed
qed

theorem frame_size_for_spec_witness:
  "ETH_HDR_LEN + 1500 \<le> 2 ^ 63 \<and> (4096::nat) < 2 ^ 32
   \<and> frame_size_for Release 1500 4096 = Ok 2048
   \<and> (\<exists>k. 11 \<le> k \<and> unat (2048::u32) = 2 ^ k \<and> ETH_HDR_LEN + 1500 \<le> unat (2048::u32))"
proof -
  have h: "ETH_HDR_LEN + 1500 \<le> 2 ^ 63" "(4096::nat) < 2 ^ 32"
    by (simp_all add: ETH_HDR_LEN_def)
  have e: "frame_size_for Release 1500 4096 = Ok 2048"
    by (simp add: frame_size_for_def next_power_of_two_def pow2_above.simps MIN_CHUNK_SIZE_def
        ETH_HDR_LEN_def)
  show ?thesis
    using frame_size_for_spec [OF h, of Release] h by (auto simp: e)
qed

lemma trailing_zeros_2MiB: "trailing_zeros 2097152 = 21"
  by (simp add: trailing_zeros.simps)

lemma umem_length_pow2:
  assumes "ETH_HDR_LEN + mtu \<le> 2 ^ 63" "page \<le> 2 ^ 17" "frame_size_for p mtu page = Ok fs"
  shows "\<exists>k\<ge>23. k < 30 \<and> unat fs * unat FRAME_COUNT = 2 ^ k"
proof -
  obtain k where k: "11 \<le> k" "fs = 2 ^ k" "k < 32" "2 ^ k \<le> page"
    using frame_size_for_Ok [OF assms(1) _ assms(3)] assms(2) by auto
  then have "(2::nat) ^ k \<le> 2 ^ 17" using assms(2) by linarith
  then have "k \<le> 17" by (rule power_le_imp_le_exp [rotated]) simp
  moreover have "unat fs * unat FRAME_COUNT = 2 ^ (k + 12)"
    using k by (simp add: unat_pow2 FRAME_COUNT_def power_add)
  ultimately show ?thesis
    using k(1) by (intro exI [of _ "k + 12"]) simp
qed

text \<open>
  C24.  Every UMEM of 4096 frames of a size \<^verbatim>\<open>frame_size_for\<close> returns is a multiple of 2 MiB, so the
  huge page attempt is always made for \<^verbatim>\<open>Mb2\<close> and normal pages are only a fall-back; but it is
  never a multiple of 1 GiB while a page is at most 128 KiB, so \<^verbatim>\<open>Gb1\<close> never asks the system for a
  huge page and always ends on normal pages.
\<close>

theorem map_umem_huge_pages:
  assumes "ETH_HDR_LEN + mtu \<le> 2 ^ 63" and "page \<le> 2 ^ 17"
    and "frame_size_for p mtu page = Ok fs"
  defines "len \<equiv> unat fs * unat FRAME_COUNT"
  shows "map_umem mmap len Mb2 =
           (case mmap (Some 21) len of
              Inr a \<Rightarrow> (Ok (a, Mb2), [Mapped a len])
            | Inl _ \<Rightarrow> map_umem mmap len Off)
         \<and> map_umem mmap len Gb1 = map_umem mmap len Off"
proof -
  obtain k where k: "23 \<le> k" "k < 30" "len = 2 ^ k"
    using umem_length_pow2 [OF assms(1-3)] by (auto simp: len_def)
  have "(2::nat) ^ 21 dvd len" using k by (simp add: le_imp_power_dvd del: power_numeral)
  then have mb: "2097152 dvd len" by simp
  have "\<not> (2::nat) ^ 30 dvd len"
    using k by (auto simp del: power_numeral dest: power_dvd_imp_le)
  then have gb: "\<not> 1073741824 dvd len" by simp
  show ?thesis
    using mb gb by (simp add: map_umem_def Let_def trailing_zeros_2MiB split: sum.split)
qed

theorem map_umem_huge_pages_witness:
  "ETH_HDR_LEN + 1500 \<le> 2 ^ 63 \<and> (4096::nat) \<le> 2 ^ 17
   \<and> map_umem (\<lambda>huge n. if huge = None then Inr 65536 else Inl 12) (unat (2048::u32) * unat FRAME_COUNT) Mb2
       = (Ok (65536, Off), [Mapped 65536 8388608])"
proof -
  have h: "ETH_HDR_LEN + 1500 \<le> 2 ^ 63" "(4096::nat) \<le> 2 ^ 17"
    "frame_size_for Release 1500 4096 = Ok 2048"
    by (simp_all add: ETH_HDR_LEN_def frame_size_for_def next_power_of_two_def pow2_above.simps
        MIN_CHUNK_SIZE_def)
  show ?thesis
    using map_umem_huge_pages [OF h, of "\<lambda>huge n. if huge = None then Inr 65536 else Inl 12"] h(1,2)
    by (simp add: map_umem_def FRAME_COUNT_def)
qed

end
