(* ===== verification/Xsk.thy ===== *)
theory Xsk
  imports Ring Umem_Config
begin

text \<open>
  The AF\_XDP socket (\<^verbatim>\<open>struct Xsk\<close> of \<^verbatim>\<open>src/socket.rs\<close>): its UMEM, the four rings, the pool of
  free transmit frames, the operations of the data path on them, its construction and its drop.
  Each operation runs on the calling thread and reads a shared index once, so an operation is one
  step; the kernel's steps in between are the subject of the theory \<open>Xsk_Ownership\<close>.
\<close>

section \<open>State\<close>

record xdp_desc =
  d_addr :: u64
  d_len :: u32
  d_options :: u32

text \<open>
  \<open>x_umem\<close> is the memory at the UMEM pointer \<open>x_umem_ptr\<close>, indexed by UMEM address.  \<open>x_log\<close>
  is not a field of the code: it records the system calls made on the socket, which is the only
  effect \<^verbatim>\<open>kick_tx\<close> and \<^verbatim>\<open>kick_rx\<close> have.
\<close>

record xsk =
  x_fd :: int
  x_umem :: memory
  x_umem_ptr :: nat
  x_umem_len :: nat
  x_frame_size :: u32
  x_fill :: "u64 ring"
  x_comp :: "u64 ring"
  x_rx :: "xdp_desc ring"
  x_tx :: "xdp_desc ring"
  x_tx_free :: "u64 list"
  x_tx_pending :: bool
  x_huge :: huge_page
  x_bind_label :: string
  x_log :: "os_event list"

section \<open>The data path\<close>

text \<open>\<^verbatim>\<open>frame(addr, len)\<close> and writing through \<^verbatim>\<open>frame_mut(addr)\<close>.\<close>

definition frame :: "xsk \<Rightarrow> u64 \<Rightarrow> u32 \<Rightarrow> bytes" where
  "frame s addr len = read_mem (x_umem s) (unat addr) (unat len)"

definition frame_mut :: "xsk \<Rightarrow> u64 \<Rightarrow> bytes" where
  "frame_mut s addr = read_mem (x_umem s) (unat addr) (unat (x_frame_size s))"

definition set_frame :: "xsk \<Rightarrow> u64 \<Rightarrow> bytes \<Rightarrow> xsk" where
  "set_frame s addr bs = s\<lparr>x_umem := write_mem (x_umem s) (unat addr) bs\<rparr>"

text \<open>
  \<^verbatim>\<open>fill_frames\<close>: the subtraction can underflow only if the ring holds more than its size, and the
  remainder panics only for an empty UMEM.
\<close>

primrec fill_loop :: "nat \<Rightarrow> xsk \<Rightarrow> xsk" where
  "fill_loop 0 s = s"
| "fill_loop (Suc n) s =
     (let addr = (ucast (r_cached (x_fill s)) * ucast (x_frame_size s)) mod of_nat (x_umem_len s)
      in fill_loop n (s\<lparr>x_fill := ring_put addr (x_fill s)\<rparr>))"

definition fill_frames :: "profile \<Rightarrow> u32 \<Rightarrow> xsk \<Rightarrow> xsk outcome" where
  "fill_frames p n s =
     (let cns = r_consumer (x_fill s);
          used = r_cached (x_fill s) - cns
      in if p = Debug \<and> r_size (x_fill s) < used then Panic Arithmetic_Overflow
         else let free = r_size (x_fill s) - used;
                  n = min n free
              in if 0 < n then
                   if (of_nat (x_umem_len s) :: u64) = 0 then Panic Remainder_By_Zero
                   else let s' = fill_loop (unat n) s
                        in Ok (s'\<lparr>x_fill := ring_publish (x_fill s')\<rparr>)
                 else Ok s)"

definition frame_base :: "xsk \<Rightarrow> u64 \<Rightarrow> u64" where
  "frame_base s addr = addr AND NOT (ucast (x_frame_size s) - 1)"

definition recycle :: "u64 \<Rightarrow> xsk \<Rightarrow> xsk" where
  "recycle addr s = s\<lparr>x_fill := ring_produce (frame_base s addr) (x_fill s)\<rparr>"

definition rx_peek :: "xsk \<Rightarrow> (u64 \<times> u32) option \<times> xsk" where
  "rx_peek s =
     (case ring_consume (x_rx s) of
        None \<Rightarrow> (None, s)
      | Some (d, r') \<Rightarrow> (Some (d_addr d, d_len d), s\<lparr>x_rx := r'\<rparr>))"

text \<open>
  \<^verbatim>\<open>reclaim_comp\<close>: the producer index is read once, then every slot up to it is pushed on the pool.
\<close>

function reclaim_loop :: "xsk \<Rightarrow> u32 \<Rightarrow> u32 \<Rightarrow> u64 list \<Rightarrow> u64 list" where
  "reclaim_loop s prd cns pool =
     (if cns = prd then pool
      else reclaim_loop s prd (cns + 1)
             (pool @ [frame_base s (r_desc (x_comp s) (unat (cns AND r_mask (x_comp s))))]))"
  by pat_completeness auto
termination
proof (relation "measure (\<lambda>(s, prd, cns, pool). unat (prd - cns))", goal_cases)
  case 1
  then show ?case by simp
next
  case (2 s prd cns pool)
  then have "prd - cns \<noteq> 0" by simp
  then have "unat (prd - cns - 1) < unat (prd - cns)"
    by (simp add: unat_minus_one unat_gt_0)
  then show ?case by (simp add: algebra_simps)
qed

declare reclaim_loop.simps [simp del]

definition reclaim_comp :: "xsk \<Rightarrow> xsk" where
  "reclaim_comp s =
     (let prd = r_producer (x_comp s);
          cns = r_consumer (x_comp s)
      in s\<lparr>x_tx_free := reclaim_loop s prd cns (x_tx_free s),
           x_comp := (x_comp s)\<lparr>r_consumer := prd\<rparr>\<rparr>)"

definition tx_alloc :: "xsk \<Rightarrow> u64 option \<times> xsk" where
  "tx_alloc s =
     (let s' = (if x_tx_free s = [] then reclaim_comp s else s)
      in if x_tx_free s' = [] then (None, s')
         else (Some (last (x_tx_free s')), s'\<lparr>x_tx_free := butlast (x_tx_free s')\<rparr>))"

definition tx_submit :: "u64 \<Rightarrow> u32 \<Rightarrow> xsk \<Rightarrow> xsk" where
  "tx_submit addr len s =
     s\<lparr>x_tx := ring_produce \<lparr>d_addr = addr, d_len = len, d_options = 0\<rparr> (x_tx s),
       x_tx_pending := True\<rparr>"

definition kick_tx :: "xsk \<Rightarrow> xsk" where
  "kick_tx s =
     (if \<not> x_tx_pending s then s
      else let s' = s\<lparr>x_tx_pending := False\<rparr>
           in if needs_wakeup (x_tx s') then s'\<lparr>x_log := x_log s' @ [Sendto (x_fd s')]\<rparr> else s')"

definition kick_rx :: "xsk \<Rightarrow> xsk" where
  "kick_rx s =
     (if needs_wakeup (x_fill s) then s\<lparr>x_log := x_log s @ [Recvfrom (x_fd s)]\<rparr> else s)"

text \<open>
  \<^verbatim>\<open>Drop for Xsk\<close>: unmap the UMEM, close the descriptor, then the rings drop in field order and
  unmap themselves.
\<close>

definition ring_drop :: "'d ring \<Rightarrow> os_event list" where
  "ring_drop r = (if r_map r \<noteq> 0 then [Unmapped (r_map r) (r_map_len r)] else [])"

definition xsk_drop :: "xsk \<Rightarrow> os_event list" where
  "xsk_drop s =
     (if x_umem_ptr s \<noteq> 0 then [Unmapped (x_umem_ptr s) (x_umem_len s)] else [])
     @ [Closed (x_fd s)]
     @ ring_drop (x_fill s) @ ring_drop (x_comp s) @ ring_drop (x_rx s) @ ring_drop (x_tx s)"

section \<open>Construction\<close>

text \<open>
  The options \<^verbatim>\<open>Xsk::new\<close> sets, with their values: address, length and chunk size of the UMEM
  (\<^verbatim>\<open>struct xdp_umem_reg\<close>, whose other fields are zero), and the number of descriptors of each ring.
\<close>

datatype xdp_option =
  Umem_Reg nat nat u32 | Umem_Fill_Ring u32 | Umem_Completion_Ring u32 | Rx_Ring_Opt u32 | Tx_Ring_Opt u32

datatype ring_name = Fill_Ring | Comp_Ring | Rx_Ring | Tx_Ring

text \<open>
  What the system answers to the calls of \<^verbatim>\<open>Xsk::new\<close>: an errno on the left, or the value.
  \<open>os_offsets\<close> is the \<^verbatim>\<open>desc\<close> offset \<^verbatim>\<open>XDP_MMAP_OFFSETS\<close> reports for each ring;
  \<open>os_ring_mem\<close> is the producer, consumer and flags word found in a freshly mapped ring;
  \<open>os_memlock\<close> is the \<^verbatim>\<open>RLIMIT_MEMLOCK\<close> limit, \<^const>\<open>None\<close> if it cannot be read or is unlimited.
\<close>

record os_xsk =
  os_page_size :: nat
  os_socket :: "int + int"
  os_mmap :: "nat option \<Rightarrow> nat \<Rightarrow> int + nat"
  os_setsockopt :: "xdp_option \<Rightarrow> int option"
  os_memlock :: "nat option"
  os_offsets :: "int + (ring_name \<Rightarrow> nat)"
  os_mmap_ring :: "ring_name \<Rightarrow> nat \<Rightarrow> int + nat"
  os_ring_mem :: "ring_name \<Rightarrow> u32 \<times> u32 \<times> u32"
  os_bind :: "u16 \<Rightarrow> int option"

definition ENOBUFS :: int where "ENOBUFS = 105"

definition umem_reg_error :: "os_xsk \<Rightarrow> int \<Rightarrow> nat \<Rightarrow> io_error" where
  "umem_reg_error os e umem_len =
     (if e \<noteq> ENOBUFS then Os_Error e
      else case os_memlock os of
             Some lim \<Rightarrow> Custom Other (Register_Umem (umem_len div 1024) (lim div 1024) e)
           | None \<Rightarrow> Os_Error e)"

definition set_xdp_option :: "os_xsk \<Rightarrow> xdp_option \<Rightarrow> unit outcome" where
  "set_xdp_option os opt =
     (case os_setsockopt os opt of None \<Rightarrow> Ok () | Some e \<Rightarrow> Err (Os_Error e))"

definition register_umem :: "os_xsk \<Rightarrow> nat \<Rightarrow> nat \<Rightarrow> u32 \<Rightarrow> unit outcome" where
  "register_umem os umem umem_len frame_size =
     bind_outcome
       (case os_setsockopt os (Umem_Reg umem umem_len frame_size) of
          None \<Rightarrow> Ok () | Some e \<Rightarrow> Err (umem_reg_error os e umem_len))
       (\<lambda>_. bind_outcome (set_xdp_option os (Umem_Fill_Ring FILL_SIZE))
       (\<lambda>_. bind_outcome (set_xdp_option os (Umem_Completion_Ring TX_SIZE))
       (\<lambda>_. bind_outcome (set_xdp_option os (Rx_Ring_Opt RX_SIZE))
       (\<lambda>_. set_xdp_option os (Tx_Ring_Opt TX_SIZE)))))"

text \<open>\<^verbatim>\<open>Ring::map\<close>, with the log of the mapping it acquires.\<close>

definition ring_map ::
  "os_xsk \<Rightarrow> ring_name \<Rightarrow> nat \<Rightarrow> u32 \<Rightarrow> nat \<Rightarrow> 'd \<Rightarrow> 'd ring outcome \<times> os_event list" where
  "ring_map os name desc_off sz elem zero =
     (let map_len = desc_off + unat sz * elem
      in case os_mmap_ring os name map_len of
           Inl e \<Rightarrow> (Err (Os_Error e), [])
         | Inr base \<Rightarrow>
             (case os_ring_mem os name of
                (prd, cns, flags) \<Rightarrow>
                  (Ok \<lparr>r_producer = prd, r_consumer = cns, r_flags = flags, r_desc = (\<lambda>_. zero),
                       r_mask = sz - 1, r_size = sz, r_map = base, r_map_len = map_len, r_cached = 0\<rparr>,
                   [Mapped base map_len])))"

definition zero_desc :: xdp_desc where
  "zero_desc = \<lparr>d_addr = 0, d_len = 0, d_options = 0\<rparr>"

text \<open>
  The four mappings of \<^verbatim>\<open>Xsk::new\<close>.  When one fails, the rings mapped before it go out of scope
  and unmap themselves, the last one first.
\<close>

definition map_rings ::
  "os_xsk \<Rightarrow> (ring_name \<Rightarrow> nat) \<Rightarrow>
     (u64 ring \<times> u64 ring \<times> xdp_desc ring \<times> xdp_desc ring) outcome \<times> os_event list" where
  "map_rings os off =
     (case ring_map os Fill_Ring (off Fill_Ring) FILL_SIZE 8 (0::u64) of
        (Err e, l) \<Rightarrow> (Err e, l) | (Panic q, l) \<Rightarrow> (Panic q, l)
      | (Ok fill, l1) \<Rightarrow>
     (case ring_map os Comp_Ring (off Comp_Ring) TX_SIZE 8 (0::u64) of
        (Err e, l) \<Rightarrow> (Err e, l1 @ l @ ring_drop fill) | (Panic q, l) \<Rightarrow> (Panic q, l1 @ l)
      | (Ok cmp, l2) \<Rightarrow>
     (case ring_map os Rx_Ring (off Rx_Ring) RX_SIZE 16 zero_desc of
        (Err e, l) \<Rightarrow> (Err e, l1 @ l2 @ l @ ring_drop cmp @ ring_drop fill)
      | (Panic q, l) \<Rightarrow> (Panic q, l1 @ l2 @ l)
      | (Ok rx, l3) \<Rightarrow>
     (case ring_map os Tx_Ring (off Tx_Ring) TX_SIZE 16 zero_desc of
        (Err e, l) \<Rightarrow> (Err e, l1 @ l2 @ l3 @ l @ ring_drop rx @ ring_drop cmp @ ring_drop fill)
      | (Panic q, l) \<Rightarrow> (Panic q, l1 @ l2 @ l3 @ l)
      | (Ok tx, l4) \<Rightarrow> (Ok (fill, cmp, rx, tx), l1 @ l2 @ l3 @ l4)))))"

text \<open>The transmit pool: the upper frames, lowest address pushed first.\<close>

definition tx_pool :: "u32 \<Rightarrow> u64 list" where
  "tx_pool frame_size =
     map (\<lambda>i. of_nat i * ucast frame_size) [unat FILL_SIZE..<unat FRAME_COUNT]"

text \<open>The bind attempts in order; the last error is reported, and the socket is dropped with it.\<close>

primrec bind_attempts ::
  "os_xsk \<Rightarrow> u32 \<Rightarrow> u32 \<Rightarrow> (u16 \<times> string) list \<Rightarrow> io_error \<Rightarrow> xsk \<Rightarrow> xsk outcome \<times> os_event list"
where
  "bind_attempts os ifindex queue_id [] last_err s = (Err last_err, xsk_drop s)"
| "bind_attempts os ifindex queue_id (a # as) last_err s =
     (let flags = fst a OR XDP_USE_NEED_WAKEUP
      in case os_bind os flags of
           None \<Rightarrow> (Ok (s\<lparr>x_bind_label := snd a\<rparr>), [Bound (x_fd s) flags ifindex queue_id])
         | Some e \<Rightarrow> bind_attempts os ifindex queue_id as (Os_Error e) s)"

definition xsk_init ::
  "int \<Rightarrow> nat \<Rightarrow> u32 \<Rightarrow> huge_page \<Rightarrow> u64 ring \<Rightarrow> u64 ring \<Rightarrow> xdp_desc ring \<Rightarrow> xdp_desc ring \<Rightarrow> xsk" where
  "xsk_init fd umem frame_size huge fill cmp rx tx =
     \<lparr>x_fd = fd, x_umem = (\<lambda>_. 0), x_umem_ptr = umem,
      x_umem_len = unat frame_size * unat FRAME_COUNT,
      x_frame_size = frame_size, x_fill = fill, x_comp = cmp, x_rx = rx, x_tx = tx,
      x_tx_free = tx_pool frame_size, x_tx_pending = False, x_huge = huge,
      x_bind_label = [], x_log = []\<rparr>"

text \<open>The bootstrap of the FILL ring and the bind.\<close>

definition xsk_build ::
  "profile \<Rightarrow> os_xsk \<Rightarrow> u32 \<Rightarrow> u32 \<Rightarrow> xdp_mode \<Rightarrow> xsk \<Rightarrow> xsk outcome \<times> os_event list" where
  "xsk_build p os ifindex queue_id mode s0 =
     (case fill_frames p FILL_SIZE s0 of
        Ok s1 \<Rightarrow> bind_attempts os ifindex queue_id (attempts mode) (Custom InvalidInput No_Message) s1
      | Err e \<Rightarrow> (Err e, xsk_drop s0)
      | Panic q \<Rightarrow> (Panic q, xsk_drop s0))"

definition xsk_new ::
  "profile \<Rightarrow> os_xsk \<Rightarrow> u32 \<Rightarrow> u32 \<Rightarrow> nat \<Rightarrow> huge_page \<Rightarrow> xdp_mode \<Rightarrow> xsk outcome \<times> os_event list"
where
  "xsk_new p os ifindex queue_id mtu hugepage mode =
     (case frame_size_for p mtu (os_page_size os) of
        Err e \<Rightarrow> (Err e, []) | Panic q \<Rightarrow> (Panic q, [])
      | Ok frame_size \<Rightarrow>
     (case os_socket os of
        Inl e \<Rightarrow> (Err (Os_Error e), [])
      | Inr fd \<Rightarrow>
     let umem_len = unat frame_size * unat FRAME_COUNT in
     (case map_umem (os_mmap os) umem_len hugepage of
        (Err e, l) \<Rightarrow> (Err e, Opened fd # l @ [Closed fd])
      | (Panic q, l) \<Rightarrow> (Panic q, Opened fd # l)
      | (Ok (umem, huge), l) \<Rightarrow>
     let log = Opened fd # l in
     (case register_umem os umem umem_len frame_size of
        Err e \<Rightarrow> (Err e, log) | Panic q \<Rightarrow> (Panic q, log)
      | Ok _ \<Rightarrow>
     (case os_offsets os of
        Inl e \<Rightarrow> (Err (Os_Error e), log @ [Closed fd])
      | Inr off \<Rightarrow>
     (case map_rings os off of
        (Err e, l) \<Rightarrow> (Err e, log @ l) | (Panic q, l) \<Rightarrow> (Panic q, log @ l)
      | (Ok (fill, cmp, rx, tx), l) \<Rightarrow>
     (case xsk_build p os ifindex queue_id mode
             (xsk_init fd umem frame_size huge fill cmp rx tx) of
        (r, l') \<Rightarrow> (r, log @ l @ l'))))))))"

end
