(* ===== verification/Xsk_Ownership.thy ===== *)
theory Xsk_Ownership
  imports Xsk
begin

text \<open>
  Who owns which UMEM frame.  The lower 2048 frames circulate FILL ring, kernel, RX ring, user space
  and back; the upper 2048 circulate free pool, user space, TX ring, kernel, COMPLETION ring and
  back.  The invariant says that each frame is in exactly one of these places.  It is stated over
  multisets, kept by every operation of \<^verbatim>\<open>Xsk\<close> and by every step the AF\_XDP contract allows the
  kernel, and it is what makes the unchecked ring writes of \<^verbatim>\<open>recycle\<close> and \<^verbatim>\<open>tx_submit\<close> safe.
\<close>

section \<open>Frames\<close>

definition frame_addr :: "u32 \<Rightarrow> nat \<Rightarrow> u64" where
  "frame_addr fs i = of_nat i * ucast fs"

definition rx_frames :: "u32 \<Rightarrow> u64 multiset" where
  "rx_frames fs = mset (map (frame_addr fs) [0..<unat FILL_SIZE])"

definition tx_frames :: "u32 \<Rightarrow> u64 multiset" where
  "tx_frames fs = mset (map (frame_addr fs) [unat FILL_SIZE..<unat FRAME_COUNT])"

text \<open>The UMEM geometry \<^verbatim>\<open>Xsk::new\<close> sets up: a power-of-two frame, 4096 of them.\<close>

definition umem_ok :: "xsk \<Rightarrow> bool" where
  "umem_ok s \<longleftrightarrow>
     (\<exists>k\<ge>11. k < 32 \<and> x_frame_size s = 2 ^ k)
     \<and> x_umem_len s = unat (x_frame_size s) * unat FRAME_COUNT"

text \<open>A receive descriptor lies inside the frame its address is in.\<close>

definition desc_fits :: "xsk \<Rightarrow> xdp_desc \<Rightarrow> bool" where
  "desc_fits s d \<longleftrightarrow>
     unat (d_addr d) + unat (d_len d) \<le> unat (frame_base s (d_addr d)) + unat (x_frame_size s)"

definition rings_ok :: "xsk \<Rightarrow> bool" where
  "rings_ok s \<longleftrightarrow>
     ring_ok_user (x_fill s) \<and> r_size (x_fill s) = FILL_SIZE
     \<and> ring_ok (x_comp s) \<and> r_size (x_comp s) = TX_SIZE
     \<and> ring_ok (x_rx s) \<and> r_size (x_rx s) = RX_SIZE
     \<and> ring_ok_user (x_tx s) \<and> r_size (x_tx s) = TX_SIZE"

text \<open>
  \<open>kr\<close> and \<open>kt\<close> are the receive and transmit frames the kernel has taken off FILL and TX and not
  yet returned; \<open>ur\<close> and \<open>ut\<close> are those user space holds between taking one from RX or the pool and
  handing it back.
\<close>

definition rx_owners :: "xsk \<Rightarrow> u64 multiset \<Rightarrow> u64 multiset \<Rightarrow> u64 multiset" where
  "rx_owners s kr ur =
     mset (ring_items (x_fill s)) + kr
     + mset (map (\<lambda>d. frame_base s (d_addr d)) (ring_items (x_rx s))) + ur"

definition tx_owners :: "xsk \<Rightarrow> u64 multiset \<Rightarrow> u64 multiset \<Rightarrow> u64 multiset" where
  "tx_owners s kt ut =
     mset (x_tx_free s) + mset (map d_addr (ring_items (x_tx s))) + kt
     + mset (map (frame_base s) (ring_items (x_comp s))) + ut"

definition owns ::
  "xsk \<Rightarrow> u64 multiset \<Rightarrow> u64 multiset \<Rightarrow> u64 multiset \<Rightarrow> u64 multiset \<Rightarrow> bool" where
  "owns s kr kt ur ut \<longleftrightarrow>
     umem_ok s \<and> rings_ok s
     \<and> rx_owners s kr ur = rx_frames (x_frame_size s)
     \<and> tx_owners s kt ut = tx_frames (x_frame_size s)
     \<and> list_all (desc_fits s) (ring_items (x_rx s))"

section \<open>The kernel\<close>

text \<open>
  The AF\_XDP contract for the other side of the rings, for a UMEM with aligned chunks: the
  kernel consumes FILL and TX in order, may write only to receive frames it holds, returns a frame it
  holds through RX (with an address and length inside that frame) or COMPLETION (with the address
  that was submitted) when that ring has room, and sets the wake-up flags as it likes.  This is an
  assumption about code outside the repository, written as the largest relation the contract allows.
\<close>

inductive kernel_step ::
  "xsk \<times> u64 multiset \<times> u64 multiset \<Rightarrow> xsk \<times> u64 multiset \<times> u64 multiset \<Rightarrow> bool" where
  fill_take:
    "ring_consume (x_fill s) = Some (a, r) \<Longrightarrow>
     kernel_step (s, kr, kt) (s\<lparr>x_fill := r\<rparr>, add_mset (frame_base s a) kr, kt)"
| dma:
    "b \<in># kr \<Longrightarrow> (\<And>i. i < unat b \<or> unat b + unat (x_frame_size s) \<le> i \<Longrightarrow> m i = x_umem s i) \<Longrightarrow>
     kernel_step (s, kr, kt) (s\<lparr>x_umem := m\<rparr>, kr, kt)"
| rx_deliver:
    "frame_base s (d_addr d) \<in># kr \<Longrightarrow> desc_fits s d \<Longrightarrow> ring_count (x_rx s) < unat (r_size (x_rx s)) \<Longrightarrow>
     kernel_step (s, kr, kt)
       (s\<lparr>x_rx := peer_produce d (x_rx s)\<rparr>, kr - {#frame_base s (d_addr d)#}, kt)"
| tx_take:
    "ring_consume (x_tx s) = Some (d, r) \<Longrightarrow>
     kernel_step (s, kr, kt) (s\<lparr>x_tx := r\<rparr>, kr, add_mset (d_addr d) kt)"
| tx_complete:
    "a \<in># kt \<Longrightarrow> ring_count (x_comp s) < unat (r_size (x_comp s)) \<Longrightarrow>
     kernel_step (s, kr, kt) (s\<lparr>x_comp := peer_produce a (x_comp s)\<rparr>, kr, kt - {#a#})"
| set_fill_flags:
    "kernel_step (s, kr, kt) (s\<lparr>x_fill := (x_fill s)\<lparr>r_flags := f\<rparr>\<rparr>, kr, kt)"
| set_tx_flags:
    "kernel_step (s, kr, kt) (s\<lparr>x_tx := (x_tx s)\<lparr>r_flags := f\<rparr>\<rparr>, kr, kt)"

section \<open>Frame addresses\<close>

lemma ucast_frame_size:
  fixes fs :: u32
  assumes "fs = 2 ^ k" "k < 32"
  shows "unat (ucast fs :: u64) = 2 ^ k" and "(ucast fs :: u64) = 2 ^ k"
proof -
  have "(2::nat) ^ k < 2 ^ 64"
    using assms(2) by (intro power_strict_increasing) simp_all
  moreover have "unat fs = 2 ^ k"
    using assms by (simp add: unat_pow2)
  ultimately show "unat (ucast fs :: u64) = 2 ^ k"
    using assms(2) by (simp add: unsigned_ucast_eq)
  then show "(ucast fs :: u64) = 2 ^ k"
    using assms(2) by (intro word_eq_unatI) (simp add: unat_pow2)
qed

lemma unat_frame_addr:
  assumes "fs = 2 ^ k" "k < 32" "i \<le> 4096"
  shows "unat (frame_addr fs i) = i * 2 ^ k"
proof -
  have "i * 2 ^ k \<le> 4096 * 2 ^ 31"
    using assms by (intro mult_le_mono) (simp_all add: power_increasing del: power_numeral)
  then show ?thesis
    using assms(3) unat_pow2 [where 'a = 64, of k] assms(2)
    by (simp add: frame_addr_def unat_word_ariths ucast_frame_size(2) [OF assms(1,2)] unat_of_nat)
qed

lemma unat_frame_base:
  assumes "x_frame_size s = 2 ^ k" "k < 32"
  shows "unat (frame_base s a) = unat a div 2 ^ k * 2 ^ k"
  using assms by (simp add: frame_base_def ucast_frame_size unat_and_not_pow2)

lemma frame_base_frame_addr:
  assumes "x_frame_size s = 2 ^ k" "k < 32" "i \<le> 4096"
  shows "frame_base s (frame_addr (2 ^ k) i) = frame_addr (2 ^ k) i"
  using assms by (intro word_eq_unatI) (simp add: unat_frame_base unat_frame_addr)

lemma frame_addr_inj:
  assumes "frame_addr (2 ^ k) i = frame_addr (2 ^ k) j" "k < 32" "i < 4096" "j < 4096"
  shows "i = j"
proof -
  have "i * 2 ^ k = j * 2 ^ k"
    using assms unat_frame_addr [OF refl, of k] by (metis less_imp_le)
  then show ?thesis by simp
qed

lemma frame_count_simps [simp]:
  "unat FILL_SIZE = 2048" "unat RX_SIZE = 2048" "unat TX_SIZE = 2048" "unat FRAME_COUNT = 4096"
  by (simp_all add: umem_size_defs)

declare upt_rec_numeral [simp del]

lemma frames_distinct:
  assumes "umem_ok s"
  shows "distinct (map (frame_addr (x_frame_size s)) [0..<4096])"
  using assms by (auto simp: umem_ok_def distinct_map inj_on_def dest: frame_addr_inj)

lemma frames_partition:
  "rx_frames fs + tx_frames fs = mset (map (frame_addr fs) [0..<4096])"
proof -
  have "[0..<4096] = [0..<2048] @ [2048..<(4096::nat)]"
    using upt_add_eq_append [of 0 2048 2048] by simp
  then show ?thesis by (simp add: rx_frames_def tx_frames_def)
qed

text \<open>Membership in a place is membership in the frames of its half; no frame is in two places.\<close>

lemma rx_framesE:
  assumes "a \<in># rx_frames fs"
  obtains i where "i < 2048" "a = frame_addr fs i"
  using assms by (auto simp: rx_frames_def)

lemma tx_framesE:
  assumes "a \<in># tx_frames fs"
  obtains i where "2048 \<le> i" "i < 4096" "a = frame_addr fs i"
  using assms by (auto simp: tx_frames_def)

lemma count_frames_le_1:
  assumes "umem_ok s"
  shows "count (rx_frames (x_frame_size s) + tx_frames (x_frame_size s)) a \<le> 1"
  unfolding frames_partition by (rule count_distinct_le_1 [OF frames_distinct [OF assms]])

lemma frame_base_owned:
  assumes "umem_ok s" "a \<in># rx_frames (x_frame_size s) + tx_frames (x_frame_size s)"
  shows "frame_base s a = a"
  using assms
  by (auto simp: umem_ok_def frame_base_frame_addr elim!: rx_framesE tx_framesE)

lemma size_frames [simp]: "size (rx_frames fs) = 2048" "size (tx_frames fs) = 2048"
  by (simp_all add: rx_frames_def tx_frames_def)

section \<open>The operations of user space keep the invariant\<close>

lemmas owns_defs = owns_def rx_owners_def tx_owners_def

lemma frame_base_update [simp]:
  "frame_base (s\<lparr>x_umem := m\<rparr>) = frame_base s"
  "frame_base (s\<lparr>x_fill := f\<rparr>) = frame_base s"
  "frame_base (s\<lparr>x_comp := c\<rparr>) = frame_base s"
  "frame_base (s\<lparr>x_rx := r\<rparr>) = frame_base s"
  "frame_base (s\<lparr>x_tx := t\<rparr>) = frame_base s"
  "frame_base (s\<lparr>x_tx_free := fr\<rparr>) = frame_base s"
  "frame_base (s\<lparr>x_tx_pending := p\<rparr>) = frame_base s"
  "frame_base (s\<lparr>x_bind_label := bl\<rparr>) = frame_base s"
  "frame_base (s\<lparr>x_log := l\<rparr>) = frame_base s"
  by (simp_all add: frame_base_def fun_eq_iff)

lemma desc_fits_update [simp]:
  "desc_fits (s\<lparr>x_umem := m\<rparr>) = desc_fits s"
  "desc_fits (s\<lparr>x_fill := f\<rparr>) = desc_fits s"
  "desc_fits (s\<lparr>x_comp := c\<rparr>) = desc_fits s"
  "desc_fits (s\<lparr>x_rx := r\<rparr>) = desc_fits s"
  "desc_fits (s\<lparr>x_tx := t\<rparr>) = desc_fits s"
  "desc_fits (s\<lparr>x_tx_free := fr\<rparr>) = desc_fits s"
  "desc_fits (s\<lparr>x_tx_pending := p\<rparr>) = desc_fits s"
  "desc_fits (s\<lparr>x_bind_label := bl\<rparr>) = desc_fits s"
  "desc_fits (s\<lparr>x_log := l\<rparr>) = desc_fits s"
  by (simp_all add: desc_fits_def fun_eq_iff)

text \<open>A ring never holds more than the frames of its half that are not elsewhere.\<close>

lemma owns_counts:
  assumes "owns s kr kt ur ut"
  shows "ring_count (x_fill s) + size kr + ring_count (x_rx s) + size ur = 2048"
    and "length (x_tx_free s) + ring_count (x_tx s) + size kt + ring_count (x_comp s) + size ut = 2048"
proof -
  have "size (rx_owners s kr ur) = 2048" "size (tx_owners s kt ut) = 2048"
    using assms by (simp_all add: owns_def)
  then show "ring_count (x_fill s) + size kr + ring_count (x_rx s) + size ur = 2048"
    "length (x_tx_free s) + ring_count (x_tx s) + size kt + ring_count (x_comp s) + size ut = 2048"
    by (simp_all add: rx_owners_def tx_owners_def)
qed

lemma owns_rx_peek:
  assumes "owns s kr kt ur ut" "rx_peek s = (Some (a, l), s')"
  shows "owns s' kr kt (add_mset (frame_base s a) ur) ut"
    and "unat a + unat l \<le> unat (frame_base s a) + unat (x_frame_size s)"
proof -
  obtain d r where d: "ring_consume (x_rx s) = Some (d, r)" "a = d_addr d" "l = d_len d"
    and s': "s' = s\<lparr>x_rx := r\<rparr>"
    using assms(2) by (auto simp: rx_peek_def split: option.splits)
  have items: "ring_items (x_rx s) = d # ring_items r"
    using d(1) by (rule ring_consume_Some(1))
  then show "unat a + unat l \<le> unat (frame_base s a) + unat (x_frame_size s)"
    using assms(1) d by (simp add: owns_def desc_fits_def)
  have "ring_ok r"
    using assms(1) d(1) by (auto simp: owns_def rings_ok_def intro: ring_ok_consume)
  then show "owns s' kr kt (add_mset (frame_base s a) ur) ut"
    using assms(1) d items ring_consume_fields(1) [OF d(1)]
    by (simp add: owns_defs s' rings_ok_def umem_ok_def)
qed

lemma owns_recycle:
  assumes "owns s kr kt ur ut" "frame_base s a \<in># ur"
  shows "owns (recycle a s) kr kt (ur - {#frame_base s a#}) ut"
    and "ring_items (x_fill (recycle a s)) = ring_items (x_fill s) @ [frame_base s a]"
proof -
  have "0 < size ur"
    using assms(2) by (auto simp: nonempty_has_size [symmetric])
  then have "ring_count (x_fill s) < 2048"
    using owns_counts(1) [OF assms(1)] by linarith
  then have fill: "ring_ok_user (x_fill s)" "ring_count (x_fill s) < unat (r_size (x_fill s))"
    using assms(1) by (simp_all add: owns_def rings_ok_def)
  show items: "ring_items (x_fill (recycle a s)) = ring_items (x_fill s) @ [frame_base s a]"
    using ring_items_produce [OF fill] by (simp add: recycle_def)
  obtain ur' where "ur = add_mset (frame_base s a) ur'"
    using assms(2) by (auto dest: multi_member_split)
  then show "owns (recycle a s) kr kt (ur - {#frame_base s a#}) ut"
    using assms(1) items ring_ok_user_produce [OF fill]
    by (simp add: owns_defs recycle_def rings_ok_def umem_ok_def)
qed

lemma owns_tx_submit:
  assumes "owns s kr kt ur ut" "a \<in># ut"
  shows "owns (tx_submit a l s) kr kt ur (ut - {#a#})"
    and "ring_items (x_tx (tx_submit a l s)) =
           ring_items (x_tx s) @ [\<lparr>d_addr = a, d_len = l, d_options = 0\<rparr>]"
proof -
  have "0 < size ut"
    using assms(2) by (auto simp: nonempty_has_size [symmetric])
  then have "ring_count (x_tx s) < 2048"
    using owns_counts(2) [OF assms(1)] by linarith
  then have tx: "ring_ok_user (x_tx s)" "ring_count (x_tx s) < unat (r_size (x_tx s))"
    using assms(1) by (simp_all add: owns_def rings_ok_def)
  show items: "ring_items (x_tx (tx_submit a l s)) =
      ring_items (x_tx s) @ [\<lparr>d_addr = a, d_len = l, d_options = 0\<rparr>]"
    using ring_items_produce [OF tx] by (simp add: tx_submit_def)
  obtain ut' where "ut = add_mset a ut'"
    using assms(2) by (auto dest: multi_member_split)
  then show "owns (tx_submit a l s) kr kt ur (ut - {#a#})"
    using assms(1) items ring_ok_user_produce [OF tx]
    by (simp add: owns_defs tx_submit_def rings_ok_def umem_ok_def)
qed

lemma reclaim_loop_items:
  assumes "r_desc r = r_desc (x_comp s)" "r_mask r = r_mask (x_comp s)"
  shows "reclaim_loop s (r_producer r) (r_consumer r) pool = pool @ map (frame_base s) (ring_items r)"
  using assms
proof (induction "ring_count r" arbitrary: r pool)
  case 0
  then have "r_consumer r = r_producer r" by (simp add: ring_count_def unat_eq_zero)
  then show ?case
    by (simp add: reclaim_loop.simps ring_items_def ring_count_def)
next
  case (Suc n)
  then have "ring_items r \<noteq> []" by (metis length_ring_items list.size(3) nat.distinct(1))
  then obtain d r' where c: "ring_consume r = Some (d, r')"
    using ring_consume_None [of r] by auto
  then have ne: "r_consumer r \<noteq> r_producer r"
    and d: "d = r_desc (x_comp s) (unat (r_consumer r AND r_mask (x_comp s)))"
    and r': "r' = r\<lparr>r_consumer := r_consumer r + 1\<rparr>"
    using Suc.prems by (auto simp: ring_consume_def split: if_splits)
  have "reclaim_loop s (r_producer r') (r_consumer r') (pool @ [frame_base s d]) =
      (pool @ [frame_base s d]) @ map (frame_base s) (ring_items r')"
    using ring_consume_Some(2) [OF c] Suc.hyps(2) Suc.prems by (intro Suc.hyps(1)) (simp_all add: r')
  then show ?case
    using ne d ring_consume_Some(1) [OF c]
    by (simp add: reclaim_loop.simps [of s "r_producer r" "r_consumer r"] r')
qed

lemma reclaim_comp_eq:
  "reclaim_comp s = s\<lparr>x_tx_free := x_tx_free s @ map (frame_base s) (ring_items (x_comp s)),
     x_comp := (x_comp s)\<lparr>r_consumer := r_producer (x_comp s)\<rparr>\<rparr>"
  using reclaim_loop_items [of "x_comp s" s] by (simp add: reclaim_comp_def Let_def)

lemma drained_ring:
  "ring_items (r\<lparr>r_consumer := r_producer r\<rparr>) = []"
  "ring_ok r \<Longrightarrow> ring_ok (r\<lparr>r_consumer := r_producer r\<rparr>)"
  by (simp_all add: ring_items_def ring_count_def ring_ok_def ring_geometry_def)

lemma owns_reclaim_comp:
  assumes "owns s kr kt ur ut"
  shows "owns (reclaim_comp s) kr kt ur ut"
  using assms by (simp add: reclaim_comp_eq owns_defs rings_ok_def umem_ok_def drained_ring ac_simps)

lemma owns_tx_alloc_Some:
  assumes "owns s kr kt ur ut" "tx_alloc s = (Some a, s')"
  shows "owns s' kr kt ur (add_mset a ut)"
proof -
  define t where "t = (if x_tx_free s = [] then reclaim_comp s else s)"
  have t: "owns t kr kt ur ut" using assms(1) by (simp add: t_def owns_reclaim_comp)
  have a: "x_tx_free t \<noteq> []" "a = last (x_tx_free t)" "s' = t\<lparr>x_tx_free := butlast (x_tx_free t)\<rparr>"
    using assms(2) by (auto simp: tx_alloc_def Let_def t_def [symmetric] split: if_splits)
  have "mset (x_tx_free t) = add_mset a (mset (butlast (x_tx_free t)))"
    using a(1,2) by (metis append_butlast_last_id mset.simps(1) mset.simps(2) mset_append
        union_mset_add_mset_right add.right_neutral)
  with t show ?thesis
    by (simp add: a(3) owns_defs rings_ok_def umem_ok_def)
qed

text \<open>The pool is empty only when every transmit frame is queued, in the kernel, or held.\<close>

lemma owns_tx_alloc_None:
  assumes "owns s kr kt ur ut" "tx_alloc s = (None, s')"
  shows "owns s' kr kt ur ut" and "ring_count (x_tx s) + size kt + size ut = 2048"
    and "ring_count (x_comp s) = 0"
proof -
  have e: "x_tx_free s = []" "s' = reclaim_comp s" "x_tx_free (reclaim_comp s) = []"
    using assms(2) by (auto simp: tx_alloc_def Let_def split: if_splits)
  then show "owns s' kr kt ur ut" using assms(1) by (simp add: owns_reclaim_comp)
  from e have "ring_items (x_comp s) = []" by (simp add: reclaim_comp_eq)
  then show c: "ring_count (x_comp s) = 0" by (metis length_ring_items list.size(3))
  then show "ring_count (x_tx s) + size kt + size ut = 2048"
    using owns_counts(2) [OF assms(1)] e(1) by simp
qed

lemma owns_kick_tx: "owns s kr kt ur ut \<Longrightarrow> owns (kick_tx s) kr kt ur ut"
  by (simp add: kick_tx_def Let_def owns_defs rings_ok_def umem_ok_def)

lemma owns_kick_rx: "owns s kr kt ur ut \<Longrightarrow> owns (kick_rx s) kr kt ur ut"
  by (simp add: kick_rx_def owns_defs rings_ok_def umem_ok_def)

lemma owns_set_frame: "owns s kr kt ur ut \<Longrightarrow> owns (set_frame s a bs) kr kt ur ut"
  by (simp add: set_frame_def owns_defs rings_ok_def umem_ok_def)

section \<open>The kernel keeps the invariant\<close>

lemma owned_aligned:
  assumes "owns s kr kt ur ut" "a \<in># rx_owners s kr ur + tx_owners s kt ut"
  shows "frame_base s a = a"
  using assms by (intro frame_base_owned) (simp_all add: owns_def)

inductive_cases kernel_stepE: "kernel_step (s, kr, kt) t"

lemma owns_fill_take:
  assumes "owns s kr kt ur ut" "ring_consume (x_fill s) = Some (a, r)"
  shows "owns (s\<lparr>x_fill := r\<rparr>) (add_mset (frame_base s a) kr) kt ur ut"
proof -
  have items: "ring_items (x_fill s) = a # ring_items r"
    using assms(2) by (rule ring_consume_Some(1))
  then have "frame_base s a = a"
    by (intro owned_aligned [OF assms(1)]) (simp add: rx_owners_def)
  moreover have "ring_ok_user r"
    using assms by (auto simp: owns_def rings_ok_def intro: ring_ok_user_consume)
  ultimately show ?thesis
    using assms(1) items ring_consume_fields(1) [OF assms(2)]
    by (simp add: owns_defs rings_ok_def umem_ok_def)
qed

lemma owns_rx_deliver:
  assumes "owns s kr kt ur ut" "frame_base s (d_addr d) \<in># kr" "desc_fits s d"
    "ring_count (x_rx s) < unat (r_size (x_rx s))"
  shows "owns (s\<lparr>x_rx := peer_produce d (x_rx s)\<rparr>) (kr - {#frame_base s (d_addr d)#}) kt ur ut"
proof -
  obtain k where k: "kr = add_mset (frame_base s (d_addr d)) k"
    using assms(2) by (auto dest: multi_member_split)
  have "ring_ok (x_rx s)" using assms(1) by (simp add: owns_def rings_ok_def)
  with assms(4) have "ring_ok (peer_produce d (x_rx s))"
    "ring_items (peer_produce d (x_rx s)) = ring_items (x_rx s) @ [d]"
    by (simp_all add: peer_ring.ok_put peer_ring.items_put)
  then show ?thesis
    using assms(1,3) by (simp add: owns_defs rings_ok_def umem_ok_def k)
qed

lemma owns_tx_take:
  assumes "owns s kr kt ur ut" "ring_consume (x_tx s) = Some (d, r)"
  shows "owns (s\<lparr>x_tx := r\<rparr>) kr (add_mset (d_addr d) kt) ur ut"
proof -
  have "ring_items (x_tx s) = d # ring_items r"
    using assms(2) by (rule ring_consume_Some(1))
  moreover have "ring_ok_user r"
    using assms by (auto simp: owns_def rings_ok_def intro: ring_ok_user_consume)
  ultimately show ?thesis
    using assms(1) ring_consume_fields(1) [OF assms(2)]
    by (simp add: owns_defs rings_ok_def umem_ok_def ac_simps)
qed

lemma owns_tx_complete:
  assumes "owns s kr kt ur ut" "a \<in># kt" "ring_count (x_comp s) < unat (r_size (x_comp s))"
  shows "owns (s\<lparr>x_comp := peer_produce a (x_comp s)\<rparr>) kr (kt - {#a#}) ur ut"
proof -
  obtain k where k: "kt = add_mset a k"
    using assms(2) by (auto dest: multi_member_split)
  have "frame_base s a = a"
    by (rule owned_aligned [OF assms(1)]) (simp add: tx_owners_def k)
  moreover have "ring_ok (x_comp s)" using assms(1) by (simp add: owns_def rings_ok_def)
  with assms(3) have "ring_ok (peer_produce a (x_comp s))"
    "ring_items (peer_produce a (x_comp s)) = ring_items (x_comp s) @ [a]"
    by (simp_all add: peer_ring.ok_put peer_ring.items_put)
  ultimately show ?thesis
    using assms(1) by (simp add: owns_defs rings_ok_def umem_ok_def k)
qed

lemma owns_kernel_step:
  assumes "kernel_step (s, kr, kt) (s', kr', kt')" "owns s kr kt ur ut"
  shows "owns s' kr' kt' ur ut"
  using assms(1)
proof (cases rule: kernel_step.cases)
  case (dma b m)
  then show ?thesis using assms(2) by (simp add: owns_defs rings_ok_def umem_ok_def)
next
  case (set_fill_flags f)
  then show ?thesis using assms(2) by (simp add: owns_defs rings_ok_def umem_ok_def)
next
  case (set_tx_flags f)
  then show ?thesis using assms(2) by (simp add: owns_defs rings_ok_def umem_ok_def)
qed (simp_all add: owns_fill_take owns_rx_deliver owns_tx_take owns_tx_complete assms(2))

section \<open>A fresh socket\<close>

text \<open>Publishing once after a batch is publishing after each slot.\<close>

lemma publish_fold_put:
  "ring_publish (fold ring_put xs r) = fold ring_produce xs (ring_publish r)"
proof (induction xs arbitrary: r)
  case Nil
  then show ?case by simp
next
  case (Cons x xs)
  have "ring_publish (ring_put x r) = ring_produce x (ring_publish r)"
    by (simp add: ring_produce_def ring_publish_def ring_put_def)
  with Cons show ?case by simp
qed

definition fill_addr :: "xsk \<Rightarrow> nat \<Rightarrow> u64" where
  "fill_addr s i =
     (ucast (r_cached (x_fill s) + of_nat i) * ucast (x_frame_size s)) mod of_nat (x_umem_len s)"

lemma fill_loop_eq:
  "fill_loop n s = s\<lparr>x_fill := fold ring_put (map (fill_addr s) [0..<n]) (x_fill s)\<rparr>"
proof (induction n arbitrary: s)
  case 0
  then show ?case by simp
next
  case (Suc n)
  let ?t = "s\<lparr>x_fill := ring_put (fill_addr s 0) (x_fill s)\<rparr>"
  have "fill_addr ?t i = fill_addr s (Suc i)" for i
    by (simp add: fill_addr_def ring_put_def algebra_simps)
  then have "map (fill_addr s) [0..<Suc n] = fill_addr s 0 # map (fill_addr ?t) [0..<n]"
    by (simp add: map_upt_Suc del: upt_Suc)
  moreover have "fill_loop (Suc n) s = fill_loop n ?t"
    by (simp add: fill_addr_def Let_def)
  ultimately show ?case by (simp add: Suc)
qed

text \<open>A ring the kernel has just mapped: zeroed indices.\<close>

definition ring_fresh :: "'d ring \<Rightarrow> u32 \<Rightarrow> bool" where
  "ring_fresh r n \<longleftrightarrow>
     r_producer r = 0 \<and> r_consumer r = 0 \<and> r_cached r = 0 \<and> r_size r = n \<and> r_mask r = n - 1"

lemma ring_fresh_ok:
  assumes "ring_fresh r (2 ^ k)" "k < 32"
  shows "ring_ok_user r" "ring_ok r" "ring_items r = []"
  using assms
  by (auto simp: ring_fresh_def ring_ok_user_def ring_ok_def ring_geometry_def ring_count_def
      ring_items_def)

lemma fill_addr_fresh:
  assumes "umem_ok s" "r_cached (x_fill s) = 0" "i < 2048"
  shows "fill_addr s i = frame_addr (x_frame_size s) i"
proof -
  obtain k where k: "k < 32" "x_frame_size s = 2 ^ k" "x_umem_len s = 2 ^ k * 4096"
    using assms(1) by (auto simp: umem_ok_def unat_pow2)
  have "(2::nat) ^ k * 4096 \<le> 2 ^ 31 * 4096"
    using k(1) by (intro mult_le_mono power_increasing) simp_all
  then have len: "unat (of_nat (2 ^ k * 4096) :: u64) = 2 ^ k * 4096"
    by (simp only: unat_of_nat) simp
  have "ucast (of_nat i :: u32) = (of_nat i :: u64)"
    using assms(3) by (intro word_eq_unatI) (simp add: unsigned_ucast_eq unat_of_nat take_bit_eq_mod)
  then have "fill_addr s i = frame_addr (x_frame_size s) i mod of_nat (2 ^ k * 4096)"
    by (simp add: fill_addr_def frame_addr_def assms(2) k(3))
  also have "\<dots> = frame_addr (x_frame_size s) i"
    using assms(3) unat_frame_addr [OF k(2,1), of i]
    by (intro word_eq_unatI) (simp only: unat_mod len, simp add: mult.commute)
  finally show ?thesis .
qed

lemma fill_frames_fresh:
  assumes "umem_ok s" "ring_fresh (x_fill s) FILL_SIZE"
  shows "\<exists>r. fill_frames p FILL_SIZE s = Ok (s\<lparr>x_fill := r\<rparr>) \<and> ring_ok_user r \<and> r_size r = FILL_SIZE
    \<and> ring_items r = map (frame_addr (x_frame_size s)) [0..<2048]
    \<and> r_map r = r_map (x_fill s) \<and> r_map_len r = r_map_len (x_fill s)"
proof -
  let ?f = "x_fill s" and ?xs = "map (frame_addr (x_frame_size s)) [0..<2048]"
  let ?r = "fold ring_produce ?xs ?f"
  have "(2048 :: u32) = 2 ^ 11" by simp
  then have ok: "ring_ok_user ?f" "ring_items ?f = []"
    using assms(2) ring_fresh_ok [of ?f 11] by (simp_all add: umem_size_defs)
  have c: "r_cached ?f = 0" "r_size ?f = FILL_SIZE" "r_consumer ?f = 0" "r_producer ?f = 0"
    using assms(2) by (simp_all add: ring_fresh_def)
  have addrs: "map (fill_addr s) [0..<2048] = ?xs"
    using fill_addr_fresh [OF assms(1) c(1)] by simp
  have "ring_publish ?f = ?f" by (simp add: ring_publish_def c)
  then have loop: "ring_publish (x_fill (fill_loop 2048 s)) = ?r"
    by (simp add: fill_loop_eq publish_fold_put addrs del: map_eq_conv)
  obtain k where k: "k < 32" "x_umem_len s = 2 ^ k * 4096"
    using assms(1) by (auto simp: umem_ok_def unat_pow2)
  have "(2::nat) ^ k * 4096 \<le> 2 ^ 31 * 4096"
    using k(1) by (intro mult_le_mono power_increasing) simp_all
  then have "unat (of_nat (2 ^ k * 4096) :: u64) = 2 ^ k * 4096"
    by (simp only: unat_of_nat) simp
  then have nz: "(of_nat (x_umem_len s) :: u64) \<noteq> 0"
    unfolding k(2) by (metis mult_eq_0_iff power_not_zero unsigned_0 zero_neq_numeral)
  have "fill_frames p FILL_SIZE s = Ok (s\<lparr>x_fill := ?r\<rparr>)"
    using nz loop c by (simp add: fill_frames_def Let_def umem_size_defs) (simp add: fill_loop_eq)
  moreover have "r_map (fold ring_produce ys q) = r_map q \<and> r_map_len (fold ring_produce ys q) = r_map_len q
      \<and> r_size (fold ring_produce ys q) = r_size q" for ys and q :: "u64 ring"
    by (induction ys arbitrary: q) (simp_all add: ring_produce_def ring_put_def ring_publish_def)
  ultimately show ?thesis
    using user_ring.fold_put [OF ok(1), of ?xs] ok(2) c(2) by (intro exI [of _ ?r]) simp
qed

text \<open>
  What the construction relies on from the system: freshly mapped ring memory has zeroed indices.
\<close>

definition rings_zeroed :: "os_xsk \<Rightarrow> bool" where
  "rings_zeroed os \<longleftrightarrow> (\<forall>n. fst (os_ring_mem os n) = 0 \<and> fst (snd (os_ring_mem os n)) = 0)"

lemma ring_map_fresh:
  assumes "rings_zeroed os" "ring_map os name off sz elem z = (Ok r, l)"
  shows "ring_fresh r sz"
  using assms(1) [unfolded rings_zeroed_def, rule_format, of name] assms(2)
  by (auto simp: ring_map_def ring_fresh_def Let_def split: sum.splits prod.splits)

lemma map_rings_fresh:
  assumes "rings_zeroed os" "map_rings os off = (Ok (f, c, r, t), l)"
  shows "ring_fresh f FILL_SIZE" "ring_fresh c TX_SIZE" "ring_fresh r RX_SIZE" "ring_fresh t TX_SIZE"
  using assms(2) unfolding map_rings_def
  by (auto split: prod.splits outcome.splits dest: ring_map_fresh [OF assms(1)])

lemma bind_attempts_Ok:
  "bind_attempts os i q as e s = (Ok s', l) \<Longrightarrow> \<exists>lbl. s' = s\<lparr>x_bind_label := lbl\<rparr>"
  by (induction as arbitrary: e) (auto simp: Let_def split: option.splits)

lemma owns_fresh:
  assumes "umem_ok s" "ring_fresh (x_fill s) FILL_SIZE" "ring_fresh (x_comp s) TX_SIZE"
    "ring_fresh (x_rx s) RX_SIZE" "ring_fresh (x_tx s) TX_SIZE"
    "x_tx_free s = tx_pool (x_frame_size s)"
    "xsk_build p os i q mode s = (Ok s', l)"
  shows "owns s' {#} {#} {#} {#}"
proof -
  have 2048: "(2048 :: u32) = 2 ^ 11" by simp
  note rings = assms(3-5) [unfolded umem_size_defs 2048, THEN ring_fresh_ok(1)]
    assms(3-5) [unfolded umem_size_defs 2048, THEN ring_fresh_ok(2)]
    assms(3-5) [unfolded umem_size_defs 2048, THEN ring_fresh_ok(3)]
  obtain f where f: "fill_frames p FILL_SIZE s = Ok (s\<lparr>x_fill := f\<rparr>)" "ring_ok_user f"
    "r_size f = FILL_SIZE" "ring_items f = map (frame_addr (x_frame_size s)) [0..<2048]"
    using fill_frames_fresh [OF assms(1,2), of p] by blast
  obtain lbl where s': "s' = s\<lparr>x_fill := f, x_bind_label := lbl\<rparr>"
    using assms(7) f(1) by (auto simp: xsk_build_def dest: bind_attempts_Ok)
  show ?thesis
    using f(2-4) rings assms(1,3-6)
    by (simp add: owns_defs s' rings_ok_def umem_ok_def ring_fresh_def rx_frames_def tx_frames_def
        tx_pool_def frame_addr_def [abs_def])
qed

lemma fill_frames_tx: "fill_frames p n s = Ok s' \<Longrightarrow> x_tx s' = x_tx s"
  unfolding fill_frames_def Let_def fill_loop_eq by (auto split: if_splits)

lemma xsk_build_frame_size:
  "xsk_build p os i q mode s = (Ok s', l) \<Longrightarrow> x_frame_size s' = x_frame_size s"
  by (auto simp: xsk_build_def fill_frames_def Let_def fill_loop_eq
      dest!: bind_attempts_Ok split: outcome.splits if_splits)

lemma xsk_new_Ok:
  assumes "xsk_new p os ifindex queue_id mtu hugepage mode = (Ok s, log)"
  shows "\<exists>fs fd umem huge l0 off f c r t l l'.
    frame_size_for p mtu (os_page_size os) = Ok fs \<and> os_socket os = Inr fd
    \<and> map_umem (os_mmap os) (unat fs * unat FRAME_COUNT) hugepage = (Ok (umem, huge), l0)
    \<and> map_rings os off = (Ok (f, c, r, t), l)
    \<and> xsk_build p os ifindex queue_id mode (xsk_init fd umem fs huge f c r t) = (Ok s, l')
    \<and> log = Opened fd # l0 @ l @ l'"
proof -
  show ?thesis
    using assms unfolding xsk_new_def Let_def
    by (simp split: outcome.splits sum.splits prod.splits) blast
qed

lemma xsk_new_owns_fresh:
  assumes "rings_zeroed os" "ETH_HDR_LEN + mtu \<le> 2 ^ 63" "os_page_size os < 2 ^ 32"
    "xsk_new p os ifindex queue_id mtu hugepage mode = (Ok s, log)"
  shows "owns s {#} {#} {#} {#} \<and> ETH_HDR_LEN + mtu \<le> unat (x_frame_size s)"
proof -
  obtain fs fd umem huge off f c r t l l' where
    fs: "frame_size_for p mtu (os_page_size os) = Ok fs"
    and rings: "map_rings os off = (Ok (f, c, r, t), l)"
    and build: "xsk_build p os ifindex queue_id mode (xsk_init fd umem fs huge f c r t) = (Ok s, l')"
    using xsk_new_Ok [OF assms(4)] by blast
  obtain k where k: "11 \<le> k" "k < 32" "fs = 2 ^ k" "ETH_HDR_LEN + mtu \<le> 2 ^ k"
    using frame_size_for_Ok [OF assms(2,3) fs] by blast
  have "owns s {#} {#} {#} {#}"
    using build k map_rings_fresh [OF assms(1) rings]
    by (auto simp: umem_ok_def xsk_init_def intro!: owns_fresh [OF _ _ _ _ _ _ build])
  moreover have "x_frame_size s = fs"
    using xsk_build_frame_size [OF build] by (simp add: xsk_init_def)
  ultimately show ?thesis using k by (simp add: unat_pow2)
qed

lemma xsk_new_tx_empty:
  assumes "rings_zeroed os" "xsk_new p os ifindex queue_id mtu hugepage mode = (Ok s, log)"
  shows "ring_items (x_tx s) = []"
proof -
  obtain fs fd umem huge off f c r t l l' where
    rings: "map_rings os off = (Ok (f, c, r, t), l)"
    and build: "xsk_build p os ifindex queue_id mode (xsk_init fd umem fs huge f c r t) = (Ok s, l')"
    using xsk_new_Ok [OF assms(2)] by blast
  have "x_tx s = t"
    using build fill_frames_tx [of p FILL_SIZE "xsk_init fd umem fs huge f c r t"]
    by (auto simp: xsk_build_def xsk_init_def split: outcome.splits dest!: bind_attempts_Ok)
  moreover have "ring_items t = []"
    using map_rings_fresh(4) [OF assms(1) rings] ring_fresh_ok(3) [of t 11] by (simp add: umem_size_defs)
  ultimately show ?thesis by simp
qed

section \<open>Exclusive ownership\<close>

lemma owns_partition:
  assumes "owns s kr kt ur ut"
  shows "rx_owners s kr ur + tx_owners s kt ut = mset (map (frame_addr (x_frame_size s)) [0..<4096])"
  using assms by (simp only: owns_def frames_partition)

lemma owns_count_le_1:
  assumes "owns s kr kt ur ut"
  shows "count (rx_owners s kr ur + tx_owners s kt ut) a \<le> 1"
  using assms count_frames_le_1 [of s a] by (simp add: owns_def)

lemma owned_frame_addr:
  assumes "owns s kr kt ur ut" "a \<in># rx_owners s kr ur + tx_owners s kt ut"
  shows "\<exists>i<4096. a = frame_addr (x_frame_size s) i"
  using assms(2) unfolding owns_partition [OF assms(1)] by auto

lemma owned_bounds:
  assumes "owns s kr kt ur ut"
  shows "a \<in># rx_owners s kr ur \<Longrightarrow> unat a + unat (x_frame_size s) \<le> 2048 * unat (x_frame_size s)"
    and "a \<in># tx_owners s kt ut \<Longrightarrow> 2048 * unat (x_frame_size s) \<le> unat a
           \<and> unat a + unat (x_frame_size s) \<le> x_umem_len s"
proof -
  obtain k where k: "k < 32" "x_frame_size s = 2 ^ k" "unat (x_frame_size s) = 2 ^ k"
    "x_umem_len s = 4096 * 2 ^ k"
    using assms by (auto simp: owns_def umem_ok_def unat_pow2)
  have slot: "i * 2 ^ k + 2 ^ k \<le> n * 2 ^ k" if "i < n" for i n :: nat
    using mult_le_mono1 [of "Suc i" n "2 ^ k"] that by simp
  show "unat a + unat (x_frame_size s) \<le> 2048 * unat (x_frame_size s)" if "a \<in># rx_owners s kr ur"
  proof -
    obtain i where "i < 2048" "a = frame_addr (2 ^ k) i"
      using \<open>a \<in># rx_owners s kr ur\<close> assms k(2) by (auto simp: owns_def elim: rx_framesE)
    then show ?thesis using k slot [of i 2048] by (simp add: unat_frame_addr)
  qed
  show "2048 * unat (x_frame_size s) \<le> unat a \<and> unat a + unat (x_frame_size s) \<le> x_umem_len s"
    if "a \<in># tx_owners s kt ut"
  proof -
    obtain i where "2048 \<le> i" "i < 4096" "a = frame_addr (2 ^ k) i"
      using \<open>a \<in># tx_owners s kt ut\<close> assms k(2) by (auto simp: owns_def elim: tx_framesE)
    then show ?thesis using k slot [of i 4096] by (simp add: unat_frame_addr)
  qed
qed

lemma owned_in_umem:
  assumes "owns s kr kt ur ut" "a \<in># rx_owners s kr ur + tx_owners s kt ut"
  shows "unat a + unat (x_frame_size s) \<le> x_umem_len s"
  using owned_bounds [OF assms(1), of a] assms
  by (auto simp: owns_def umem_ok_def dest: order.trans)

text \<open>Two frames do not overlap.\<close>

lemma frames_disjoint:
  assumes "owns s kr kt ur ut" "a \<noteq> b"
    "a \<in># rx_owners s kr ur + tx_owners s kt ut" "b \<in># rx_owners s kr ur + tx_owners s kt ut"
  shows "unat a + unat (x_frame_size s) \<le> unat b \<or> unat b + unat (x_frame_size s) \<le> unat a"
proof -
  obtain k where k: "k < 32" "x_frame_size s = 2 ^ k" "unat (x_frame_size s) = 2 ^ k"
    using assms(1) by (auto simp: owns_def umem_ok_def unat_pow2)
  obtain i j where ij: "i < 4096" "a = frame_addr (2 ^ k) i" "j < 4096" "b = frame_addr (2 ^ k) j"
    using owned_frame_addr [OF assms(1)] assms(3,4) k(2) by metis
  have "Suc i \<le> j \<or> Suc j \<le> i" using assms(2) ij by (metis Suc_leI linorder_neqE_nat)
  then have "Suc i * 2 ^ k \<le> j * 2 ^ k \<or> Suc j * 2 ^ k \<le> i * 2 ^ k"
    by (meson mult_le_mono1)
  then show ?thesis using ij k by (simp add: unat_frame_addr add.commute)
qed

text \<open>The frames user space holds are not the ones the kernel may write.\<close>

lemma held_not_kernel:
  assumes "owns s kr kt ur ut" "b \<in># ur + ut"
  shows "b \<notin># kr" and "b \<in># rx_owners s kr ur + tx_owners s kt ut"
proof -
  show "b \<in># rx_owners s kr ur + tx_owners s kt ut"
    using assms(2) by (auto simp: rx_owners_def tx_owners_def)
  show "b \<notin># kr"
  proof
    assume "b \<in># kr"
    then have "0 < count kr b" "0 < count (ur + ut) b"
      using assms(2) by (simp_all only: count_greater_zero_iff)
    moreover have "count kr b + count (ur + ut) b \<le> count (rx_owners s kr ur + tx_owners s kt ut) b"
      by (simp add: rx_owners_def tx_owners_def)
    ultimately show False using owns_count_le_1 [OF assms(1), of b] by linarith
  qed
qed

lemma kernel_step_held_frame:
  assumes "kernel_step (s, kr, kt) (s', kr', kt')" "owns s kr kt ur ut" "b \<in># ur + ut"
    "unat b \<le> i" "i < unat b + unat (x_frame_size s)"
  shows "x_umem s' i = x_umem s i \<and> x_frame_size s' = x_frame_size s"
  using assms(1)
proof (cases rule: kernel_step.cases)
  case (dma c m)
  have "c \<noteq> b" using held_not_kernel(1) [OF assms(2,3)] dma(4) by auto
  moreover have "c \<in># rx_owners s kr ur + tx_owners s kt ut"
    using dma(4) by (simp add: rx_owners_def)
  ultimately have "i < unat c \<or> unat c + unat (x_frame_size s) \<le> i"
    using frames_disjoint [OF assms(2), of c b] held_not_kernel(2) [OF assms(2,3)] assms(4,5) by auto
  with dma show ?thesis by simp
qed simp_all

lemma kernel_steps_held_frame:
  assumes "kernel_step\<^sup>*\<^sup>* (s, kr, kt) z" "owns s kr kt ur ut" "b \<in># ur + ut"
    "unat b \<le> i" "i < unat b + unat (x_frame_size s)"
  shows "case z of (s', kr', kt') \<Rightarrow>
    owns s' kr' kt' ur ut \<and> x_umem s' i = x_umem s i \<and> x_frame_size s' = x_frame_size s"
  using assms(1)
proof (induction rule: rtranclp_induct)
  case base
  then show ?case using assms(2) by simp
next
  case (step z1 z2)
  obtain s1 kr1 kt1 s2 kr2 kt2 where z: "z1 = (s1, kr1, kt1)" "z2 = (s2, kr2, kt2)"
    by (metis prod_cases3)
  then have IH: "owns s1 kr1 kt1 ur ut" "x_umem s1 i = x_umem s i" "x_frame_size s1 = x_frame_size s"
    using step.IH by simp_all
  have k: "kernel_step (s1, kr1, kt1) (s2, kr2, kt2)" using step.hyps(2) z by simp
  show ?case
    using owns_kernel_step [OF k IH(1)] kernel_step_held_frame [OF k IH(1) assms(3,4)] assms(5) IH
    by (simp add: z)
qed

end
