(* ===== verification/Xsk_System.thy ===== *)
theory Xsk_System
  imports Xsk_Ownership
begin

text \<open>
  The AF\_XDP socket and the kernel as one transition system: any disciplined client of the
  operations of \<open>Xsk\<close>, interleaved in any order with the kernel.  The ownership invariant of
  \<open>Xsk_Ownership\<close> holds in every reachable state, and the safety of the ring and memory accesses
  follows from it.
\<close>

section \<open>The socket and the kernel, interleaved\<close>

text \<open>
  A client of \<^verbatim>\<open>Xsk\<close> that returns only frames it holds and writes only to transmit frames it holds,
  interleaved in any order with the kernel.
\<close>

record xsys =
  y_sk :: xsk
  k_rx :: "u64 multiset"
  k_tx :: "u64 multiset"
  u_rx :: "u64 multiset"
  u_tx :: "u64 multiset"

inductive xsys_step :: "xsys \<Rightarrow> xsys \<Rightarrow> bool" where
  kernel:
    "kernel_step (y_sk y, k_rx y, k_tx y) (s, kr, kt) \<Longrightarrow>
     xsys_step y (y\<lparr>y_sk := s, k_rx := kr, k_tx := kt\<rparr>)"
| peek:
    "rx_peek (y_sk y) = (Some (a, l), s) \<Longrightarrow>
     xsys_step y (y\<lparr>y_sk := s, u_rx := add_mset (frame_base (y_sk y) a) (u_rx y)\<rparr>)"
| peek_none:
    "rx_peek (y_sk y) = (None, s) \<Longrightarrow> xsys_step y (y\<lparr>y_sk := s\<rparr>)"
| give_back:
    "frame_base (y_sk y) a \<in># u_rx y \<Longrightarrow>
     xsys_step y (y\<lparr>y_sk := recycle a (y_sk y), u_rx := u_rx y - {#frame_base (y_sk y) a#}\<rparr>)"
| alloc:
    "tx_alloc (y_sk y) = (Some a, s) \<Longrightarrow> xsys_step y (y\<lparr>y_sk := s, u_tx := add_mset a (u_tx y)\<rparr>)"
| alloc_none:
    "tx_alloc (y_sk y) = (None, s) \<Longrightarrow> xsys_step y (y\<lparr>y_sk := s\<rparr>)"
| fill_in:
    "a \<in># u_tx y \<Longrightarrow> length bs \<le> unat (x_frame_size (y_sk y)) \<Longrightarrow>
     xsys_step y (y\<lparr>y_sk := set_frame (y_sk y) a bs\<rparr>)"
| submit:
    "a \<in># u_tx y \<Longrightarrow>
     xsys_step y (y\<lparr>y_sk := tx_submit a l (y_sk y), u_tx := u_tx y - {#a#}\<rparr>)"
| kick_transmit: "xsys_step y (y\<lparr>y_sk := kick_tx (y_sk y)\<rparr>)"
| kick_receive: "xsys_step y (y\<lparr>y_sk := kick_rx (y_sk y)\<rparr>)"

definition xsys_init :: "xsys \<Rightarrow> bool" where
  "xsys_init y \<longleftrightarrow>
     (\<exists>p os ifindex queue_id mtu hugepage mode log.
        rings_zeroed os \<and> ETH_HDR_LEN + mtu \<le> 2 ^ 63 \<and> os_page_size os < 2 ^ 32
        \<and> xsk_new p os ifindex queue_id mtu hugepage mode = (Ok (y_sk y), log))
     \<and> k_rx y = {#} \<and> k_tx y = {#} \<and> u_rx y = {#} \<and> u_tx y = {#}"

definition xsys_owns :: "xsys \<Rightarrow> bool" where
  "xsys_owns y \<longleftrightarrow> owns (y_sk y) (k_rx y) (k_tx y) (u_rx y) (u_tx y)"

lemma rx_peek_None: "rx_peek s = (None, s') \<Longrightarrow> s' = s"
  by (auto simp: rx_peek_def split: option.splits)

lemma xsys_owns_step:
  assumes "xsys_owns y" "xsys_step y z"
  shows "xsys_owns z"
  using assms(2,1)
  by (cases rule: xsys_step.cases)
     (auto simp: xsys_owns_def intro: owns_kernel_step owns_rx_peek(1) owns_recycle(1)
        owns_tx_alloc_Some owns_tx_alloc_None(1) owns_set_frame owns_tx_submit(1) owns_kick_tx
        owns_kick_rx dest: rx_peek_None)

interpretation xsys: invariant_system xsys_init xsys_step xsys_owns
proof
  show "xsys_owns y" if "xsys_init y" for y
    using that xsk_new_owns_fresh by (auto simp: xsys_init_def xsys_owns_def)
qed (rule xsys_owns_step)

text \<open>
  C1.  Whatever the order in which the socket's operations and the kernel's steps interleave, after
  \<^verbatim>\<open>Xsk::new\<close> each of the 4096 frames of the UMEM is always in exactly one place: on one ring, in the
  pool, with the kernel, or with user space.
\<close>

theorem frames_exclusively_owned:
  assumes "xsys_init y0" and "xsys_step\<^sup>*\<^sup>* y0 y" and "i < 4096"
  shows "count (rx_owners (y_sk y) (k_rx y) (u_rx y) + tx_owners (y_sk y) (k_tx y) (u_tx y))
           (frame_addr (x_frame_size (y_sk y)) i) = 1"
proof -
  have o: "owns (y_sk y) (k_rx y) (k_tx y) (u_rx y) (u_tx y)"
    using xsys.inv_reachable [OF assms(1,2)] by (simp add: xsys_owns_def)
  have "frame_addr (x_frame_size (y_sk y)) i \<in># mset (map (frame_addr (x_frame_size (y_sk y))) [0..<4096])"
    using assms(3) by auto
  then show ?thesis
    using owns_count_le_1 [OF o, of "frame_addr (x_frame_size (y_sk y)) i"]
    unfolding owns_partition [OF o, symmetric] by (simp only: count_greater_zero_iff [symmetric])
qed

text \<open>
  C2.  No ring write destroys a descriptor the other side has not consumed, although neither
  \<^verbatim>\<open>recycle\<close> nor \<^verbatim>\<open>tx_submit\<close> looks at the consumer index: in every reachable state, giving back a
  frame user space holds appends exactly it to the FILL queue and submitting one appends exactly its
  descriptor to the TX queue, the rest of the queue unchanged.
\<close>

theorem ring_writes_never_overwrite:
  assumes "xsys_init y0" and "xsys_step\<^sup>*\<^sup>* y0 y"
  shows "(frame_base (y_sk y) a \<in># u_rx y \<longrightarrow>
            ring_items (x_fill (recycle a (y_sk y))) =
              ring_items (x_fill (y_sk y)) @ [frame_base (y_sk y) a])
       \<and> (b \<in># u_tx y \<longrightarrow>
            ring_items (x_tx (tx_submit b l (y_sk y))) =
              ring_items (x_tx (y_sk y)) @ [\<lparr>d_addr = b, d_len = l, d_options = 0\<rparr>])"
proof -
  have o: "owns (y_sk y) (k_rx y) (k_tx y) (u_rx y) (u_tx y)"
    using xsys.inv_reachable [OF assms(1,2)] by (simp add: xsys_owns_def)
  show ?thesis
    using owns_recycle(2) [OF o] owns_tx_submit(2) [OF o] by blast
qed

text \<open>
  C21.  A frame \<^verbatim>\<open>tx_alloc\<close> hands out lies in the upper half of the UMEM, entirely inside the
  mapping, and nobody else refers to it: it is on no ring, not with the kernel, and not one of the
  frames already held.  If \<^verbatim>\<open>tx_alloc\<close> hands out none, all 2048 transmit frames are queued on TX,
  with the kernel, or held.
\<close>

theorem tx_alloc_exclusive:
  assumes "xsys_init y0" and "xsys_step\<^sup>*\<^sup>* y0 y"
  shows "case tx_alloc (y_sk y) of
      (Some a, s') \<Rightarrow>
        2048 * unat (x_frame_size s') \<le> unat a \<and> unat a + unat (x_frame_size s') \<le> x_umem_len s'
        \<and> a \<notin># rx_owners s' (k_rx y) (u_rx y) \<and> a \<notin> set (x_tx_free s')
        \<and> a \<notin> d_addr ` set (ring_items (x_tx s')) \<and> a \<notin># k_tx y
        \<and> a \<notin> frame_base s' ` set (ring_items (x_comp s')) \<and> a \<notin># u_tx y
    | (None, s') \<Rightarrow> ring_count (x_tx s') + size (k_tx y) + size (u_tx y) = 2048"
proof -
  have o: "owns (y_sk y) (k_rx y) (k_tx y) (u_rx y) (u_tx y)"
    using xsys.inv_reachable [OF assms] by (simp add: xsys_owns_def)
  obtain r s' where e: "tx_alloc (y_sk y) = (r, s')" by fastforce
  show ?thesis
  proof (cases r)
    case None
    have "x_tx s' = x_tx (y_sk y)"
      using e None by (auto simp: tx_alloc_def Let_def reclaim_comp_eq split: if_splits)
    then show ?thesis
      using owns_tx_alloc_None(2) [OF o] e None by simp
  next
    case (Some a)
    have o': "owns s' (k_rx y) (k_tx y) (u_rx y) (add_mset a (u_tx y))"
      using owns_tx_alloc_Some [OF o] e Some by simp
    have "a \<notin># rx_owners s' (k_rx y) (u_rx y) + tx_owners s' (k_tx y) (u_tx y)"
    proof
      assume "a \<in># rx_owners s' (k_rx y) (u_rx y) + tx_owners s' (k_tx y) (u_tx y)"
      then have "0 < count (rx_owners s' (k_rx y) (u_rx y) + tx_owners s' (k_tx y) (u_tx y)) a"
        by (simp only: count_greater_zero_iff)
      moreover have "tx_owners s' (k_tx y) (add_mset a (u_tx y)) = add_mset a (tx_owners s' (k_tx y) (u_tx y))"
        by (simp add: tx_owners_def)
      ultimately show False using owns_count_le_1 [OF o', of a] by (auto simp: count_eq_zero_iff)
    qed
    then show ?thesis
      using owned_bounds(2) [OF o', of a] e Some by (auto simp: tx_owners_def)
  qed
qed

text \<open>
  C22.  The receive path reads only memory it owns: a descriptor \<^verbatim>\<open>rx_peek\<close> returns lies inside one
  frame of the lower half of the UMEM, and until that frame is given back no sequence of kernel
  steps changes a byte of it; the same holds of a transmit frame user space has allocated.
\<close>

theorem held_frames_stable:
  assumes "xsys_init y0" and "xsys_step\<^sup>*\<^sup>* y0 y"
    and "kernel_step\<^sup>*\<^sup>* (y_sk y, k_rx y, k_tx y) (s', kr', kt')"
    and "b \<in># u_rx y + u_tx y" and "unat b \<le> i" and "i < unat b + unat (x_frame_size (y_sk y))"
  shows "x_umem s' i = x_umem (y_sk y) i \<and> i < x_umem_len (y_sk y)"
proof -
  have o: "owns (y_sk y) (k_rx y) (k_tx y) (u_rx y) (u_tx y)"
    using xsys.inv_reachable [OF assms(1,2)] by (simp add: xsys_owns_def)
  have "unat b + unat (x_frame_size (y_sk y)) \<le> x_umem_len (y_sk y)"
    using owned_in_umem [OF o] held_not_kernel(2) [OF o assms(4)] by blast
  then show ?thesis
    using kernel_steps_held_frame [OF assms(3) o assms(4-6)] assms(6) by simp
qed

section \<open>A concrete run\<close>

text \<open>
  A system that answers every call, on a standard link: no huge pages, no zero-copy driver, so the
  UMEM ends on normal pages and \<^verbatim>\<open>Auto\<close> falls back to copy mode.
\<close>

definition sample_os :: os_xsk where
  "sample_os =
     \<lparr>os_page_size = 4096, os_socket = Inr 5,
      os_mmap = (\<lambda>huge len. if huge = None then Inr 1048576 else Inl 12),
      os_setsockopt = (\<lambda>_. None), os_memlock = None, os_offsets = Inr (\<lambda>_. 320),
      os_mmap_ring = (\<lambda>n len. case n of Fill_Ring \<Rightarrow> Inr 65536 | Comp_Ring \<Rightarrow> Inr 131072
                        | Rx_Ring \<Rightarrow> Inr 196608 | Tx_Ring \<Rightarrow> Inr 262144),
      os_ring_mem = (\<lambda>_. (0, 0, 0)),
      os_bind = (\<lambda>flags. if flags = 10 then None else Some 95)\<rparr>"

definition sample_sk :: xsk where
  "sample_sk = (case fst (xsk_new Release sample_os 3 0 1500 Mb2 Auto) of Ok s \<Rightarrow> s)"

definition sample_sys :: xsys where
  "sample_sys = \<lparr>y_sk = sample_sk, k_rx = {#}, k_tx = {#}, u_rx = {#}, u_tx = {#}\<rparr>"

lemma sample_frame_size: "frame_size_for p 1500 4096 = Ok 2048"
  by (simp add: frame_size_for_def next_power_of_two_def pow2_above.simps MIN_CHUNK_SIZE_def
      ETH_HDR_LEN_def)

lemma sample_rings:
  "\<exists>f c r t l. map_rings sample_os (\<lambda>_. 320) = (Ok (f, c, r, t), l)"
  by (simp add: map_rings_def ring_map_def sample_os_def Let_def)

lemma sample_zeroed: "rings_zeroed sample_os"
  by (simp add: rings_zeroed_def sample_os_def)

lemma sample_built:
  "\<exists>s log. xsk_new Release sample_os 3 0 1500 Mb2 Auto = (Ok s, log)
     \<and> x_tx_free s = tx_pool 2048 \<and> x_frame_size s = 2048 \<and> ring_items (x_rx s) = []"
proof -
  obtain f c r t l where rings: "map_rings sample_os (\<lambda>_. 320) = (Ok (f, c, r, t), l)"
    using sample_rings by blast
  let ?start = "xsk_init 5 1048576 2048 Off f c r t"
  have "\<exists>k\<ge>11. k < 32 \<and> (2048 :: u32) = 2 ^ k"
    by (rule exI [of _ 11]) simp
  then have "umem_ok ?start"
    by (simp add: umem_ok_def xsk_init_def)
  moreover have "ring_fresh (x_fill ?start) FILL_SIZE"
    using map_rings_fresh(1) [OF sample_zeroed rings] by (simp add: xsk_init_def)
  ultimately obtain f' where fill: "fill_frames Release FILL_SIZE ?start = Ok (?start\<lparr>x_fill := f'\<rparr>)"
    using fill_frames_fresh by blast
  let ?done = "?start\<lparr>x_fill := f', x_bind_label := ''copy mode''\<rparr>"
  have "\<exists>l'. xsk_build Release sample_os 3 0 Auto ?start = (Ok ?done, l')"
    by (simp add: xsk_build_def fill Let_def XDP_COPY_def XDP_ZEROCOPY_def XDP_USE_NEED_WAKEUP_def
        sample_os_def)
  moreover have "map_umem (os_mmap sample_os) 8388608 Mb2 = (Ok (1048576, Off), [Mapped 1048576 8388608])"
    by (simp add: map_umem_def sample_os_def)
  moreover have "register_umem sample_os a n fs = Ok ()" for a n fs
    by (simp add: register_umem_def set_xdp_option_def sample_os_def)
  moreover have "os_page_size sample_os = 4096" "os_socket sample_os = Inr 5"
    "os_offsets sample_os = Inr (\<lambda>_. 320)"
    by (simp_all add: sample_os_def)
  ultimately have "\<exists>log. xsk_new Release sample_os 3 0 1500 Mb2 Auto = (Ok ?done, log)"
    using rings sample_frame_size by (auto simp: xsk_new_def Let_def)
  moreover have "ring_items r = []"
    using map_rings_fresh(3) [OF sample_zeroed rings] ring_fresh_ok(3) [of r 11]
    by (simp add: umem_size_defs)
  ultimately show ?thesis by (auto simp: xsk_init_def)
qed

lemma sample_new: "\<exists>log. xsk_new Release sample_os 3 0 1500 Mb2 Auto = (Ok sample_sk, log)"
  and sample_fields: "x_tx_free sample_sk = tx_pool 2048" "x_frame_size sample_sk = 2048"
    "ring_items (x_rx sample_sk) = []"
  using sample_built by (auto simp: sample_sk_def)

lemma sample_init: "xsys_init sample_sys"
proof -
  have "ETH_HDR_LEN + 1500 \<le> 2 ^ 63" "os_page_size sample_os < 2 ^ 32"
    by (simp_all add: sample_os_def ETH_HDR_LEN_def)
  with sample_new sample_zeroed show ?thesis
    unfolding xsys_init_def sample_sys_def xsys.select_convs by blast
qed

text \<open>One transmit frame taken: the last of the pool, frame 4095.\<close>

definition sample_held :: xsys where
  "sample_held = sample_sys\<lparr>y_sk := sample_sk\<lparr>x_tx_free := butlast (tx_pool 2048)\<rparr>, u_tx := {#8386560#}\<rparr>"

lemma sample_alloc:
  "tx_alloc sample_sk = (Some 8386560, sample_sk\<lparr>x_tx_free := butlast (tx_pool 2048)\<rparr>)"
proof -
  have "tx_pool 2048 \<noteq> [] \<and> last (tx_pool 2048) = 8386560"
    by (simp add: tx_pool_def last_map)
  then show ?thesis by (simp add: tx_alloc_def sample_fields)
qed

lemma sample_held_reachable: "xsys_step\<^sup>*\<^sup>* sample_sys sample_held"
proof -
  have "xsys_step sample_sys sample_held"
    using xsys_step.alloc [of sample_sys 8386560] sample_alloc
    by (simp add: sample_held_def sample_sys_def)
  then show ?thesis by blast
qed

theorem frames_exclusively_owned_witness:
  "xsys_init sample_sys \<and> xsys_step\<^sup>*\<^sup>* sample_sys sample_held
   \<and> count (rx_owners (y_sk sample_held) (k_rx sample_held) (u_rx sample_held)
       + tx_owners (y_sk sample_held) (k_tx sample_held) (u_tx sample_held))
       (frame_addr (x_frame_size (y_sk sample_held)) 4095) = 1"
  using frames_exclusively_owned [OF sample_init sample_held_reachable, of 4095]
    sample_init sample_held_reachable by simp

theorem ring_writes_never_overwrite_witness:
  "8386560 \<in># u_tx sample_held
   \<and> ring_items (x_tx (tx_submit 8386560 64 (y_sk sample_held))) =
       ring_items (x_tx (y_sk sample_held)) @ [\<lparr>d_addr = 8386560, d_len = 64, d_options = 0\<rparr>]"
  using ring_writes_never_overwrite [OF sample_init sample_held_reachable, of _ 8386560 64]
  by (simp add: sample_held_def)

theorem tx_alloc_exclusive_witness:
  "xsys_init sample_sys \<and> tx_alloc (y_sk sample_sys) =
     (Some 8386560, sample_sk\<lparr>x_tx_free := butlast (tx_pool 2048)\<rparr>)
   \<and> 8386560 \<notin> set (butlast (tx_pool 2048))"
  using tx_alloc_exclusive [OF sample_init rtranclp.rtrancl_refl] sample_init sample_alloc
  by (simp add: sample_sys_def)

theorem held_frames_stable_witness:
  "8386560 \<in># u_rx sample_held + u_tx sample_held
   \<and> unat (8386560 :: u64) \<le> 8386570 \<and> 8386570 < unat (8386560 :: u64) + unat (x_frame_size (y_sk sample_held))
   \<and> 8386570 < x_umem_len (y_sk sample_held)"
proof -
  have h: "8386560 \<in># u_rx sample_held + u_tx sample_held" "unat (8386560 :: u64) \<le> 8386570"
    "8386570 < unat (8386560 :: u64) + unat (x_frame_size (y_sk sample_held))"
    by (simp_all add: sample_held_def sample_fields)
  show ?thesis
    using held_frames_stable [OF sample_init sample_held_reachable rtranclp.rtrancl_refl h] h by simp
qed

end
