(* ===== verification/Xsk_Queues.thy ===== *)
theory Xsk_Queues
  imports Xsk_Ownership
begin

text \<open>
  What the rings of an AF\_XDP socket mean to the code above it: a queue of byte frames waiting to be
  transmitted and a queue of byte frames received.  Both planes are proved against these queues; the
  lemmas here say what each operation of \<^verbatim>\<open>Xsk\<close> does to them.
\<close>

section \<open>The queues\<close>

definition tx_wire :: "xsk \<Rightarrow> bytes list" where
  "tx_wire s = map (\<lambda>d. frame s (d_addr d) (d_len d)) (ring_items (x_tx s))"

definition rx_wire :: "xsk \<Rightarrow> bytes list" where
  "rx_wire s = map (\<lambda>d. frame s (d_addr d) (d_len d)) (ring_items (x_rx s))"

text \<open>Every queued transmit descriptor stays within its frame.\<close>

definition tx_fits :: "xsk \<Rightarrow> bool" where
  "tx_fits s \<longleftrightarrow> list_all (\<lambda>d. unat (d_len d) \<le> unat (x_frame_size s)) (ring_items (x_tx s))"

text \<open>How many frames can be sent before the kernel has to return one.\<close>

definition tx_room :: "xsk \<Rightarrow> nat" where
  "tx_room s = length (x_tx_free s) + ring_count (x_comp s)"

section \<open>Operations that move no bytes\<close>

lemma tx_alloc_fields:
  assumes "tx_alloc s = (r, s')"
  shows "x_tx s' = x_tx s" "x_rx s' = x_rx s" "x_umem s' = x_umem s" "x_fill s' = x_fill s"
    "x_frame_size s' = x_frame_size s" "x_umem_len s' = x_umem_len s"
  using assms by (auto simp: tx_alloc_def Let_def reclaim_comp_eq split: if_splits)

lemma tx_alloc_wire:
  assumes "tx_alloc s = (r, s')"
  shows "tx_wire s' = tx_wire s" "rx_wire s' = rx_wire s" "tx_fits s' = tx_fits s"
  using tx_alloc_fields [OF assms] by (simp_all add: tx_wire_def rx_wire_def tx_fits_def frame_def)

lemma kick_rx_fields [simp]:
  "x_rx (kick_rx s) = x_rx s" "x_fill (kick_rx s) = x_fill s" "x_umem (kick_rx s) = x_umem s"
  "x_tx (kick_rx s) = x_tx s" "x_frame_size (kick_rx s) = x_frame_size s"
  "x_umem_len (kick_rx s) = x_umem_len s"
  "frame_base (kick_rx s) = frame_base s" "rx_wire (kick_rx s) = rx_wire s"
  "tx_wire (kick_rx s) = tx_wire s" "tx_fits (kick_rx s) = tx_fits s"
  "tx_room (kick_rx s) = tx_room s"
  by (simp_all add: kick_rx_def tx_room_def rx_wire_def tx_wire_def tx_fits_def frame_def)

lemma kick_tx_fields [simp]:
  "x_rx (kick_tx s) = x_rx s" "x_fill (kick_tx s) = x_fill s" "x_umem (kick_tx s) = x_umem s"
  "x_tx (kick_tx s) = x_tx s" "x_frame_size (kick_tx s) = x_frame_size s"
  "x_umem_len (kick_tx s) = x_umem_len s"
  "rx_wire (kick_tx s) = rx_wire s" "tx_wire (kick_tx s) = tx_wire s" "tx_fits (kick_tx s) = tx_fits s"
  by (simp_all add: kick_tx_def Let_def rx_wire_def tx_wire_def tx_fits_def frame_def)

lemma recycle_fields [simp]:
  "x_rx (recycle a s) = x_rx s" "x_umem (recycle a s) = x_umem s" "x_tx (recycle a s) = x_tx s"
  "x_frame_size (recycle a s) = x_frame_size s" "x_umem_len (recycle a s) = x_umem_len s"
  "rx_wire (recycle a s) = rx_wire s" "tx_wire (recycle a s) = tx_wire s"
  "tx_fits (recycle a s) = tx_fits s"
  by (simp_all add: recycle_def rx_wire_def tx_wire_def tx_fits_def frame_def)

lemma rx_peek_wire:
  assumes "rx_peek s = (r, s')"
  shows "case r of None \<Rightarrow> s' = s \<and> rx_wire s = [] | Some (a, l) \<Rightarrow> rx_wire s = frame s a l # rx_wire s'"
    and "tx_wire s' = tx_wire s" "tx_fits s' = tx_fits s" "x_umem s' = x_umem s"
    "x_frame_size s' = x_frame_size s" "x_fill s' = x_fill s" "frame_base s' = frame_base s"
proof -
  show "case r of None \<Rightarrow> s' = s \<and> rx_wire s = [] | Some (a, l) \<Rightarrow> rx_wire s = frame s a l # rx_wire s'"
    using assms
    by (auto simp: rx_peek_def rx_wire_def frame_def ring_consume_None ring_consume_Some(1)
        split: option.splits)
  show "tx_wire s' = tx_wire s" "tx_fits s' = tx_fits s" "x_umem s' = x_umem s"
    "x_frame_size s' = x_frame_size s" "x_fill s' = x_fill s" "frame_base s' = frame_base s"
    using assms by (auto simp: rx_peek_def tx_wire_def tx_fits_def frame_def split: option.splits)
qed

lemma tx_alloc_room:
  assumes "tx_alloc s = (r, s')"
  shows "case r of None \<Rightarrow> tx_room s = 0 | Some a \<Rightarrow> Suc (tx_room s') = tx_room s"
proof -
  have n: "ring_items (x_comp s) = [] \<longleftrightarrow> ring_count (x_comp s) = 0"
    by (metis length_0_conv length_ring_items)
  have "ring_count ((x_comp s)\<lparr>r_consumer := r_producer (x_comp s)\<rparr>) = 0"
    by (simp add: ring_count_def)
  then show ?thesis
    using assms n
    by (auto simp: tx_alloc_def Let_def reclaim_comp_eq tx_room_def split: if_splits)
qed

lemma tx_room_recycle [simp]: "tx_room (recycle a s) = tx_room s"
  by (simp add: tx_room_def recycle_def)

lemma frame_base_tx_alloc:
  "tx_alloc s = (r, s') \<Longrightarrow> frame_base s' = frame_base s"
  by (auto simp: tx_alloc_def Let_def reclaim_comp_eq split: if_splits)

section \<open>Writing a frame that user space holds\<close>

text \<open>Writing one frame changes no byte of another.\<close>

lemma write_elsewhere:
  assumes "owns s kr kt ur (add_mset a ut)" "b \<noteq> a"
    "b \<in># rx_owners s kr ur + tx_owners s kt (add_mset a ut)"
    "unat b \<le> x" "x + n \<le> unat b + unat (x_frame_size s)" "length bs \<le> unat (x_frame_size s)"
  shows "read_mem (write_mem (x_umem s) (unat a) bs) x n = read_mem (x_umem s) x n"
proof -
  have "a \<in># rx_owners s kr ur + tx_owners s kt (add_mset a ut)"
    by (simp add: tx_owners_def)
  then have "unat b + unat (x_frame_size s) \<le> unat a \<or> unat a + unat (x_frame_size s) \<le> unat b"
    by (rule frames_disjoint [OF assms(1-3)])
  then show ?thesis using assms(4-6) by (auto intro!: read_write_disjoint)
qed

lemma held_elsewhere:
  assumes "owns s kr kt ur (add_mset a ut)" "b \<in># rx_owners s kr ur + tx_owners s kt ut"
  shows "b \<noteq> a" "b \<in># rx_owners s kr ur + tx_owners s kt (add_mset a ut)"
proof -
  have e: "tx_owners s kt (add_mset a ut) = add_mset a (tx_owners s kt ut)"
    by (simp add: tx_owners_def)
  then show "b \<in># rx_owners s kr ur + tx_owners s kt (add_mset a ut)" using assms(2) by auto
  show "b \<noteq> a"
  proof
    assume "b = a"
    then have "0 < count (rx_owners s kr ur + tx_owners s kt ut) a"
      using assms(2) by (simp only: count_greater_zero_iff)
    then show False using owns_count_le_1 [OF assms(1), of a] by (auto simp: e count_eq_zero_iff)
  qed
qed

lemma set_frame_fields [simp]:
  "x_rx (set_frame s a bs) = x_rx s" "x_tx (set_frame s a bs) = x_tx s"
  "x_fill (set_frame s a bs) = x_fill s" "x_frame_size (set_frame s a bs) = x_frame_size s"
  "x_umem (set_frame s a bs) = write_mem (x_umem s) (unat a) bs"
  "frame_base (set_frame s a bs) = frame_base s"
  by (simp_all add: set_frame_def)

text \<open>So filling a frame leaves every queued and every received frame as it was.\<close>

lemma queued_frames_kept:
  assumes "owns s kr kt ur (add_mset a ut)" "tx_fits s" "length bs \<le> unat (x_frame_size s)"
  shows "tx_wire (set_frame s a bs) = tx_wire s" "rx_wire (set_frame s a bs) = rx_wire s"
proof -
  have "frame (set_frame s a bs) (d_addr d) (d_len d) = frame s (d_addr d) (d_len d)"
    if "d \<in> set (ring_items (x_tx s))" for d
  proof -
    have "d_addr d \<in># rx_owners s kr ur + tx_owners s kt ut"
      using that by (auto simp: tx_owners_def)
    from held_elsewhere [OF assms(1) this] show ?thesis
      using that assms by (auto simp: frame_def tx_fits_def list_all_iff intro!: write_elsewhere)
  qed
  then show "tx_wire (set_frame s a bs) = tx_wire s" by (simp add: tx_wire_def)
  have "frame (set_frame s a bs) (d_addr d) (d_len d) = frame s (d_addr d) (d_len d)"
    if d: "d \<in> set (ring_items (x_rx s))" for d
  proof -
    have "frame_base s (d_addr d) \<in># rx_owners s kr ur + tx_owners s kt ut"
      using d by (auto simp: rx_owners_def)
    note other = held_elsewhere [OF assms(1) this]
    have "unat (d_addr d) + unat (d_len d) \<le> unat (frame_base s (d_addr d)) + unat (x_frame_size s)"
      using assms(1) d by (simp add: owns_def list_all_iff desc_fits_def)
    moreover have "unat (frame_base s (d_addr d)) \<le> unat (d_addr d)"
      using assms(1) by (auto simp: owns_def umem_ok_def unat_frame_base)
    ultimately show ?thesis
      using write_elsewhere [OF assms(1) other] assms(3) by (simp add: frame_def)
  qed
  then show "rx_wire (set_frame s a bs) = rx_wire s" by (simp add: rx_wire_def)
qed

text \<open>
  Allocate, fill, submit: the first \<open>n\<close> bytes written join the transmit queue as one frame, and
  nothing else changes.
\<close>

lemma send_frame:
  assumes "owns s kr kt ur (add_mset a ut)" "tx_fits s" "length bs \<le> unat (x_frame_size s)"
    "n \<le> length bs" "n < 2 ^ 32"
  defines "s' \<equiv> tx_submit a (of_nat n) (set_frame s a bs)"
  shows "tx_wire s' = tx_wire s @ [take n bs]" "rx_wire s' = rx_wire s" "owns s' kr kt ur ut"
    "tx_fits s'" "x_frame_size s' = x_frame_size s" "frame_base s' = frame_base s"
    "tx_room s' = tx_room s"
proof -
  have held: "owns (set_frame s a bs) kr kt ur (add_mset a ut)"
    using assms(1) by (rule owns_set_frame)
  note kept = queued_frames_kept [OF assms(1-3)]
  have fr: "frame s' = frame (set_frame s a bs)" "x_rx s' = x_rx s"
    by (simp_all add: s'_def tx_submit_def frame_def fun_eq_iff)
  show fs: "x_frame_size s' = x_frame_size s" "frame_base s' = frame_base s"
    by (simp_all add: s'_def tx_submit_def)
  show "tx_room s' = tx_room s"
    by (simp add: s'_def tx_submit_def set_frame_def tx_room_def)
  show "owns s' kr kt ur ut"
    using owns_tx_submit(1) [OF held, of a] by (simp add: s'_def)
  have items: "ring_items (x_tx s') = ring_items (x_tx s) @ [\<lparr>d_addr = a, d_len = of_nat n, d_options = 0\<rparr>]"
    using owns_tx_submit(2) [OF held, of a] by (simp add: s'_def)
  then show "tx_fits s'"
    using assms(2-5) fs by (simp add: tx_fits_def unat_of_nat)
  have "frame (set_frame s a bs) a (of_nat n) = take n bs"
    using assms(4,5) by (simp add: frame_def unat_of_nat read_write_prefix)
  then show "tx_wire s' = tx_wire s @ [take n bs]"
    using kept(1) items by (simp add: tx_wire_def fr)
  show "rx_wire s' = rx_wire s"
    using kept(2) by (simp add: rx_wire_def fr)
qed

end
