(* ===== verification/Xsk_Delivery.thy ===== *)
theory Xsk_Delivery
  imports Xsk_Queues
begin

text \<open>
  What the kernel does to the two queues of byte frames.  Whatever step it takes, the frames that wait in a ring
  keep their bytes; it takes transmitted frames from the head of one queue and appends received frames
  to the other.  Conversely it can deliver any frame that fits, as long as user space has given it a buffer, and can
  return every transmitted one.
\<close>

section \<open>Frames in a ring keep their bytes\<close>

lemma not_with_kernel:
  assumes "owns s kr kt ur ut" "b \<in># rx_owners s {#} ur + tx_owners s kt ut"
  shows "b \<notin># kr" and "b \<in># rx_owners s kr ur + tx_owners s kt ut"
proof -
  have e: "rx_owners s kr ur = rx_owners s {#} ur + kr" by (simp add: rx_owners_def)
  then show "b \<in># rx_owners s kr ur + tx_owners s kt ut" using assms(2) by auto
  show "b \<notin># kr"
  proof
    assume "b \<in># kr"
    then have "0 < count kr b" "0 < count (rx_owners s {#} ur + tx_owners s kt ut) b"
      using assms(2) by (simp_all only: count_greater_zero_iff)
    moreover have "count kr b + count (rx_owners s {#} ur + tx_owners s kt ut) b \<le> 1"
      using owns_count_le_1 [OF assms(1), of b] unfolding e by (simp only: count_union ac_simps)
    ultimately show False by linarith
  qed
qed

lemma dma_elsewhere:
  assumes "owns s kr kt ur ut" "c \<in># kr" "b \<in># rx_owners s {#} ur + tx_owners s kt ut"
    "\<And>i. i < unat c \<or> unat c + unat (x_frame_size s) \<le> i \<Longrightarrow> m i = x_umem s i"
    "unat b \<le> x" "x + n \<le> unat b + unat (x_frame_size s)"
  shows "read_mem m x n = read_mem (x_umem s) x n"
proof -
  note b = not_with_kernel [OF assms(1,3)]
  have "c \<noteq> b" "c \<in># rx_owners s kr ur + tx_owners s kt ut"
    using assms(2) b(1) by (auto simp: rx_owners_def)
  then have "unat c + unat (x_frame_size s) \<le> unat b \<or> unat b + unat (x_frame_size s) \<le> unat c"
    using frames_disjoint [OF assms(1)] b(2) by blast
  then have "m i = x_umem s i" if "x \<le> i" "i < x + n" for i
    using that assms(5,6) by (intro assms(4)) linarith
  then show ?thesis by (simp add: read_mem_def)
qed

text \<open>A descriptor in the RX ring lies within its frame, one in the TX ring starts it.\<close>

lemma rx_desc_within:
  assumes "owns s kr kt ur ut" "d \<in> set (ring_items (x_rx s))"
  shows "frame_base s (d_addr d) \<in># rx_owners s {#} ur" "unat (frame_base s (d_addr d)) \<le> unat (d_addr d)"
    "unat (d_addr d) + unat (d_len d) \<le> unat (frame_base s (d_addr d)) + unat (x_frame_size s)"
  using assms by (auto simp: owns_def rx_owners_def umem_ok_def unat_frame_base list_all_iff desc_fits_def)

lemma tx_desc_within:
  assumes "d \<in> set (ring_items (x_tx s))" "tx_fits s"
  shows "d_addr d \<in># tx_owners s kt ut" "unat (d_addr d) + unat (d_len d) \<le> unat (d_addr d) + unat (x_frame_size s)"
  using assms by (auto simp: tx_owners_def tx_fits_def list_all_iff)

lemma dma_wires:
  assumes "owns s kr kt ur ut" "c \<in># kr" "tx_fits s"
    "\<And>i. i < unat c \<or> unat c + unat (x_frame_size s) \<le> i \<Longrightarrow> m i = x_umem s i"
  shows "rx_wire (s\<lparr>x_umem := m\<rparr>) = rx_wire s" "tx_wire (s\<lparr>x_umem := m\<rparr>) = tx_wire s"
proof -
  note keep = dma_elsewhere [OF assms(1,2) _ assms(4)]
  have "read_mem m (unat (d_addr d)) (unat (d_len d)) = read_mem (x_umem s) (unat (d_addr d)) (unat (d_len d))"
    if "d \<in> set (ring_items (x_rx s))" for d
    using rx_desc_within [OF assms(1) that] by (intro keep [of "frame_base s (d_addr d)"]) auto
  then show "rx_wire (s\<lparr>x_umem := m\<rparr>) = rx_wire s" by (simp add: rx_wire_def frame_def)
  have "read_mem m (unat (d_addr d)) (unat (d_len d)) = read_mem (x_umem s) (unat (d_addr d)) (unat (d_len d))"
    if "d \<in> set (ring_items (x_tx s))" for d
    using tx_desc_within(1) [OF that assms(3), of kt ut] tx_desc_within(2) [OF that assms(3)] by (intro keep [of "d_addr d"]) auto
  then show "tx_wire (s\<lparr>x_umem := m\<rparr>) = tx_wire s" by (simp add: tx_wire_def frame_def)
qed

section \<open>The queues under a kernel step\<close>

lemma wire_update [simp]:
  "rx_wire (s\<lparr>x_fill := f\<rparr>) = rx_wire s" "tx_wire (s\<lparr>x_fill := f\<rparr>) = tx_wire s"
  "rx_wire (s\<lparr>x_comp := c\<rparr>) = rx_wire s" "tx_wire (s\<lparr>x_comp := c\<rparr>) = tx_wire s"
  "rx_wire (s\<lparr>x_tx := t\<rparr>) = rx_wire s" "tx_wire (s\<lparr>x_rx := r\<rparr>) = tx_wire s"
  by (simp_all add: rx_wire_def tx_wire_def frame_def)

lemma tx_wire_take:
  "ring_consume (x_tx s) = Some (d, r) \<Longrightarrow> tx_wire s = frame s (d_addr d) (d_len d) # tx_wire (s\<lparr>x_tx := r\<rparr>)"
  by (simp add: tx_wire_def frame_def ring_consume_Some(1))

lemma tx_wire_flags [simp]: "tx_wire (s\<lparr>x_tx := (x_tx s)\<lparr>r_flags := f\<rparr>\<rparr>) = tx_wire s"
  by (simp add: tx_wire_def frame_def ring_items_def ring_count_def ring_slot_def)

lemma rx_wire_deliver:
  assumes "owns s kr kt ur ut" "ring_count (x_rx s) < unat (r_size (x_rx s))"
  shows "rx_wire (s\<lparr>x_rx := peer_produce d (x_rx s)\<rparr>) = rx_wire s @ [frame s (d_addr d) (d_len d)]"
  using assms by (simp add: rx_wire_def frame_def owns_def rings_ok_def ring_items_peer_produce)

lemma kernel_step_wires:
  assumes "kernel_step (s, kr, kt) (s', kr', kt')" "owns s kr kt ur ut" "tx_fits s"
  shows "rx_wire s' = rx_wire s \<or> (\<exists>f. rx_wire s' = rx_wire s @ [f])"
    and "tx_wire s' = tx_wire s \<or> (\<exists>f. tx_wire s = f # tx_wire s')"
  using assms(1)
  by (cases rule: kernel_step.cases;
      use dma_wires [OF assms(2) _ assms(3)] rx_wire_deliver [OF assms(2)] tx_wire_take [of s] in auto)+

section \<open>What the kernel can do\<close>

lemma kernel_delivers:
  assumes "owns s kr kt ur ut" "tx_fits s" "ring_items (x_fill s) \<noteq> []" "length f \<le> unat (x_frame_size s)"
  shows "\<exists>s'. kernel_step\<^sup>*\<^sup>* (s, kr, kt) (s', kr, kt) \<and> owns s' kr kt ur ut
    \<and> rx_wire s' = rx_wire s @ [f] \<and> tx_wire s' = tx_wire s
    \<and> (\<exists>r m q. s' = s\<lparr>x_fill := r, x_umem := m, x_rx := q\<rparr>)"
proof -
  obtain a r where r: "ring_consume (x_fill s) = Some (a, r)"
    using assms(3) ring_consume_None [of "x_fill s"] by auto
  let ?m = "write_mem (x_umem s) (unat a) f" and ?d = "\<lparr>d_addr = a, d_len = of_nat (length f), d_options = 0\<rparr>"
  let ?taken = "s\<lparr>x_fill := r\<rparr>" and ?written = "s\<lparr>x_fill := r, x_umem := write_mem (x_umem s) (unat a) f\<rparr>"
  have a: "frame_base s a = a"
    using ring_consume_Some(1) [OF r] by (intro owned_aligned [OF assms(1)]) (simp add: rx_owners_def)
  have len: "unat (of_nat (length f) :: u32) = length f"
    using assms(4) u32_bound [of "x_frame_size s"] by (simp add: unat_of_nat)
  have outside: "?m i = x_umem s i" if "i < unat a \<or> unat a + unat (x_frame_size s) \<le> i" for i
    using that assms(4) by (auto simp: write_mem_def)
  have k1: "kernel_step (s, kr, kt) (?taken, add_mset a kr, kt)"
    using kernel_step.fill_take [OF r, of kr kt] a by simp
  note o1 = owns_kernel_step [OF k1 assms(1)]
  have k2: "kernel_step (?taken, add_mset a kr, kt) (?written, add_mset a kr, kt)"
    using kernel_step.dma [of a "add_mset a kr" ?taken ?m kt] outside by simp
  note o2 = owns_kernel_step [OF k2 o1]
  have w: "rx_wire ?written = rx_wire s" "tx_wire ?written = tx_wire s"
    using dma_wires [OF o1, of a ?m] assms(2) outside by (simp_all add: tx_fits_def)
  have room: "ring_count (x_rx ?written) < unat (r_size (x_rx ?written))"
    using owns_counts(1) [OF o2] assms(1) by (simp add: owns_def rings_ok_def)
  have k3: "kernel_step (?written, add_mset a kr, kt) (?written\<lparr>x_rx := peer_produce ?d (x_rx s)\<rparr>, kr, kt)"
    using kernel_step.rx_deliver [of ?written ?d "add_mset a kr" kt] room a assms(4) len
    by (simp add: desc_fits_def)
  have "frame ?written a (of_nat (length f)) = f"
    using len by (simp add: frame_def read_write_same)
  then have "rx_wire (?written\<lparr>x_rx := peer_produce ?d (x_rx s)\<rparr>) = rx_wire s @ [f]"
    using rx_wire_deliver [OF o2 room, of ?d] w(1) by simp
  then show ?thesis
    using k1 k2 k3 owns_kernel_step [OF k3 o2] w(2)
    by (intro exI [of _ "?written\<lparr>x_rx := peer_produce ?d (x_rx s)\<rparr>"])
       (auto intro: converse_rtranclp_into_rtranclp)
qed

text \<open>Taking the oldest transmit frame and returning it.\<close>

lemma kernel_transmits:
  assumes "owns s kr kt ur ut" "ring_consume (x_tx s) = Some (d, r)"
  shows "kernel_step (s, kr, kt) (s\<lparr>x_tx := r\<rparr>, kr, add_mset (d_addr d) kt)"
    and "kernel_step (s\<lparr>x_tx := r\<rparr>, kr, add_mset (d_addr d) kt)
      (s\<lparr>x_tx := r, x_comp := peer_produce (d_addr d) (x_comp s)\<rparr>, kr, kt)"
    and "tx_room (s\<lparr>x_tx := r, x_comp := peer_produce (d_addr d) (x_comp s)\<rparr>) = Suc (tx_room s)"
proof -
  show k: "kernel_step (s, kr, kt) (s\<lparr>x_tx := r\<rparr>, kr, add_mset (d_addr d) kt)"
    using assms(2) by (rule kernel_step.tx_take)
  note o = owns_kernel_step [OF k assms(1)]
  have room: "ring_count (x_comp s) < unat (r_size (x_comp s))"
    using owns_counts(2) [OF o] assms(1) by (simp add: owns_def rings_ok_def)
  then show "kernel_step (s\<lparr>x_tx := r\<rparr>, kr, add_mset (d_addr d) kt)
      (s\<lparr>x_tx := r, x_comp := peer_produce (d_addr d) (x_comp s)\<rparr>, kr, kt)"
    using kernel_step.tx_complete [of "d_addr d" "add_mset (d_addr d) kt" "s\<lparr>x_tx := r\<rparr>" kr] by simp
  have "length (ring_items (peer_produce (d_addr d) (x_comp s))) = Suc (length (ring_items (x_comp s)))"
    using assms(1) room by (simp add: ring_items_peer_produce owns_def rings_ok_def del: length_ring_items)
  then show "tx_room (s\<lparr>x_tx := r, x_comp := peer_produce (d_addr d) (x_comp s)\<rparr>) = Suc (tx_room s)"
    by (simp add: tx_room_def)
qed

end
