(* ===== verification/Xsk_Resources.thy ===== *)
theory Xsk_Resources
  imports Xsk_Ownership
begin

text \<open>
  The kernel objects an AF\_XDP socket holds: what \<^verbatim>\<open>Xsk::new\<close> acquires, what its error paths
  release, and that dropping the socket releases everything.
\<close>

section \<open>What a successful construction acquires\<close>

text \<open>A mapping is never at address 0.\<close>

definition mmap_nonnull :: "os_xsk \<Rightarrow> bool" where
  "mmap_nonnull os \<longleftrightarrow>
     (\<forall>h n a. os_mmap os h n = Inr a \<longrightarrow> a \<noteq> 0) \<and> (\<forall>r n a. os_mmap_ring os r n = Inr a \<longrightarrow> a \<noteq> 0)"

lemma ring_map_log:
  assumes "mmap_nonnull os" "ring_map os name off sz elem z = (Ok r, l)"
  shows "l = [Mapped (r_map r) (r_map_len r)]" "r_map r \<noteq> 0"
  using assms by (auto simp: ring_map_def mmap_nonnull_def Let_def split: sum.splits prod.splits)

lemma map_rings_log:
  assumes "mmap_nonnull os" "map_rings os off = (Ok (f, c, r, t), l)"
  shows "l = [Mapped (r_map f) (r_map_len f), Mapped (r_map c) (r_map_len c),
      Mapped (r_map r) (r_map_len r), Mapped (r_map t) (r_map_len t)]"
    and "r_map f \<noteq> 0" "r_map c \<noteq> 0" "r_map r \<noteq> 0" "r_map t \<noteq> 0"
proof -
  obtain o1 l1 where m1: "ring_map os Fill_Ring (off Fill_Ring) FILL_SIZE 8 (0 :: u64) = (o1, l1)" by fastforce
  obtain o2 l2 where m2: "ring_map os Comp_Ring (off Comp_Ring) TX_SIZE 8 (0 :: u64) = (o2, l2)" by fastforce
  obtain o3 l3 where m3: "ring_map os Rx_Ring (off Rx_Ring) RX_SIZE 16 zero_desc = (o3, l3)" by fastforce
  obtain o4 l4 where m4: "ring_map os Tx_Ring (off Tx_Ring) TX_SIZE 16 zero_desc = (o4, l4)" by fastforce
  note unfolded = assms(2) [unfolded map_rings_def m1 m2 m3 m4 prod.case]
  have ok: "o1 = Ok f \<and> o2 = Ok c \<and> o3 = Ok r \<and> o4 = Ok t \<and> l = l1 @ l2 @ l3 @ l4"
    using unfolded by (cases o1; cases o2; cases o3; cases o4; simp)
  then have m: "ring_map os Fill_Ring (off Fill_Ring) FILL_SIZE 8 0 = (Ok f, l1)"
    "ring_map os Comp_Ring (off Comp_Ring) TX_SIZE 8 0 = (Ok c, l2)"
    "ring_map os Rx_Ring (off Rx_Ring) RX_SIZE 16 zero_desc = (Ok r, l3)"
    "ring_map os Tx_Ring (off Tx_Ring) TX_SIZE 16 zero_desc = (Ok t, l4)"
    "l = l1 @ l2 @ l3 @ l4"
    using m1 m2 m3 m4 by simp_all
  note logs = m(1-4) [THEN ring_map_log(1) [OF assms(1)]] m(1-4) [THEN ring_map_log(2) [OF assms(1)]]
  show "l = [Mapped (r_map f) (r_map_len f), Mapped (r_map c) (r_map_len c),
      Mapped (r_map r) (r_map_len r), Mapped (r_map t) (r_map_len t)]"
    "r_map f \<noteq> 0" "r_map c \<noteq> 0" "r_map r \<noteq> 0" "r_map t \<noteq> 0"
    using m(5) logs by simp_all
qed

lemma map_umem_log:
  assumes "\<forall>h n a. mmap h n = Inr a \<longrightarrow> a \<noteq> 0" "map_umem mmap len huge = (Ok (a, g), l)"
  shows "l = [Mapped a len]" "a \<noteq> 0"
  using assms by (auto simp: map_umem_def Let_def split: option.splits sum.splits if_splits)

lemma bind_attempts_log:
  "bind_attempts os i q as e s = (Ok s', l) \<Longrightarrow> \<exists>flags. l = [Bound (x_fd s) flags i q]"
  by (induction as arbitrary: e) (auto simp: Let_def split: option.splits)

lemma xsk_drop_update [simp]:
  "xsk_drop (s\<lparr>x_umem := m\<rparr>) = xsk_drop s" "xsk_drop (s\<lparr>x_tx_free := fr\<rparr>) = xsk_drop s"
  "xsk_drop (s\<lparr>x_tx_pending := b\<rparr>) = xsk_drop s" "xsk_drop (s\<lparr>x_bind_label := lbl\<rparr>) = xsk_drop s"
  "xsk_drop (s\<lparr>x_log := l\<rparr>) = xsk_drop s"
  by (simp_all add: xsk_drop_def)

lemma fill_frames_shape:
  "fill_frames p n s = Ok s' \<Longrightarrow>
     s' = s \<or> (\<exists>xs. s' = s\<lparr>x_fill := ring_publish (fold ring_put xs (x_fill s))\<rparr>)"
  unfolding fill_frames_def Let_def fill_loop_eq by (auto split: if_splits)

lemma fold_ring_put_map:
  "r_map (fold ring_put xs r) = r_map r" "r_map_len (fold ring_put xs r) = r_map_len r"
  by (induction xs arbitrary: r) (simp_all add: ring_put_def)

lemma xsk_build_drop:
  assumes "xsk_build p os i q mode s = (Ok s', l)"
  shows "xsk_drop s' = xsk_drop s" "x_fd s' = x_fd s" "\<exists>flags. l = [Bound (x_fd s) flags i q]"
proof -
  obtain s1 where s1: "fill_frames p FILL_SIZE s = Ok s1"
    "bind_attempts os i q (attempts mode) (Custom InvalidInput No_Message) s1 = (Ok s', l)"
    using assms by (cases "fill_frames p FILL_SIZE s") (simp_all add: xsk_build_def)
  have "xsk_drop s1 = xsk_drop s \<and> x_fd s1 = x_fd s"
    using fill_frames_shape [OF s1(1)]
    by (elim disjE exE; simp add: xsk_drop_def ring_drop_def ring_publish_def fold_ring_put_map)
  moreover obtain lbl where "s' = s1\<lparr>x_bind_label := lbl\<rparr>"
    using bind_attempts_Ok [OF s1(2)] by blast
  ultimately show "xsk_drop s' = xsk_drop s" "x_fd s' = x_fd s"
    "\<exists>flags. l = [Bound (x_fd s) flags i q]"
    using bind_attempts_log [OF s1(2)] by simp_all
qed

text \<open>Dropping a socket releases exactly what building it acquired.\<close>

lemma xsk_new_drop:
  assumes "mmap_nonnull os" "xsk_new p os i q mtu hugepage mode = (Ok s, log)"
  shows "live_fds log fds = add_mset (x_fd s) fds"
    and "live_fds (xsk_drop s) (add_mset (x_fd s) fds) = fds"
    and "live_maps (xsk_drop s) (live_maps log maps) = maps"
proof -
  obtain fs fd umem huge l0 off f c r t l l' where
    u: "map_umem (os_mmap os) (unat fs * unat FRAME_COUNT) hugepage = (Ok (umem, huge), l0)"
    and rings: "map_rings os off = (Ok (f, c, r, t), l)"
    and b: "xsk_build p os i q mode (xsk_init fd umem fs huge f c r t) = (Ok s, l')"
    and log: "log = Opened fd # l0 @ l @ l'"
    using xsk_new_Ok [OF assms(2)] by blast
  note rl = map_rings_log [OF assms(1) rings]
  have u: "l0 = [Mapped umem (unat fs * unat FRAME_COUNT)]" "umem \<noteq> 0"
    using map_umem_log [OF _ u] assms(1) by (simp_all add: mmap_nonnull_def)
  obtain flags where l': "l' = [Bound fd flags i q]"
    using xsk_build_drop(3) [OF b] by (auto simp: xsk_init_def)
  have s: "x_fd s = fd" "xsk_drop s = xsk_drop (xsk_init fd umem fs huge f c r t)"
    using xsk_build_drop(1,2) [OF b] by (simp_all add: xsk_init_def)
  have d: "xsk_drop s = [Unmapped umem (unat fs * unat FRAME_COUNT), Closed fd,
      Unmapped (r_map f) (r_map_len f), Unmapped (r_map c) (r_map_len c),
      Unmapped (r_map r) (r_map_len r), Unmapped (r_map t) (r_map_len t)]"
    unfolding s(2) using rl(2-5) u(2) by (simp add: xsk_drop_def xsk_init_def ring_drop_def)
  show "live_fds log fds = add_mset (x_fd s) fds"
    by (simp add: log u rl l' s(1))
  show "live_fds (xsk_drop s) (add_mset (x_fd s) fds) = fds"
    by (simp add: d s(1))
  show "live_maps (xsk_drop s) (live_maps log maps) = maps"
    by (simp add: d log u rl(1) l' add_mset_commute)
qed

section \<open>Error paths\<close>

lemma ring_map_cases:
  assumes "mmap_nonnull os" "ring_map os name off sz elem z = (x, l)"
  shows "(\<exists>r. x = Ok r \<and> l = [Mapped (r_map r) (r_map_len r)] \<and> ring_drop r = [Unmapped (r_map r) (r_map_len r)])
    \<or> (\<exists>e. x = Err e \<and> l = [])"
  using assms by (auto simp: ring_map_def mmap_nonnull_def ring_drop_def Let_def split: sum.splits prod.splits)

text \<open>When a ring cannot be mapped, the rings mapped before it are unmapped.\<close>

lemma map_rings_Err:
  assumes "mmap_nonnull os" "map_rings os off = (Err e, l)"
  shows "live_maps l B = B \<and> live_fds l A = A"
proof -
  obtain o1 l1 where m1: "ring_map os Fill_Ring (off Fill_Ring) FILL_SIZE 8 (0 :: u64) = (o1, l1)" by fastforce
  obtain o2 l2 where m2: "ring_map os Comp_Ring (off Comp_Ring) TX_SIZE 8 (0 :: u64) = (o2, l2)" by fastforce
  obtain o3 l3 where m3: "ring_map os Rx_Ring (off Rx_Ring) RX_SIZE 16 zero_desc = (o3, l3)" by fastforce
  obtain o4 l4 where m4: "ring_map os Tx_Ring (off Tx_Ring) TX_SIZE 16 zero_desc = (o4, l4)" by fastforce
  note unf = assms(2) [unfolded map_rings_def m1 m2 m3 m4 prod.case]
  show ?thesis
    using unf ring_map_cases [OF assms(1) m1] ring_map_cases [OF assms(1) m2]
      ring_map_cases [OF assms(1) m3] ring_map_cases [OF assms(1) m4]
    by (elim disjE exE conjE; auto simp: add_mset_commute)
qed

lemma map_rings_no_panic: "map_rings os off \<noteq> (Panic q, l)"
  by (auto simp: map_rings_def ring_map_def Let_def split: sum.splits prod.splits outcome.splits)

text \<open>
  C36.  When a socket cannot be set up after its memory is mapped, it leaks.  If registering the
  memory or a ring size is refused, or a ring cannot be mapped, \<^verbatim>\<open>Xsk::new\<close> returns the error
  with the descriptor open and the memory mapped, and no owner is left to release them.
\<close>

theorem xsk_new_setup_failure_leaks:
  assumes "mmap_nonnull os" and "frame_size_for p mtu (os_page_size os) = Ok fs" and "os_socket os = Inr fd"
    and "map_umem (os_mmap os) (unat fs * unat FRAME_COUNT) hugepage = (Ok (umem, huge), l)"
    and "register_umem os umem (unat fs * unat FRAME_COUNT) fs = Err e
      \<or> (register_umem os umem (unat fs * unat FRAME_COUNT) fs = Ok ()
         \<and> (\<exists>off l. os_offsets os = Inr off \<and> map_rings os off = (Err e, l)))"
  shows "\<exists>log. xsk_new p os ifindex queue_id mtu hugepage mode = (Err e, log)
    \<and> live_fds log {#} = {#fd#} \<and> live_maps log {#} = {#(umem, unat fs * unat FRAME_COUNT)#}"
proof -
  have u: "l = [Mapped umem (unat fs * unat FRAME_COUNT)]"
    using map_umem_log(1) [OF _ assms(4)] assms(1) by (simp add: mmap_nonnull_def)
  show ?thesis
    using assms(5)
  proof (elim disjE conjE exE)
    assume "register_umem os umem (unat fs * unat FRAME_COUNT) fs = Err e"
    then show ?thesis using assms(2-4) u by (simp add: xsk_new_def Let_def del: frame_count_simps)
  next
    fix off l'
    assume "register_umem os umem (unat fs * unat FRAME_COUNT) fs = Ok ()" "os_offsets os = Inr off"
      "map_rings os off = (Err e, l')"
    then show ?thesis
      using assms(2-4) u map_rings_Err [OF assms(1), of off e l']
      by (simp add: xsk_new_def Let_def del: frame_count_simps)
  qed
qed

text \<open>
  C37.  A refused bind leaks nothing: whatever the bind mode, if every attempt fails, \<^verbatim>\<open>Xsk::new\<close>
  reports the error of the last attempt, with every descriptor closed and every mapping removed.
\<close>

theorem xsk_new_bind_failure_clean:
  assumes "mmap_nonnull os" and "rings_zeroed os" and "ETH_HDR_LEN + mtu \<le> 2 ^ 63" and "os_page_size os < 2 ^ 32"
    and "frame_size_for p mtu (os_page_size os) = Ok fs" and "os_socket os = Inr fd"
    and "map_umem (os_mmap os) (unat fs * unat FRAME_COUNT) hugepage = (Ok (umem, huge), l)"
    and "register_umem os umem (unat fs * unat FRAME_COUNT) fs = Ok ()" and "os_offsets os = Inr off"
    and "map_rings os off = (Ok rings, l')"
    and "\<And>flags. os_bind os flags = Some (errno flags)"
  shows "\<exists>log. xsk_new p os ifindex queue_id mtu hugepage mode =
        (Err (Os_Error (errno (fst (last (attempts mode)) OR XDP_USE_NEED_WAKEUP))), log)
    \<and> live_fds log {#} = {#} \<and> live_maps log {#} = {#}"
proof -
  obtain f c r t where rings: "rings = (f, c, r, t)" by (metis prod_cases4)
  note ro = assms(10) [unfolded rings]
  let ?init = "xsk_init fd umem fs huge f c r t"
  obtain k where k: "11 \<le> k" "k < 32" "fs = 2 ^ k"
    using frame_size_for_Ok [OF assms(3-5)] by blast
  have "umem_ok ?init" using k by (auto simp: umem_ok_def xsk_init_def)
  moreover have "ring_fresh (x_fill ?init) FILL_SIZE"
    using map_rings_fresh(1) [OF assms(2) ro] by (simp add: xsk_init_def)
  ultimately obtain f' where f': "fill_frames p FILL_SIZE ?init = Ok (?init\<lparr>x_fill := f'\<rparr>)"
    "r_map f' = r_map f" "r_map_len f' = r_map_len f"
    using fill_frames_fresh [of ?init p] by (auto simp: xsk_init_def)
  have "bind_attempts os ifindex queue_id (attempts mode) e s =
      (Err (Os_Error (errno (fst (last (attempts mode)) OR XDP_USE_NEED_WAKEUP))), xsk_drop s)" for e s
    using assms(11) by (cases mode) (simp_all add: Let_def)
  then have "xsk_build p os ifindex queue_id mode ?init =
      (Err (Os_Error (errno (fst (last (attempts mode)) OR XDP_USE_NEED_WAKEUP))), xsk_drop (?init\<lparr>x_fill := f'\<rparr>))"
    using f'(1) by (simp add: xsk_build_def)
  moreover have "l = [Mapped umem (unat fs * unat FRAME_COUNT)]" "umem \<noteq> 0"
    using map_umem_log [OF _ assms(7)] assms(1) by (simp_all add: mmap_nonnull_def)
  moreover note map_rings_log [OF assms(1) ro]
  moreover have "xsk_drop (?init\<lparr>x_fill := f'\<rparr>) = [Unmapped umem (unat fs * unat FRAME_COUNT), Closed fd,
      Unmapped (r_map f) (r_map_len f), Unmapped (r_map c) (r_map_len c),
      Unmapped (r_map r) (r_map_len r), Unmapped (r_map t) (r_map_len t)]"
    using calculation(3,5-) f'(2,3) by (simp add: xsk_drop_def xsk_init_def ring_drop_def del: frame_count_simps)
  ultimately show ?thesis
    using assms(5-9) ro by (simp add: xsk_new_def Let_def rings add_mset_commute del: frame_count_simps)
qed

end
