(* ===== verification/Flow.thy ===== *)
theory Flow
  imports Umem_Config "HOL-Library.AList"
begin

text \<open>
  Which packets reach the socket: the BPF maps and the XDP program of \<^verbatim>\<open>src/bpf/xskip.bpf.c\<close>, and
  the flow key user space writes (\<^verbatim>\<open>flow_key\<close> and \<^verbatim>\<open>add_flow_to_ebpf_tracking\<close> of
  \<^verbatim>\<open>src/socket.rs\<close>).  The two sides never share a type: the program builds its key from packet
  bytes, user space from addresses.  They are shown to agree.
\<close>

section \<open>Addresses and maps\<close>

text \<open>\<^verbatim>\<open>std::net::SocketAddrV4\<close>; an IPv4 address is the number whose big-endian bytes are its octets.\<close>

record sock_addr =
  sa_ip :: u32
  sa_port :: u16

text \<open>
  A BPF map is its list of entries, for \<^verbatim>\<open>config_map\<close> as for \<^verbatim>\<open>xsks_map\<close>.  Whether an update is accepted is the
  system's answer (\<open>Some e\<close> if it is refused: the map is full, the index out of range, a permission missing);
  an accepted update sets the key, as \<^verbatim>\<open>BPF_ANY\<close> is documented to.
\<close>

definition map_update ::
  "int option \<Rightarrow> 'k \<Rightarrow> 'v \<Rightarrow> ('k \<times> 'v) list \<Rightarrow> int + ('k \<times> 'v) list" where
  "map_update err k v m = (case err of Some e \<Rightarrow> Inl e | None \<Rightarrow> Inr (AList.update k v m))"

text \<open>A delete of a key that is not there fails and changes nothing; every caller ignores its answer.\<close>

definition map_delete :: "'k \<Rightarrow> ('k \<times> 'v) list \<Rightarrow> ('k \<times> 'v) list" where
  "map_delete k m = AList.delete k m"

text \<open>\<^verbatim>\<open>config_map\<close> and \<^verbatim>\<open>xsks_map\<close> of the loaded skeleton.\<close>

record bpf_maps =
  config_map :: "(bytes \<times> u8) list"
  xsks_map :: "(u32 \<times> int) list"

section \<open>The flow key\<close>

definition flow_key :: "sock_addr \<Rightarrow> sock_addr \<Rightarrow> bytes" where
  "flow_key local remote =
     (let key = replicate 12 0;
          key = copy_at 0 (to_be_bytes32 (sa_ip remote)) key;
          key = copy_at 4 (to_be_bytes16 (sa_port remote)) key;
          key = copy_at 6 (to_be_bytes32 (sa_ip local)) key
      in copy_at 10 (to_be_bytes16 (sa_port local)) key)"

definition add_flow_to_ebpf_tracking ::
  "int option \<Rightarrow> sock_addr \<Rightarrow> sock_addr \<Rightarrow> (bytes \<times> u8) list \<Rightarrow> (bytes \<times> u8) list outcome" where
  "add_flow_to_ebpf_tracking err local remote m =
     (case map_update err (flow_key local remote) 1 m of
        Inl _ \<Rightarrow> Err (Custom Other Insert_Config_Map)
      | Inr m' \<Rightarrow> Ok m')"

section \<open>The XDP program\<close>

datatype xdp_action = XDP_PASS | XDP_REDIRECT int

text \<open>
  The key is the packed \<^verbatim>\<open>struct flow\<close>: source address and port, destination address and port, as
  the bytes sit in the packet.
\<close>

definition flow_tracked :: "(bytes \<times> u8) list \<Rightarrow> bytes \<Rightarrow> bytes \<Rightarrow> bytes \<Rightarrow> bytes \<Rightarrow> bool" where
  "flow_tracked m saddr sport daddr dport \<longleftrightarrow> map_of m (saddr @ sport @ daddr @ dport) \<noteq> None"

text \<open>\<^verbatim>\<open>bpf_redirect_map(&xsks_map, index, XDP_PASS)\<close>: the socket at the index, or the fall-back.\<close>

definition redirect_map :: "(u32 \<times> int) list \<Rightarrow> u32 \<Rightarrow> xdp_action" where
  "redirect_map m index = (case map_of m index of Some fd \<Rightarrow> XDP_REDIRECT fd | None \<Rightarrow> XDP_PASS)"

definition IPPROTO_TCP :: u8 where "IPPROTO_TCP = 6"
definition IPPROTO_UDP :: u8 where "IPPROTO_UDP = 17"

definition xdp_redirect_flow :: "bpf_maps \<Rightarrow> u32 \<Rightarrow> bytes \<Rightarrow> xdp_action" where
  "xdp_redirect_flow maps rx_queue_index pkt =
     (let data_end = length pkt;
          iph = ETH_HDR_LEN
      in if data_end < ETH_HDR_LEN then XDP_PASS
         else if slice 12 14 pkt \<noteq> [0x08, 0x00] then XDP_PASS
         else if data_end < iph + 20 then XDP_PASS
         else let ihl = unat (pkt ! iph AND 0x0f) * 4
         in if ihl < 20 then XDP_PASS
         else let l4 = iph + ihl;
                  protocol = pkt ! (iph + 9);
                  verdict =
                    (if flow_tracked (config_map maps) (slice (iph + 12) (iph + 16) pkt)
                          (slice l4 (l4 + 2) pkt) (slice (iph + 16) (iph + 20) pkt)
                          (slice (l4 + 2) (l4 + 4) pkt)
                     then redirect_map (xsks_map maps) rx_queue_index else XDP_PASS)
         in if protocol = IPPROTO_TCP then if data_end < l4 + 20 then XDP_PASS else verdict
            else if protocol = IPPROTO_UDP then if data_end < l4 + 8 then XDP_PASS else verdict
            else XDP_PASS)"

section \<open>What the program decides, in terms of addresses\<close>

text \<open>
  The specification: the source and destination of a well-formed IPv4 TCP or UDP packet, decoded.
\<close>

definition packet_flow :: "bytes \<Rightarrow> (sock_addr \<times> sock_addr) option" where
  "packet_flow pkt =
     (if length pkt < 34 \<or> slice 12 14 pkt \<noteq> [0x08, 0x00] then None
      else let l4 = 14 + unat (pkt ! 14 AND 0x0f) * 4;
               need = (if pkt ! 23 = IPPROTO_TCP then Some 20
                       else if pkt ! 23 = IPPROTO_UDP then Some 8 else None)
      in case need of
           None \<Rightarrow> None
         | Some n \<Rightarrow>
             if l4 < 34 \<or> length pkt < l4 + n then None
             else Some (\<lparr>sa_ip = from_be_bytes32 (slice 26 30 pkt),
                         sa_port = from_be_bytes16 (slice l4 (l4 + 2) pkt)\<rparr>,
                        \<lparr>sa_ip = from_be_bytes32 (slice 30 34 pkt),
                         sa_port = from_be_bytes16 (slice (l4 + 2) (l4 + 4) pkt)\<rparr>))"

lemma flow_key_eq:
  "flow_key local remote =
     to_be_bytes32 (sa_ip remote) @ to_be_bytes16 (sa_port remote)
     @ to_be_bytes32 (sa_ip local) @ to_be_bytes16 (sa_port local)"
  by (simp add: flow_key_def copy_at_def be16.enc_length be32.enc_length numeral_eq_Suc)

lemma flow_key_inj:
  "flow_key l r = flow_key l' r' \<longleftrightarrow> l = l' \<and> r = r'"
  by (auto simp: flow_key_eq be16.enc_append_eq_iff be32.enc_append_eq_iff be16.enc_eq_iff)

lemma verdict_eq:
  assumes "l4 + 4 \<le> length pkt" "34 \<le> length pkt"
  shows "slice 26 30 pkt @ slice l4 (l4 + 2) pkt @ slice 30 34 pkt @ slice (l4 + 2) (l4 + 4) pkt =
     flow_key \<lparr>sa_ip = from_be_bytes32 (slice 30 34 pkt),
               sa_port = from_be_bytes16 (slice (l4 + 2) (l4 + 4) pkt)\<rparr>
              \<lparr>sa_ip = from_be_bytes32 (slice 26 30 pkt),
               sa_port = from_be_bytes16 (slice l4 (l4 + 2) pkt)\<rparr>"
  using assms by (simp add: flow_key_eq be16.enc_dec be32.enc_dec length_slice)

section \<open>The map interface\<close>

text \<open>
  What user space relies on from a BPF map: an accepted update changes one key, a delete removes one
  key, and a refused update is reported.
\<close>

locale bpf_map =
  fixes update :: "int option \<Rightarrow> 'k \<Rightarrow> 'v \<Rightarrow> ('k \<times> 'v) list \<Rightarrow> int + ('k \<times> 'v) list"
    and delete :: "'k \<Rightarrow> ('k \<times> 'v) list \<Rightarrow> ('k \<times> 'v) list"
  assumes update_lookup: "update err k v m = Inr m' \<Longrightarrow> map_of m' = (map_of m)(k \<mapsto> v)"
    and delete_lookup: "map_of (delete k m) = (map_of m)(k := None)"
    and update_refused: "update (Some e) k v m = Inl e"
begin

text \<open>An entry that was not there before an update is gone after the delete, whatever else changed.\<close>

lemma update_delete:
  "update err k v m = Inr m' \<Longrightarrow> map_of m k = None \<Longrightarrow> map_of (delete k m') = map_of m"
  by (auto simp: delete_lookup update_lookup)

lemma update_delete_frame:
  "update err k v m = Inr m' \<Longrightarrow> k' \<noteq> k \<Longrightarrow> map_of (delete k m') k' = map_of m k'"
  by (simp add: delete_lookup update_lookup)

lemma update_present: "update err k v m = Inr m' \<Longrightarrow> map_of m' k = Some v"
  by (simp add: update_lookup)

lemma update_accepted: "update err k v m = Inr m' \<Longrightarrow> err = None"
  using update_refused by (cases err) auto

end

interpretation bpf: bpf_map map_update map_delete
  by unfold_locales (auto simp: map_update_def map_delete_def update_conv' delete_conv' split: option.splits)

section \<open>Properties\<close>

lemma xdp_redirect_eq:
  "xdp_redirect_flow maps q pkt =
     (case packet_flow pkt of
        None \<Rightarrow> XDP_PASS
      | Some (src, dst) \<Rightarrow>
          if map_of (config_map maps) (flow_key dst src) \<noteq> None then redirect_map (xsks_map maps) q
          else XDP_PASS)"
proof (cases "length pkt < 34 \<or> slice 12 14 pkt \<noteq> [0x08, 0x00]")
  case True
  then show ?thesis
    by (auto simp: xdp_redirect_flow_def packet_flow_def ETH_HDR_LEN_def Let_def)
next
  case False
  then have len: "34 \<le> length pkt" and ety: "slice 12 14 pkt = [0x08, 0x00]" by auto
  define ihl where "ihl = unat (pkt ! 14 AND 0x0f) * 4"
  have key: "slice 26 30 pkt @ slice (14 + ihl) (14 + ihl + 2) pkt @ slice 30 34 pkt
      @ slice (14 + ihl + 2) (14 + ihl + 4) pkt =
     flow_key \<lparr>sa_ip = from_be_bytes32 (slice 30 34 pkt),
               sa_port = from_be_bytes16 (slice (14 + ihl + 2) (14 + ihl + 4) pkt)\<rparr>
              \<lparr>sa_ip = from_be_bytes32 (slice 26 30 pkt),
               sa_port = from_be_bytes16 (slice (14 + ihl) (14 + ihl + 2) pkt)\<rparr>"
    if "14 + ihl + 8 \<le> length pkt"
    using that len by (intro verdict_eq) simp_all
  show ?thesis
    using len ety key
    by (auto simp: xdp_redirect_flow_def packet_flow_def ETH_HDR_LEN_def Let_def flow_tracked_def
        ihl_def [symmetric] IPPROTO_TCP_def IPPROTO_UDP_def)
qed

text \<open>
  C18.  The XDP program is equivalent to its specification on addresses: for every packet, whatever its
  length and contents, it passes anything that is not a complete IPv4 TCP or UDP header, and
  otherwise redirects exactly when the flow key of the decoded endpoints (destination as local,
  source as remote) is in \<^verbatim>\<open>config_map\<close>, to the socket registered for the receive queue.
\<close>

theorem xdp_redirect_flow_spec:
  "xdp_redirect_flow maps q pkt =
     (case packet_flow pkt of
        None \<Rightarrow> XDP_PASS
      | Some (src, dst) \<Rightarrow>
          if map_of (config_map maps) (flow_key dst src) \<noteq> None then redirect_map (xsks_map maps) q
          else XDP_PASS)"
  by (rule xdp_redirect_eq)

text \<open>
  C19.  Inserting a flow redirects that flow and nothing else.  After \<^verbatim>\<open>add_flow_to_ebpf_tracking\<close>
  succeeds for \<open>(local, remote)\<close>, a packet from the remote to the local endpoint goes to the socket on
  its queue; the verdict on every other packet is what it was, in particular on a copy of our own
  output, which travels from local to remote.
\<close>

theorem add_flow_redirects_only_that_flow:
  assumes "add_flow_to_ebpf_tracking err local remote (config_map maps) = Ok m"
  shows "(packet_flow pkt = Some (remote, local) \<longrightarrow>
            xdp_redirect_flow (maps\<lparr>config_map := m\<rparr>) q pkt = redirect_map (xsks_map maps) q)
       \<and> (packet_flow pkt \<noteq> Some (remote, local) \<longrightarrow>
            xdp_redirect_flow (maps\<lparr>config_map := m\<rparr>) q pkt = xdp_redirect_flow maps q pkt)"
proof -
  have "map_update err (flow_key local remote) 1 (config_map maps) = Inr m"
    using assms by (simp add: add_flow_to_ebpf_tracking_def split: sum.splits)
  then have m: "map_of m = (map_of (config_map maps))(flow_key local remote \<mapsto> 1)"
    by (rule bpf.update_lookup)
  show ?thesis
    by (auto simp: xdp_redirect_eq m flow_key_inj split: option.splits)
qed

text \<open>The endpoints of the test \<^verbatim>\<open>flow_key_matches_the_bpf_struct_layout\<close>, and a UDP packet between them.\<close>

definition sample_local :: sock_addr where
  "sample_local = \<lparr>sa_ip = 0x0a630001, sa_port = 49160\<rparr>"

definition sample_remote :: sock_addr where
  "sample_remote = \<lparr>sa_ip = 0x0a630002, sa_port = 6667\<rparr>"

definition sample_packet :: bytes where
  "sample_packet =
     [0x02,0,0,0,0,1, 0x02,0,0,0,0,2, 0x08,0x00,
      0x45,0,0,29, 0,0,0,0, 64,17,0,0, 10,99,0,2, 10,99,0,1,
      0x1a,0x0b, 0xc0,0x08, 0,9, 0,0, 0x78]"

lemma sample_packet_flow: "packet_flow sample_packet = Some (sample_remote, sample_local)"
  by (simp add: packet_flow_def sample_packet_def slice_def from_be_bytes32_def from_be_bytes16_def
      IPPROTO_TCP_def IPPROTO_UDP_def sample_local_def sample_remote_def Let_def)

lemma sample_add_flow:
  "add_flow_to_ebpf_tracking None sample_local sample_remote [] =
     Ok [([10,99,0,2, 0x1a,0x0b, 10,99,0,1, 0xc0,0x08], 1)]"
  by (simp add: add_flow_to_ebpf_tracking_def map_update_def flow_key_eq
      to_be_bytes32_def to_be_bytes16_def sample_local_def sample_remote_def drop_bit_eq_div)

theorem add_flow_redirects_only_that_flow_witness:
  "packet_flow sample_packet = Some (sample_remote, sample_local)
   \<and> xdp_redirect_flow
       \<lparr>config_map = [([10,99,0,2, 0x1a,0x0b, 10,99,0,1, 0xc0,0x08], 1)], xsks_map = [(0, 5)]\<rparr> 0 sample_packet
     = XDP_REDIRECT 5"
  using add_flow_redirects_only_that_flow
    [of None sample_local sample_remote "\<lparr>config_map = [], xsks_map = [(0, 5)]\<rparr>", simplified,
     OF sample_add_flow, of sample_packet 0]
  by (simp add: sample_packet_flow redirect_map_def)

end
