(* ===== verification/Framing.thy ===== *)
theory Framing
  imports Flow
begin

text \<open>
  Ethernet, IPv4 and UDP framing of the UDP plane (\<^verbatim>\<open>struct Framing\<close> and \<^verbatim>\<open>checksum_caps\<close> of
  \<^verbatim>\<open>src/socket.rs\<close>).  The code writes the Ethernet header itself and leaves the IPv4 and UDP headers
  to \<^verbatim>\<open>smoltcp::wire\<close>, which is not part of the repository: its functions are the fields of the record
  \<open>wire\<close>, an argument of every definition that calls them, and what the code relies on are the
  predicates \<open>ipv4_wire_laws\<close>, \<open>udp_wire_laws\<close> and \<open>wire_layout\<close>, the documented behaviour of header
  emitters and parsers.
\<close>

section \<open>The header library\<close>

datatype checksum = Checksum_Both | Checksum_Tx | Checksum_Rx | Checksum_None

record checksum_capabilities =
  caps_ipv4 :: checksum
  caps_udp :: checksum
  caps_tcp :: checksum
  caps_icmpv4 :: checksum

definition default_caps :: checksum_capabilities where
  "default_caps =
     \<lparr>caps_ipv4 = Checksum_Both, caps_udp = Checksum_Both, caps_tcp = Checksum_Both,
      caps_icmpv4 = Checksum_Both\<rparr>"

definition checksum_caps :: checksum_capabilities where
  "checksum_caps =
     default_caps\<lparr>caps_ipv4 := Checksum_Tx, caps_tcp := Checksum_Tx, caps_udp := Checksum_Tx,
       caps_icmpv4 := Checksum_Tx\<rparr>"

record ipv4_repr =
  ip_src_addr :: u32
  ip_dst_addr :: u32
  ip_next_header :: u8
  ip_payload_len :: nat
  ip_hop_limit :: u8

record udp_repr =
  udp_src_port :: u16
  udp_dst_port :: u16

text \<open>
  Emitters rewrite a buffer; a packet view is its buffer; \<^verbatim>\<open>payload\<close> and \<^verbatim>\<open>payload_mut\<close> are a range
  of it.  The payload closure of \<^verbatim>\<open>UdpRepr::emit\<close> copies the bytes given here.
\<close>

record wire =
  ipv4_emit :: "ipv4_repr \<Rightarrow> checksum_capabilities \<Rightarrow> bytes \<Rightarrow> bytes"
  ipv4_new_checked :: "bytes \<Rightarrow> bool"
  ipv4_parse :: "bytes \<Rightarrow> checksum_capabilities \<Rightarrow> ipv4_repr option"
  ipv4_payload_range :: "bytes \<Rightarrow> nat \<times> nat"
  udp_emit :: "udp_repr \<Rightarrow> u32 \<Rightarrow> u32 \<Rightarrow> bytes \<Rightarrow> checksum_capabilities \<Rightarrow> bytes \<Rightarrow> bytes"
  udp_new_checked :: "bytes \<Rightarrow> bool"
  udp_parse :: "bytes \<Rightarrow> u32 \<Rightarrow> u32 \<Rightarrow> checksum_capabilities \<Rightarrow> udp_repr option"
  udp_payload_range :: "bytes \<Rightarrow> nat \<times> nat"

section \<open>Framing\<close>

record framing =
  f_src_mac :: bytes
  f_dst_mac :: bytes
  f_local :: sock_addr
  f_remote :: "sock_addr option"

text \<open>
  \<^verbatim>\<open>Framing::build\<close>: the frame after the call and the length written.  \<^verbatim>\<open>expect\<close> and the slice
  \<^verbatim>\<open>frame[ETH_HDR_LEN..total]\<close> are its panics.
\<close>

definition build :: "wire \<Rightarrow> framing \<Rightarrow> bytes \<Rightarrow> bytes \<Rightarrow> (nat \<times> bytes) outcome" where
  "build W f frame payload =
     (case f_remote f of
        None \<Rightarrow> Panic (Expect_Failed ''build without remote'')
      | Some remote \<Rightarrow>
          let total = ETH_HDR_LEN + UDP_OVERHEAD + length payload
          in if length frame < total then Panic Slice_Out_Of_Range
             else
               let frame = copy_at 0 (f_dst_mac f) frame;
                   frame = copy_at 6 (f_src_mac f) frame;
                   frame = copy_at 12 (to_be_bytes16 0x0800) frame;
                   caps = checksum_caps;
                   ip = \<lparr>ip_src_addr = sa_ip (f_local f), ip_dst_addr = sa_ip remote,
                         ip_next_header = IPPROTO_UDP,
                         ip_payload_len = UDP_HEADER_LEN + length payload, ip_hop_limit = 64\<rparr>;
                   packet = ipv4_emit W ip caps (slice ETH_HDR_LEN total frame);
                   udp = \<lparr>udp_src_port = sa_port (f_local f), udp_dst_port = sa_port remote\<rparr>;
                   (a, b) = ipv4_payload_range W packet;
                   datagram = udp_emit W udp (sa_ip (f_local f)) (sa_ip remote) payload caps
                                (slice a b packet)
               in Ok (total, copy_at ETH_HDR_LEN (copy_at a datagram packet) frame))"

definition parse :: "wire \<Rightarrow> framing \<Rightarrow> bytes \<Rightarrow> bytes option" where
  "parse W f frame =
     (case f_remote f of
        None \<Rightarrow> None
      | Some remote \<Rightarrow>
          if length frame < ETH_HDR_LEN \<or> slice 12 14 frame \<noteq> [0x08, 0x00] then None
          else
            let caps = checksum_caps;
                packet = drop ETH_HDR_LEN frame
            in if \<not> ipv4_new_checked W packet then None
               else case ipv4_parse W packet caps of
                 None \<Rightarrow> None
               | Some ip \<Rightarrow>
                   if ip_next_header ip \<noteq> IPPROTO_UDP \<or> ip_src_addr ip \<noteq> sa_ip remote
                      \<or> ip_dst_addr ip \<noteq> sa_ip (f_local f) then None
                   else
                     let (a, b) = ipv4_payload_range W packet;
                         datagram = slice a b packet
                     in if \<not> udp_new_checked W datagram then None
                        else case udp_parse W datagram (ip_src_addr ip) (ip_dst_addr ip) caps of
                          None \<Rightarrow> None
                        | Some udp \<Rightarrow>
                            if udp_src_port udp \<noteq> sa_port remote
                               \<or> udp_dst_port udp \<noteq> sa_port (f_local f) then None
                            else let (c, d) = udp_payload_range W datagram
                                 in Some (slice c d datagram))"

text \<open>The peer's framing, as the tests of the repository build it.\<close>

definition mirror :: "framing \<Rightarrow> sock_addr \<Rightarrow> framing" where
  "mirror f remote =
     \<lparr>f_src_mac = f_dst_mac f, f_dst_mac = f_src_mac f, f_local = remote, f_remote = Some (f_local f)\<rparr>"

section \<open>What is relied on from the header library\<close>

definition no_rx_checks :: "checksum_capabilities \<Rightarrow> bool" where
  "no_rx_checks caps \<longleftrightarrow>
     caps_ipv4 caps \<in> {Checksum_Tx, Checksum_None} \<and> caps_udp caps \<in> {Checksum_Tx, Checksum_None}"

text \<open>
  IPv4: emitting into a buffer of exactly header plus payload writes the 20 header bytes and nothing
  else; any buffer that starts with that header and is long enough is accepted, has its payload at
  the announced range, and parses back to the same fields when checksums are not verified.
\<close>

definition ipv4_wire_laws :: "wire \<Rightarrow> bool" where
  "ipv4_wire_laws W \<longleftrightarrow>
     (\<forall>r caps buf. IPV4_HEADER_LEN + ip_payload_len r < 65536 \<longrightarrow>
        length buf = IPV4_HEADER_LEN + ip_payload_len r \<longrightarrow>
        length (ipv4_emit W r caps buf) = length buf
        \<and> drop IPV4_HEADER_LEN (ipv4_emit W r caps buf) = drop IPV4_HEADER_LEN buf
        \<and> (\<forall>rest caps'. ip_payload_len r \<le> length rest \<longrightarrow> no_rx_checks caps' \<longrightarrow>
             (let p = take IPV4_HEADER_LEN (ipv4_emit W r caps buf) @ rest
              in ipv4_new_checked W p \<and> ipv4_parse W p caps' = Some r
                 \<and> ipv4_payload_range W p
                     = (IPV4_HEADER_LEN, IPV4_HEADER_LEN + ip_payload_len r))))"

text \<open>
  UDP: emitting into a buffer of exactly header plus payload fills it; the result is accepted, its
  payload is the given one, and it parses back to the same ports unless the destination port is 0.
\<close>

definition udp_wire_laws :: "wire \<Rightarrow> bool" where
  "udp_wire_laws W \<longleftrightarrow>
     (\<forall>r src dst payload caps buf. UDP_HEADER_LEN + length payload < 65536 \<longrightarrow>
        length buf = UDP_HEADER_LEN + length payload \<longrightarrow>
        (let u = udp_emit W r src dst payload caps buf
         in length u = length buf \<and> udp_new_checked W u
            \<and> udp_payload_range W u = (UDP_HEADER_LEN, UDP_HEADER_LEN + length payload)
            \<and> drop UDP_HEADER_LEN u = payload
            \<and> (\<forall>caps'. no_rx_checks caps' \<longrightarrow> udp_dst_port r \<noteq> 0 \<longrightarrow>
                 udp_parse W u src dst caps' = Some r)))"

text \<open>Where the fields sit (RFC 791 without options, RFC 768).\<close>

definition wire_layout :: "wire \<Rightarrow> bool" where
  "wire_layout W \<longleftrightarrow>
     (\<forall>r caps buf. IPV4_HEADER_LEN + ip_payload_len r < 65536 \<longrightarrow>
        length buf = IPV4_HEADER_LEN + ip_payload_len r \<longrightarrow>
        (let p = ipv4_emit W r caps buf
         in p ! 0 = 0x45 \<and> p ! 9 = ip_next_header r
            \<and> slice 12 16 p = to_be_bytes32 (ip_src_addr r)
            \<and> slice 16 20 p = to_be_bytes32 (ip_dst_addr r)))
     \<and> (\<forall>r src dst payload caps buf. UDP_HEADER_LEN + length payload < 65536 \<longrightarrow>
        length buf = UDP_HEADER_LEN + length payload \<longrightarrow>
        (let u = udp_emit W r src dst payload caps buf
         in slice 0 2 u = to_be_bytes16 (udp_src_port r)
            \<and> slice 2 4 u = to_be_bytes16 (udp_dst_port r)))"

lemma no_rx_checks_caps [simp]: "no_rx_checks checksum_caps"
  by (simp add: no_rx_checks_def checksum_caps_def default_caps_def)

lemma ipv4_wire_lawsD:
  assumes "ipv4_wire_laws W" "20 + ip_payload_len r < 65536" "length buf = 20 + ip_payload_len r"
  shows "length (ipv4_emit W r caps buf) = length buf"
    and "drop 20 (ipv4_emit W r caps buf) = drop 20 buf"
    and "ip_payload_len r \<le> length rest \<Longrightarrow> ipv4_new_checked W (take 20 (ipv4_emit W r caps buf) @ rest)"
    and "ip_payload_len r \<le> length rest \<Longrightarrow>
           ipv4_parse W (take 20 (ipv4_emit W r caps buf) @ rest) checksum_caps = Some r"
    and "ip_payload_len r \<le> length rest \<Longrightarrow>
           ipv4_payload_range W (take 20 (ipv4_emit W r caps buf) @ rest) = (20, 20 + ip_payload_len r)"
  using assms no_rx_checks_caps unfolding ipv4_wire_laws_def IPV4_HEADER_LEN_def Let_def by blast+

lemma udp_wire_lawsD:
  assumes "udp_wire_laws W" "8 + length payload < 65536" "length buf = 8 + length payload"
  shows "length (udp_emit W r src dst payload caps buf) = length buf"
    and "udp_new_checked W (udp_emit W r src dst payload caps buf)"
    and "udp_payload_range W (udp_emit W r src dst payload caps buf) = (8, 8 + length payload)"
    and "drop 8 (udp_emit W r src dst payload caps buf) = payload"
    and "udp_dst_port r \<noteq> 0 \<Longrightarrow>
           udp_parse W (udp_emit W r src dst payload caps buf) src dst checksum_caps = Some r"
  using assms no_rx_checks_caps unfolding udp_wire_laws_def UDP_HEADER_LEN_def Let_def by blast+

lemma wire_layoutD:
  shows "wire_layout W \<Longrightarrow> 20 + ip_payload_len r < 65536 \<Longrightarrow> length buf = 20 + ip_payload_len r \<Longrightarrow>
           ipv4_emit W r caps buf ! 0 = 0x45"
    and "wire_layout W \<Longrightarrow> 20 + ip_payload_len r < 65536 \<Longrightarrow> length buf = 20 + ip_payload_len r \<Longrightarrow>
           ipv4_emit W r caps buf ! 9 = ip_next_header r"
    and "wire_layout W \<Longrightarrow> 20 + ip_payload_len r < 65536 \<Longrightarrow> length buf = 20 + ip_payload_len r \<Longrightarrow>
           slice 12 16 (ipv4_emit W r caps buf) = to_be_bytes32 (ip_src_addr r)"
    and "wire_layout W \<Longrightarrow> 20 + ip_payload_len r < 65536 \<Longrightarrow> length buf = 20 + ip_payload_len r \<Longrightarrow>
           slice 16 20 (ipv4_emit W r caps buf) = to_be_bytes32 (ip_dst_addr r)"
    and "wire_layout W \<Longrightarrow> 8 + length payload < 65536 \<Longrightarrow> length ubuf = 8 + length payload \<Longrightarrow>
           slice 0 2 (udp_emit W u src dst payload caps ubuf) = to_be_bytes16 (udp_src_port u)"
    and "wire_layout W \<Longrightarrow> 8 + length payload < 65536 \<Longrightarrow> length ubuf = 8 + length payload \<Longrightarrow>
           slice 2 4 (udp_emit W u src dst payload caps ubuf) = to_be_bytes16 (udp_dst_port u)"
  unfolding wire_layout_def IPV4_HEADER_LEN_def UDP_HEADER_LEN_def Let_def by blast+

section \<open>The shape of a built frame\<close>

definition framing_ok :: "framing \<Rightarrow> bool" where
  "framing_ok f \<longleftrightarrow> length (f_src_mac f) = 6 \<and> length (f_dst_mac f) = 6"

definition ip_header_of :: "framing \<Rightarrow> sock_addr \<Rightarrow> nat \<Rightarrow> ipv4_repr" where
  "ip_header_of f remote n =
     \<lparr>ip_src_addr = sa_ip (f_local f), ip_dst_addr = sa_ip remote, ip_next_header = IPPROTO_UDP,
      ip_payload_len = UDP_HEADER_LEN + n, ip_hop_limit = 64\<rparr>"

definition udp_header_of :: "framing \<Rightarrow> sock_addr \<Rightarrow> udp_repr" where
  "udp_header_of f remote = \<lparr>udp_src_port = sa_port (f_local f), udp_dst_port = sa_port remote\<rparr>"

lemma ip_header_of_simps [simp]:
  "ip_src_addr (ip_header_of f r n) = sa_ip (f_local f)" "ip_dst_addr (ip_header_of f r n) = sa_ip r"
  "ip_next_header (ip_header_of f r n) = IPPROTO_UDP" "ip_payload_len (ip_header_of f r n) = 8 + n"
  "udp_src_port (udp_header_of f r) = sa_port (f_local f)" "udp_dst_port (udp_header_of f r) = sa_port r"
  by (simp_all add: ip_header_of_def udp_header_of_def UDP_HEADER_LEN_def)

text \<open>
  A frame is the Ethernet header, the emitted IPv4 header \<open>H\<close>, the emitted datagram \<open>U\<close>, and
  whatever the buffer held behind them.
\<close>

lemma build_shape:
  assumes laws: "ipv4_wire_laws W" "udp_wire_laws W"
    and f: "framing_ok f" "f_remote f = Some r"
    and len: "28 + length payload < 65536" "42 + length payload \<le> length frame"
  shows "\<exists>H U buf ubuf.
    build W f frame payload =
      Ok (42 + length payload,
          f_dst_mac f @ f_src_mac f @ [0x08, 0x00] @ H @ U @ drop (42 + length payload) frame)
    \<and> length buf = 28 + length payload
    \<and> H = take 20 (ipv4_emit W (ip_header_of f r (length payload)) checksum_caps buf)
    \<and> length (ipv4_emit W (ip_header_of f r (length payload)) checksum_caps buf) = 28 + length payload
    \<and> length H = 20 \<and> length ubuf = 8 + length payload \<and> length U = 8 + length payload
    \<and> U = udp_emit W (udp_header_of f r) (sa_ip (f_local f)) (sa_ip r) payload checksum_caps ubuf"
proof -
  let ?n = "length payload"
  define e where "e = copy_at 12 (to_be_bytes16 0x0800) (copy_at 6 (f_src_mac f) (copy_at 0 (f_dst_mac f) frame))"
  define buf where "buf = slice 14 (42 + ?n) e"
  define p where "p = ipv4_emit W (ip_header_of f r ?n) checksum_caps buf"
  define ubuf where "ubuf = slice 20 (28 + ?n) p"
  define U where "U = udp_emit W (udp_header_of f r) (sa_ip (f_local f)) (sa_ip r) payload checksum_caps ubuf"
  have eth: "to_be_bytes16 0x0800 = [0x08, 0x00]"
    by (simp add: to_be_bytes16_def drop_bit_eq_div)
  have e: "e = f_dst_mac f @ f_src_mac f @ [0x08, 0x00] @ drop 14 frame"
    using f(1) len(2) by (simp add: e_def eth copy_at_def framing_ok_def)
  then have lbuf: "length buf = 28 + ?n"
    using f(1) len(2) by (simp add: buf_def slice_def framing_ok_def)
  have v4: "length p = length buf"
    "\<And>rest. 8 + ?n \<le> length rest \<Longrightarrow> ipv4_payload_range W (take 20 p @ rest) = (20, 28 + ?n)"
    using ipv4_wire_lawsD(1,5) [OF laws(1), of "ip_header_of f r ?n" buf] lbuf len(1)
    by (simp_all add: p_def)
  have range: "ipv4_payload_range W p = (20, 28 + ?n)"
    using v4(2) [of "drop 20 p"] v4(1) lbuf by simp
  have lubuf: "length ubuf = 8 + ?n"
    using v4(1) lbuf by (simp add: ubuf_def slice_def)
  have lU: "length U = 8 + ?n"
    using udp_wire_lawsD(1) [OF laws(2), of payload ubuf] lubuf len(1) by (simp add: U_def)
  have pk: "copy_at 20 U p = take 20 p @ U"
    using lU v4(1) lbuf by (simp add: copy_at_def)
  have "build W f frame payload = Ok (42 + ?n, copy_at 14 (copy_at 20 U p) e)"
    using f(2) len(2) range
    by (simp add: build_def Let_def header_len_defs e_def buf_def p_def ubuf_def U_def
        ip_header_of_def udp_header_of_def)
  also have "copy_at 14 (copy_at 20 U p) e =
      f_dst_mac f @ f_src_mac f @ [0x08, 0x00] @ take 20 p @ U @ drop (42 + ?n) frame"
    using f(1) lU v4(1) lbuf by (simp add: pk e copy_at_def framing_ok_def drop_Cons')
  finally show ?thesis
    using lbuf v4(1) lU lubuf
    by (intro exI [of _ "take 20 p"] exI [of _ U] exI [of _ buf] exI [of _ ubuf])
       (simp add: p_def U_def)
qed

section \<open>Reading a built frame\<close>

text \<open>Every reader of a built frame, the peer or a bystander.\<close>

text \<open>What any receiver reads of headers emitted for a payload, with or without padding behind them.\<close>

lemma parse_emitted:
  assumes laws: "ipv4_wire_laws W" "udp_wire_laws W" and "sa_port r \<noteq> 0" "28 + length payload < 65536"
    "length E = 14" "slice 12 14 E = [0x08, 0x00]" "length buf = 28 + length payload" "length ubuf = 8 + length payload"
    and H: "H = take 20 (ipv4_emit W (ip_header_of f r (length payload)) checksum_caps buf)"
    and U: "U = udp_emit W (udp_header_of f r) (sa_ip (f_local f)) (sa_ip r) payload checksum_caps ubuf"
    and "length H = 20" "length U = 8 + length payload"
  shows "parse W g (E @ H @ U @ rest) =
    (if f_remote g = Some (f_local f) \<and> f_local g = r then Some payload else None)"
proof -
  let ?n = "length payload"
  note len = \<open>length H = 20\<close> \<open>length U = 8 + length payload\<close>
  have v4: "ipv4_new_checked W (H @ U @ rest)"
    "ipv4_parse W (H @ U @ rest) checksum_caps = Some (ip_header_of f r ?n)"
    "ipv4_payload_range W (H @ U @ rest) = (20, 28 + ?n)"
    using ipv4_wire_lawsD(3-5) [OF laws(1), of "ip_header_of f r ?n" buf "U @ rest"] assms(4,7) len(2)
    by (simp_all add: H)
  have u: "udp_new_checked W U" "udp_payload_range W U = (8, 8 + ?n)" "drop 8 U = payload"
    "udp_parse W U (sa_ip (f_local f)) (sa_ip r) checksum_caps = Some (udp_header_of f r)"
    using udp_wire_lawsD(2-5) [OF laws(2), of payload ubuf] assms(3,4,8) by (simp_all add: U)
  have "slice 20 (28 + ?n) (H @ U @ rest) = U" "slice 8 (8 + ?n) U = payload"
    "slice 12 14 (E @ H @ U @ rest) = [0x08, 0x00]" "drop 14 (E @ H @ U @ rest) = H @ U @ rest"
    using len u(3) assms(5,6) by (simp_all add: slice_def)
  moreover have "\<not> length (E @ H @ U @ rest) < 14" using assms(5) by simp
  ultimately show ?thesis
    using v4 u by (cases "f_remote g") (auto simp: parse_def ETH_HDR_LEN_def Let_def sock_addr.equality)
qed

lemma build_parse_frame:
  assumes "ipv4_wire_laws W" and "udp_wire_laws W"
    and "framing_ok f" and "f_remote f = Some r" and "sa_port r \<noteq> 0"
    and "UDP_OVERHEAD + length payload < 65536"
    and "ETH_HDR_LEN + UDP_OVERHEAD + length payload \<le> length frame"
  shows "\<exists>frame'. build W f frame payload = Ok (ETH_HDR_LEN + UDP_OVERHEAD + length payload, frame')
    \<and> length frame' = length frame
    \<and> drop (ETH_HDR_LEN + UDP_OVERHEAD + length payload) frame' =
        drop (ETH_HDR_LEN + UDP_OVERHEAD + length payload) frame
    \<and> (\<forall>m\<ge>ETH_HDR_LEN + UDP_OVERHEAD + length payload. \<forall>g.
         parse W g (take m frame') =
           (if f_remote g = Some (f_local f) \<and> f_local g = r then Some payload else None))"
proof -
  let ?n = "length payload"
  have len: "28 + ?n < 65536" "42 + ?n \<le> length frame"
    using assms(6,7) by (simp_all add: header_len_defs)
  let ?E = "f_dst_mac f @ f_src_mac f @ [0x08, 0x00]"
  obtain H U buf ubuf where sh:
    "build W f frame payload = Ok (42 + ?n, ?E @ H @ U @ drop (42 + ?n) frame)"
    "length buf = 28 + ?n" "H = take 20 (ipv4_emit W (ip_header_of f r ?n) checksum_caps buf)"
    "length H = 20" "length ubuf = 8 + ?n" "length U = 8 + ?n"
    "U = udp_emit W (udp_header_of f r) (sa_ip (f_local f)) (sa_ip r) payload checksum_caps ubuf"
    using build_shape [OF assms(1-4) len] by auto
  have E: "length ?E = 14" "slice 12 14 ?E = [0x08, 0x00]"
    using assms(3) by (simp_all add: framing_ok_def slice_def)
  define F where "F = ?E @ H @ U @ drop (42 + ?n) frame"
  have "parse W g (take m F) =
      (if f_remote g = Some (f_local f) \<and> f_local g = r then Some payload else None)"
    if m: "42 + ?n \<le> m" for m g
  proof -
    have "take m F = ?E @ H @ U @ take (m - (42 + ?n)) (drop (42 + ?n) frame)"
      using m E(1) sh(4,6) by (simp add: F_def take_Cons')
    then show ?thesis
      using parse_emitted [OF assms(1,2,5) len(1) E sh(2,5,3,7,4,6)] by simp
  qed
  moreover have "length F = length frame" "drop (42 + ?n) F = drop (42 + ?n) frame"
    using E(1) sh(4,6) len(2) by (simp_all add: F_def drop_Cons')
  moreover have "build W f frame payload = Ok (42 + ?n, F)"
    using sh(1) by (simp add: F_def)
  ultimately show ?thesis
    by (intro exI [of _ F]) (simp add: header_len_defs)
qed

section \<open>Properties\<close>

text \<open>
  C15.  Framing round trip and flow separation.  With the MAC addresses set and a connected remote on a
  non-zero port, \<^verbatim>\<open>build\<close> writes any payload that fits an IPv4 packet into any buffer that holds it,
  without a panic, returns the frame's length and leaves the buffer behind the frame alone.  Every
  framing \<open>g\<close> then parses the frame, with or without trailing padding, to exactly the payload if it is
  the peer of that flow, and rejects it otherwise.
\<close>

theorem build_parse:
  assumes "ipv4_wire_laws W" and "udp_wire_laws W"
    and "framing_ok f" and "f_remote f = Some r" and "sa_port r \<noteq> 0"
    and "UDP_OVERHEAD + length payload < 65536"
    and "ETH_HDR_LEN + UDP_OVERHEAD + length payload \<le> length frame"
  shows "\<exists>frame'. build W f frame payload = Ok (ETH_HDR_LEN + UDP_OVERHEAD + length payload, frame')
    \<and> length frame' = length frame
    \<and> drop (ETH_HDR_LEN + UDP_OVERHEAD + length payload) frame' =
        drop (ETH_HDR_LEN + UDP_OVERHEAD + length payload) frame
    \<and> (\<forall>m\<ge>ETH_HDR_LEN + UDP_OVERHEAD + length payload. \<forall>g.
         parse W g (take m frame') =
           (if f_remote g = Some (f_local f) \<and> f_local g = r then Some payload else None))"
  using assms by (rule build_parse_frame)

lemma built_frame_flow:
  assumes "ipv4_wire_laws W" "udp_wire_laws W" "wire_layout W" "framing_ok f" "f_remote f = Some r"
    "UDP_OVERHEAD + length payload < 65536" "ETH_HDR_LEN + UDP_OVERHEAD + length payload \<le> length frame"
    "build W f frame payload = Ok (n, frame')" "n \<le> m"
  shows "packet_flow (take m frame') = Some (f_local f, r)"
proof -
  let ?n = "length payload"
  have len: "28 + ?n < 65536" "42 + ?n \<le> length frame"
    using assms(6,7) by (simp_all add: header_len_defs)
  obtain H U buf ubuf where sh:
    "build W f frame payload =
      Ok (42 + ?n, f_dst_mac f @ f_src_mac f @ [0x08, 0x00] @ H @ U @ drop (42 + ?n) frame)"
    "length buf = 28 + ?n"
    "H = take 20 (ipv4_emit W (ip_header_of f r ?n) checksum_caps buf)"
    "length H = 20" "length ubuf = 8 + ?n" "length U = 8 + ?n"
    "U = udp_emit W (udp_header_of f r) (sa_ip (f_local f)) (sa_ip r) payload checksum_caps ubuf"
    using build_shape [OF assms(1,2,4,5) len] by blast
  have macs: "length (f_dst_mac f) = 6" "length (f_src_mac f) = 6"
    using assms(4) by (simp_all add: framing_ok_def)
  define rest where "rest = take (m - (42 + ?n)) (drop (42 + ?n) frame)"
  have fr: "take m frame' = f_dst_mac f @ f_src_mac f @ [0x08, 0x00] @ H @ U @ rest"
    using assms(8,9) sh(1,4,6) macs by (auto simp: rest_def take_Cons')
  have H: "H ! 0 = 0x45" "H ! 9 = IPPROTO_UDP" "slice 12 16 H = to_be_bytes32 (sa_ip (f_local f))"
    "slice 16 20 H = to_be_bytes32 (sa_ip r)"
    using wire_layoutD(1-4) [OF assms(3), of "ip_header_of f r ?n" buf checksum_caps] sh(2) len(1)
    by (simp_all add: sh(3) slice_take)
  have U: "slice 0 2 U = to_be_bytes16 (sa_port (f_local f))" "slice 2 4 U = to_be_bytes16 (sa_port r)"
    using wire_layoutD(5,6) [OF assms(3), of payload ubuf] sh(5) len(1) by (simp_all add: sh(7))
  define E where "E = f_dst_mac f @ f_src_mac f @ [0x08, 0x00]"
  have E: "length E = 14" "slice 12 14 E = [0x08, 0x00]"
    using macs by (simp_all add: E_def slice_def)
  have fr: "take m frame' = E @ H @ U @ rest" by (simp add: fr E_def)
  show "packet_flow (take m frame') = Some (f_local f, r)"
    unfolding fr using E sh(4,6) H U
    by (simp add: packet_flow_def Let_def nth_append slice_append_left slice_append_right
        be16.dec_enc be32.dec_enc IPPROTO_TCP_def IPPROTO_UDP_def)
qed

text \<open>
  C20.  What one side builds, the other side's XDP program recognises: with the header fields where
  RFC 791 and RFC 768 put them, a frame built by \<open>f\<close> is to the XDP program a packet from \<open>f\<close>'s local
  to its remote endpoint.  So the program of the peer, once the peer has connected (inserted the flow
  with its own endpoint as local), redirects the frame to the peer's socket.
\<close>

theorem built_frame_is_redirected:
  assumes "ipv4_wire_laws W" and "udp_wire_laws W" and "wire_layout W"
    and "framing_ok f" and "f_remote f = Some r"
    and "UDP_OVERHEAD + length payload < 65536"
    and "ETH_HDR_LEN + UDP_OVERHEAD + length payload \<le> length frame"
    and "build W f frame payload = Ok (n, frame')" and "n \<le> m"
    and "add_flow_to_ebpf_tracking err r (f_local f) (config_map maps) = Ok cm"
  shows "packet_flow (take m frame') = Some (f_local f, r)
    \<and> xdp_redirect_flow (maps\<lparr>config_map := cm\<rparr>) q (take m frame') = redirect_map (xsks_map maps) q"
proof -
  have "map_of cm = (map_of (config_map maps))(flow_key r (f_local f) \<mapsto> 1)"
    using assms(10)
    by (auto simp: add_flow_to_ebpf_tracking_def split: sum.splits dest: bpf.update_lookup)
  with built_frame_flow [OF assms(1-9)] show ?thesis
    by (simp add: xdp_redirect_eq)
qed

end
