(* ===== verification/Wire_Sample.thy ===== *)
theory Wire_Sample
  imports Framing
begin

text \<open>
  A header codec that follows RFC 791 and RFC 768.  It is not a model of \<^verbatim>\<open>smoltcp::wire\<close>: it shows
  that the laws required of a header library can hold together, and it is the concrete library the
  examples of the development run on.
\<close>

fun sum16 :: "bytes \<Rightarrow> nat" where
  "sum16 (a # b # r) = 256 * unat a + unat b + sum16 r"
| "sum16 [a] = 256 * unat a"
| "sum16 [] = 0"

definition inet_checksum :: "bytes \<Rightarrow> u16" where
  "inet_checksum bs =
     (let n = sum16 bs; n = n mod 65536 + n div 65536; n = n mod 65536 + n div 65536
      in of_nat (65535 - n))"

definition rfc_ipv4_header :: "ipv4_repr \<Rightarrow> bytes \<Rightarrow> bytes" where
  "rfc_ipv4_header r ck =
     [0x45, 0] @ to_be_bytes16 (of_nat (20 + ip_payload_len r)) @ [0, 0, 0x40, 0]
     @ [ip_hop_limit r, ip_next_header r] @ ck
     @ to_be_bytes32 (ip_src_addr r) @ to_be_bytes32 (ip_dst_addr r)"

definition ipv4_hdr_len :: "bytes \<Rightarrow> nat" where
  "ipv4_hdr_len p = unat (p ! 0 AND 0x0f) * 4"

definition ipv4_total_len :: "bytes \<Rightarrow> nat" where
  "ipv4_total_len p = unat (from_be_bytes16 (slice 2 4 p))"

definition rfc_ipv4_ok :: "bytes \<Rightarrow> bool" where
  "rfc_ipv4_ok p \<longleftrightarrow>
     20 \<le> length p \<and> ipv4_hdr_len p \<le> ipv4_total_len p \<and> ipv4_total_len p \<le> length p"

definition rfc_udp_len :: "bytes \<Rightarrow> nat" where
  "rfc_udp_len u = unat (from_be_bytes16 (slice 4 6 u))"

definition rfc_wire :: wire where
  "rfc_wire =
     \<lparr>ipv4_emit = (\<lambda>r caps buf.
        rfc_ipv4_header r
          (if caps_ipv4 caps \<in> {Checksum_Both, Checksum_Tx}
           then to_be_bytes16 (inet_checksum (rfc_ipv4_header r [0, 0])) else [0, 0])
        @ drop 20 buf),
      ipv4_new_checked = rfc_ipv4_ok,
      ipv4_parse = (\<lambda>p caps.
        if \<not> rfc_ipv4_ok p \<or> drop_bit 4 (p ! 0) \<noteq> 4
           \<or> (caps_ipv4 caps \<in> {Checksum_Both, Checksum_Rx}
              \<and> inet_checksum (take (ipv4_hdr_len p) p) \<noteq> 0)
        then None
        else Some \<lparr>ip_src_addr = from_be_bytes32 (slice 12 16 p),
                   ip_dst_addr = from_be_bytes32 (slice 16 20 p), ip_next_header = p ! 9,
                   ip_payload_len = ipv4_total_len p - ipv4_hdr_len p, ip_hop_limit = p ! 8\<rparr>),
      ipv4_payload_range = (\<lambda>p. (ipv4_hdr_len p, ipv4_total_len p)),
      udp_emit = (\<lambda>r src dst payload caps buf.
        to_be_bytes16 (udp_src_port r) @ to_be_bytes16 (udp_dst_port r)
        @ to_be_bytes16 (of_nat (8 + length payload)) @ [0, 0] @ payload),
      udp_new_checked = (\<lambda>u. 8 \<le> length u \<and> 8 \<le> rfc_udp_len u \<and> rfc_udp_len u \<le> length u),
      udp_parse = (\<lambda>u src dst caps.
        if from_be_bytes16 (slice 2 4 u) = 0 then None
        else Some \<lparr>udp_src_port = from_be_bytes16 (slice 0 2 u),
                   udp_dst_port = from_be_bytes16 (slice 2 4 u)\<rparr>),
      udp_payload_range = (\<lambda>u. (8, rfc_udp_len u))\<rparr>"

lemma from_be_bytes16_Cons: "from_be_bytes16 [ucast (drop_bit 8 w), ucast w] = w"
  using be16.dec_enc by (simp add: to_be_bytes16_def)

lemma from_be_bytes32_Cons:
  "from_be_bytes32 [ucast (drop_bit 24 w), ucast (drop_bit 16 w), ucast (drop_bit 8 w), ucast w] = w"
  using be32.dec_enc by (simp add: to_be_bytes32_def)

lemma rfc_header_fields:
  fixes rest :: bytes
  assumes "length ck = 2" "20 + ip_payload_len r < 65536"
  defines "p \<equiv> rfc_ipv4_header r ck @ rest"
  shows "length (rfc_ipv4_header r ck) = 20" "p ! 0 = 0x45" "p ! 8 = ip_hop_limit r"
    "p ! 9 = ip_next_header r" "slice 12 16 p = to_be_bytes32 (ip_src_addr r)"
    "slice 16 20 p = to_be_bytes32 (ip_dst_addr r)" "ipv4_hdr_len p = 20"
    "ipv4_total_len p = 20 + ip_payload_len r"
proof -
  obtain a b where ck: "ck = [a, b]" using assms(1) by (auto elim: length_2E)
  show "length (rfc_ipv4_header r ck) = 20"
    by (simp add: rfc_ipv4_header_def ck be16.enc_length be32.enc_length)
  have p: "p = [0x45, 0] @ to_be_bytes16 (of_nat (20 + ip_payload_len r)) @ [0, 0, 0x40, 0,
      ip_hop_limit r, ip_next_header r, a, b]
     @ to_be_bytes32 (ip_src_addr r) @ to_be_bytes32 (ip_dst_addr r) @ rest"
    by (simp add: p_def rfc_ipv4_header_def ck)
  show "p ! 0 = 0x45" "p ! 8 = ip_hop_limit r" "p ! 9 = ip_next_header r"
    "slice 12 16 p = to_be_bytes32 (ip_src_addr r)" "slice 16 20 p = to_be_bytes32 (ip_dst_addr r)"
    by (simp_all add: p to_be_bytes16_def to_be_bytes32_def slice_def)
  then show "ipv4_hdr_len p = 20" by (simp add: ipv4_hdr_len_def)
  have "slice 2 4 p = to_be_bytes16 (of_nat (20 + ip_payload_len r))"
    by (simp add: p to_be_bytes16_def slice_def)
  then show "ipv4_total_len p = 20 + ip_payload_len r"
    using assms(2) by (simp add: ipv4_total_len_def be16.dec_enc unat_of_nat del: of_nat_add)
qed

lemma rfc_ipv4_laws: "ipv4_wire_laws rfc_wire"
  unfolding ipv4_wire_laws_def IPV4_HEADER_LEN_def Let_def
proof (intro allI impI, goal_cases)
  case (1 r caps buf)
  define ck where "ck = (if caps_ipv4 caps \<in> {Checksum_Both, Checksum_Tx}
           then to_be_bytes16 (inet_checksum (rfc_ipv4_header r [0, 0])) else [0, 0])"
  have ck: "length ck = 2" by (simp add: ck_def be16.enc_length)
  have e: "ipv4_emit rfc_wire r caps buf = rfc_ipv4_header r ck @ drop 20 buf"
    by (simp add: rfc_wire_def ck_def)
  have lh: "length (rfc_ipv4_header r ck) = 20"
    by (rule rfc_header_fields(1) [OF ck 1(1)])
  have t: "take 20 (ipv4_emit rfc_wire r caps buf) @ rest = rfc_ipv4_header r ck @ rest" for rest
    by (simp add: e lh)
  have p: "ipv4_new_checked rfc_wire (rfc_ipv4_header r ck @ rest)
      \<and> ipv4_parse rfc_wire (rfc_ipv4_header r ck @ rest) caps' = Some r
      \<and> ipv4_payload_range rfc_wire (rfc_ipv4_header r ck @ rest) = (20, 20 + ip_payload_len r)"
    if "ip_payload_len r \<le> length rest" "no_rx_checks caps'" for rest caps'
  proof -
    let ?p = "rfc_ipv4_header r ck @ rest"
    note h = rfc_header_fields(2-8) [OF ck 1(1), of rest]
    have ok: "rfc_ipv4_ok ?p" using h(6,7) lh that(1) by (simp add: rfc_ipv4_ok_def)
    moreover have "drop_bit 4 (?p ! 0) = 4" by (simp only: h(1)) (simp add: drop_bit_eq_div)
    moreover have "caps_ipv4 caps' \<notin> {Checksum_Both, Checksum_Rx}"
      using that(2) by (auto simp: no_rx_checks_def)
    ultimately show ?thesis
      by (simp only: rfc_wire_def wire.select_convs h be32.dec_enc) simp
  qed
  show ?case
    unfolding t using p 1(2) by (simp add: e lh)
qed

lemma rfc_udp_laws: "udp_wire_laws rfc_wire"
  unfolding udp_wire_laws_def UDP_HEADER_LEN_def Let_def
  by (auto simp: rfc_wire_def rfc_udp_len_def slice_def to_be_bytes16_def from_be_bytes16_Cons
      unat_of_nat simp del: of_nat_add)

lemma rfc_layout: "wire_layout rfc_wire"
  unfolding wire_layout_def IPV4_HEADER_LEN_def UDP_HEADER_LEN_def Let_def
proof (rule conjI, goal_cases)
  case 1
  show ?case
  proof (intro allI impI, goal_cases)
    case (1 r caps buf)
    define ck where "ck = (if caps_ipv4 caps \<in> {Checksum_Both, Checksum_Tx}
             then to_be_bytes16 (inet_checksum (rfc_ipv4_header r [0, 0])) else [0, 0])"
    have ck: "length ck = 2" by (simp add: ck_def be16.enc_length)
    have e: "ipv4_emit rfc_wire r caps buf = rfc_ipv4_header r ck @ drop 20 buf"
      by (simp add: rfc_wire_def ck_def)
    show ?case
      unfolding e using rfc_header_fields(2,4-6) [OF ck 1(1), of "drop 20 buf"] by blast
  qed
next
  case 2
  show ?case by (simp add: rfc_wire_def slice_def to_be_bytes16_def)
qed

section \<open>Examples\<close>

definition sample_framing :: framing where
  "sample_framing =
     \<lparr>f_src_mac = [0x02, 0, 0, 0, 0, 2], f_dst_mac = [0x02, 0, 0, 0, 0, 1],
      f_local = sample_remote, f_remote = Some sample_local\<rparr>"

theorem build_parse_witness:
  "\<exists>frame'. build rfc_wire sample_framing (replicate 2048 0) [0x78, 0x79] = Ok (44, frame')
   \<and> parse rfc_wire (mirror sample_framing sample_local) (take 60 frame') = Some [0x78, 0x79]"
proof -
  have h: "framing_ok sample_framing" "f_remote sample_framing = Some sample_local"
    "sa_port sample_local \<noteq> 0" "UDP_OVERHEAD + length [0x78, 0x79 :: u8] < 65536"
    "ETH_HDR_LEN + UDP_OVERHEAD + length [0x78, 0x79 :: u8] \<le> length (replicate 2048 (0 :: u8))"
    by (simp_all add: framing_ok_def sample_framing_def sample_local_def header_len_defs)
  show ?thesis
    using build_parse [OF rfc_ipv4_laws rfc_udp_laws h]
    by (auto simp: mirror_def sample_framing_def header_len_defs)
qed

theorem built_frame_is_redirected_witness:
  "\<exists>frame'. build rfc_wire sample_framing (replicate 2048 0) [0x78] = Ok (43, frame')
   \<and> packet_flow (take 60 frame') = Some (sample_remote, sample_local)
   \<and> xdp_redirect_flow
       \<lparr>config_map = [([10,99,0,2, 0x1a,0x0b, 10,99,0,1, 0xc0,0x08], 1)], xsks_map = [(0, 5)]\<rparr> 0
       (take 60 frame') = XDP_REDIRECT 5"
proof -
  have h: "framing_ok sample_framing" "f_remote sample_framing = Some sample_local"
    "UDP_OVERHEAD + length [0x78 :: u8] < 65536"
    "ETH_HDR_LEN + UDP_OVERHEAD + length [0x78 :: u8] \<le> length (replicate 2048 (0 :: u8))"
    "f_local sample_framing = sample_remote"
    by (simp_all add: framing_ok_def sample_framing_def header_len_defs)
  obtain frame' where b: "build rfc_wire sample_framing (replicate 2048 0) [0x78] = Ok (43, frame')"
    using build_shape [OF rfc_ipv4_laws rfc_udp_laws h(1,2), of "[0x78]" "replicate 2048 0"] by auto
  have f: "add_flow_to_ebpf_tracking None sample_local (f_local sample_framing)
      (config_map \<lparr>config_map = [], xsks_map = [(0, 5)]\<rparr>) =
      Ok [([10,99,0,2, 0x1a,0x0b, 10,99,0,1, 0xc0,0x08], 1)]"
    by (simp add: h(5) sample_add_flow)
  show ?thesis
    using built_frame_is_redirected [OF rfc_ipv4_laws rfc_udp_laws rfc_layout h(1-4) b _ f, of 60 0] b
    by (simp add: h(5) redirect_map_def)
qed

end
