(* ===== verification/Udp_Plane.thy ===== *)
theory Udp_Plane
  imports Xsk_Queues Framing
begin

text \<open>
  The UDP plane (\<^verbatim>\<open>struct UdpPlane\<close> of \<^verbatim>\<open>src/socket.rs\<close>): one datagram per frame, built in place in the
  UMEM and parsed in place.  Its correctness is stated over what the two rings mean: the byte frames
  queued for transmission, and the payloads of the frames waiting to be received.
\<close>

section \<open>Operations\<close>

record udp_plane =
  up_xsk :: xsk
  up_framing :: framing

definition udp_send :: "wire \<Rightarrow> bytes \<Rightarrow> udp_plane \<Rightarrow> nat outcome \<times> udp_plane" where
  "udp_send W payload u =
     (if f_remote (up_framing u) = None then (Err (Custom NotConnected No_Message), u)
      else case tx_alloc (up_xsk u) of
        (None, s) \<Rightarrow> (Ok (length payload), u\<lparr>up_xsk := s\<rparr>)
      | (Some addr, s) \<Rightarrow>
          (case build W (up_framing u) (frame_mut s addr) payload of
             Ok (n, bs) \<Rightarrow>
               (Ok (length payload), u\<lparr>up_xsk := tx_submit addr (of_nat n) (set_frame s addr bs)\<rparr>)
           | Err e \<Rightarrow> (Err e, u\<lparr>up_xsk := s\<rparr>)
           | Panic p \<Rightarrow> (Panic p, u\<lparr>up_xsk := s\<rparr>)))"

text \<open>\<^verbatim>\<open>recv_into\<close>: what it returns, the caller's buffer after the call, and the plane.\<close>

definition recv_into :: "wire \<Rightarrow> bytes \<Rightarrow> udp_plane \<Rightarrow> nat option \<times> bytes \<times> udp_plane" where
  "recv_into W buf u =
     (if f_remote (up_framing u) = None then (None, buf, u)
      else let s = kick_rx (up_xsk u)
      in case rx_peek s of
           (None, s) \<Rightarrow> (None, buf, u\<lparr>up_xsk := s\<rparr>)
         | (Some (addr, len), s) \<Rightarrow>
             let (n, buf) =
                   (case parse W (up_framing u) (frame s addr len) of
                      None \<Rightarrow> (None, buf)
                    | Some p \<Rightarrow> let n = min (length p) (length buf)
                               in (Some n, copy_at 0 (take n p) buf));
                 s = recycle addr s
             in (case n of Some k \<Rightarrow> if 0 < k then Some k else None | None \<Rightarrow> None,
                 buf, u\<lparr>up_xsk := s\<rparr>))"

section \<open>Sending\<close>

text \<open>A frame the plane built for a payload, in some frame-sized buffer.\<close>

definition frame_for :: "wire \<Rightarrow> framing \<Rightarrow> nat \<Rightarrow> bytes \<Rightarrow> bytes \<Rightarrow> bool" where
  "frame_for W fr n payload f \<longleftrightarrow>
     (\<exists>buf bs. length buf = n
        \<and> build W fr buf payload = Ok (ETH_HDR_LEN + UDP_OVERHEAD + length payload, bs)
        \<and> length bs = n \<and> f = take (ETH_HDR_LEN + UDP_OVERHEAD + length payload) bs)"

lemma frame_for_parse:
  assumes "ipv4_wire_laws W" "udp_wire_laws W" "framing_ok fr" "f_remote fr = Some r" "sa_port r \<noteq> 0"
    "UDP_OVERHEAD + length payload < 65536" "ETH_HDR_LEN + UDP_OVERHEAD + length payload \<le> n"
    "frame_for W fr n payload f"
  shows "parse W g f = (if f_remote g = Some (f_local fr) \<and> f_local g = r then Some payload else None)"
proof -
  obtain buf bs where b: "length buf = n"
    "build W fr buf payload = Ok (ETH_HDR_LEN + UDP_OVERHEAD + length payload, bs)"
    "f = take (ETH_HDR_LEN + UDP_OVERHEAD + length payload) bs"
    using assms(8) by (auto simp: frame_for_def)
  show ?thesis
    using build_parse_frame [OF assms(1-6), of buf] assms(7) b by auto
qed

text \<open>The peer's XDP program sees it as a packet of the flow.\<close>

lemma frame_for_flow:
  assumes "ipv4_wire_laws W" "udp_wire_laws W" "wire_layout W" "framing_ok fr" "f_remote fr = Some r"
    "UDP_OVERHEAD + length payload < 65536" "ETH_HDR_LEN + UDP_OVERHEAD + length payload \<le> n"
    "frame_for W fr n payload f"
  shows "packet_flow f = Some (f_local fr, r)"
  using assms(8) built_frame_flow [OF assms(1-6)] assms(7) by (auto simp: frame_for_def)

lemma frame_for_build:
  assumes "ipv4_wire_laws W" "udp_wire_laws W" "framing_ok fr" "f_remote fr = Some r"
    "UDP_OVERHEAD + length payload < 65536" "ETH_HDR_LEN + UDP_OVERHEAD + length payload \<le> length buf"
  shows "\<exists>bs. build W fr buf payload = Ok (ETH_HDR_LEN + UDP_OVERHEAD + length payload, bs)
    \<and> length bs = length buf \<and> ETH_HDR_LEN + UDP_OVERHEAD + length payload \<le> length bs
    \<and> frame_for W fr (length buf) payload (take (ETH_HDR_LEN + UDP_OVERHEAD + length payload) bs)"
proof -
  have len: "28 + length payload < 65536" "42 + length payload \<le> length buf"
    using assms(5,6) by (simp_all add: header_len_defs)
  obtain H U where sh: "build W fr buf payload =
      Ok (42 + length payload,
          f_dst_mac fr @ f_src_mac fr @ [0x08, 0x00] @ H @ U @ drop (42 + length payload) buf)"
    "length H = 20" "length U = 8 + length payload"
    using build_shape [OF assms(1-4) len] by blast
  then show ?thesis
    using assms(3) len(2) by (auto simp: frame_for_def framing_ok_def header_len_defs)
qed

lemma udp_send_queues:
  assumes "ipv4_wire_laws W" "udp_wire_laws W"
    "framing_ok (up_framing u)" "f_remote (up_framing u) = Some r"
    "UDP_OVERHEAD + length payload < 65536"
    "ETH_HDR_LEN + UDP_OVERHEAD + length payload \<le> unat (x_frame_size (up_xsk u))"
    "owns (up_xsk u) kr kt {#} {#}" "tx_fits (up_xsk u)"
  shows "\<exists>s' fs. udp_send W payload u = (Ok (length payload), u\<lparr>up_xsk := s'\<rparr>)
    \<and> owns s' kr kt {#} {#} \<and> tx_fits s' \<and> x_frame_size s' = x_frame_size (up_xsk u)
    \<and> tx_wire s' = tx_wire (up_xsk u) @ fs \<and> rx_wire s' = rx_wire (up_xsk u)
    \<and> tx_room s' = tx_room (up_xsk u) - 1
    \<and> list_all2 (frame_for W (up_framing u) (unat (x_frame_size (up_xsk u))))
        (if tx_room (up_xsk u) = 0 then [] else [payload]) fs"
proof (cases "tx_alloc (up_xsk u)")
  case (Pair a s1)
  note room = tx_alloc_room [OF Pair] and wire = tx_alloc_wire [OF Pair] and fields = tx_alloc_fields [OF Pair]
  show ?thesis
  proof (cases a)
    case None
    then have "udp_send W payload u = (Ok (length payload), u\<lparr>up_xsk := s1\<rparr>)"
      using Pair assms(4) by (simp add: udp_send_def)
    moreover have "tx_room s1 = tx_room (up_xsk u)"
      using Pair None
      by (auto simp: tx_alloc_def Let_def tx_room_def reclaim_comp_eq ring_count_def split: if_splits)
         (metis length_0_conv length_ring_items ring_count_def)
    ultimately show ?thesis
      using owns_tx_alloc_None(1) [OF assms(7)] wire fields(5) assms(8) Pair None room by auto
  next
    case (Some b)
    have s1: "owns s1 kr kt {#} {#b#}" "tx_fits s1" "x_frame_size s1 = x_frame_size (up_xsk u)"
      using owns_tx_alloc_Some [OF assms(7)] wire fields assms(8) Pair Some by simp_all
    let ?t = "ETH_HDR_LEN + UDP_OVERHEAD + length payload"
    have n: "length (frame_mut s1 b) = unat (x_frame_size (up_xsk u))"
      using s1(3) by (simp add: frame_mut_def)
    obtain bs where
      bs: "build W (up_framing u) (frame_mut s1 b) payload = Ok (?t, bs)"
        "length bs = length (frame_mut s1 b)" "?t \<le> length bs"
        "frame_for W (up_framing u) (length (frame_mut s1 b)) payload (take ?t bs)"
      using frame_for_build [OF assms(1-5), of "frame_mut s1 b"] assms(6) n by auto
    define s' where "s' = tx_submit b (of_nat ?t) (set_frame s1 b bs)"
    have len: "length bs \<le> unat (x_frame_size s1)" "?t \<le> length bs" "?t < 2 ^ 32"
      using bs(2,3) n s1(3) assms(5) by (simp_all add: header_len_defs)
    have "udp_send W payload u = (Ok (length payload), u\<lparr>up_xsk := s'\<rparr>)"
      using Pair Some assms(4) bs(1) by (simp add: udp_send_def s'_def)
    then show ?thesis
      using send_frame [OF s1(1,2) len, folded s'_def] bs(4) n s1(3) wire(1,2) room Some
      by (intro exI [of _ s'] exI [of _ "[take ?t bs]"]) auto
  qed
qed

text \<open>A send makes no system call; it marks the transmit ring if it has queued a frame.\<close>

lemma udp_send_wake:
  assumes "udp_send W c u = (Ok n, u')"
  shows "x_log (up_xsk u') = x_log (up_xsk u)" "x_fd (up_xsk u') = x_fd (up_xsk u)"
    "needs_wakeup (x_tx (up_xsk u')) = needs_wakeup (x_tx (up_xsk u))"
    "x_tx_pending (up_xsk u') \<longleftrightarrow> x_tx_pending (up_xsk u) \<or> tx_room (up_xsk u) \<noteq> 0"
proof -
  obtain a s where a: "tx_alloc (up_xsk u) = (a, s)" by fastforce
  have s: "x_log s = x_log (up_xsk u)" "x_fd s = x_fd (up_xsk u)" "x_tx s = x_tx (up_xsk u)"
    "x_tx_pending s = x_tx_pending (up_xsk u)"
    using a by (auto simp: tx_alloc_def Let_def reclaim_comp_def split: if_splits)
  have room: "a = None \<longleftrightarrow> tx_room (up_xsk u) = 0" using tx_alloc_room [OF a] by (cases a) auto
  have "a = None \<and> up_xsk u' = s \<or> a \<noteq> None \<and> (\<exists>b n bs. up_xsk u' = tx_submit b n (set_frame s b bs))"
    using assms a by (auto simp: udp_send_def split: if_splits option.splits outcome.splits) blast
  then show "x_log (up_xsk u') = x_log (up_xsk u)" "x_fd (up_xsk u') = x_fd (up_xsk u)"
    "needs_wakeup (x_tx (up_xsk u')) = needs_wakeup (x_tx (up_xsk u))"
    "x_tx_pending (up_xsk u') \<longleftrightarrow> x_tx_pending (up_xsk u) \<or> tx_room (up_xsk u) \<noteq> 0"
    using s room
    by (auto simp: tx_submit_def set_frame_def needs_wakeup_def ring_produce_def ring_publish_def ring_put_def)
qed

text \<open>
  C13.  A connected UDP plane sends a payload that fits a frame as one datagram.  \<^verbatim>\<open>send\<close> reports
  the whole payload; either exactly one frame joins the transmit queue, behind the frames already
  there, whose bytes do not change, and of all receivers only the peer of the flow reads it, and reads
  exactly the payload; or nothing is queued, and then all 2048 transmit frames were queued or with the
  kernel.  No frame is lost either way.
\<close>

theorem udp_send_spec:
  assumes "ipv4_wire_laws W" and "udp_wire_laws W"
    and "framing_ok (up_framing u)" and "f_remote (up_framing u) = Some r" and "sa_port r \<noteq> 0"
    and "UDP_OVERHEAD + length payload < 65536"
    and "ETH_HDR_LEN + UDP_OVERHEAD + length payload \<le> unat (x_frame_size (up_xsk u))"
    and "owns (up_xsk u) kr kt {#} {#}" and "tx_fits (up_xsk u)"
  shows "\<exists>s'. udp_send W payload u = (Ok (length payload), u\<lparr>up_xsk := s'\<rparr>)
    \<and> owns s' kr kt {#} {#} \<and> tx_fits s' \<and> rx_wire s' = rx_wire (up_xsk u)
    \<and> (if ring_count (x_tx (up_xsk u)) + size kt < 2048
       then \<exists>f. tx_wire s' = tx_wire (up_xsk u) @ [f]
            \<and> (\<forall>g. parse W g f =
                 (if f_remote g = Some (f_local (up_framing u)) \<and> f_local g = r
                  then Some payload else None))
       else tx_wire s' = tx_wire (up_xsk u))"
proof -
  have "tx_room (up_xsk u) + ring_count (x_tx (up_xsk u)) + size kt = 2048"
    using owns_counts(2) [OF assms(8)] by (simp add: tx_room_def)
  then have "tx_room (up_xsk u) = 0 \<longleftrightarrow> \<not> ring_count (x_tx (up_xsk u)) + size kt < 2048"
    by auto
  moreover obtain s' fs where s': "udp_send W payload u = (Ok (length payload), u\<lparr>up_xsk := s'\<rparr>)"
    "owns s' kr kt {#} {#}" "tx_fits s'" "tx_wire s' = tx_wire (up_xsk u) @ fs"
    "rx_wire s' = rx_wire (up_xsk u)"
    "list_all2 (frame_for W (up_framing u) (unat (x_frame_size (up_xsk u))))
        (if tx_room (up_xsk u) = 0 then [] else [payload]) fs"
    using udp_send_queues [OF assms(1-4,6-9)] by blast
  ultimately show ?thesis
    using frame_for_parse [OF assms(1-7)]
    by (intro exI [of _ s']) (auto simp: list_all2_Cons1)
qed

section \<open>Receiving\<close>

lemma recv_into_queues:
  assumes "owns (up_xsk u) kr kt {#} {#}" and "f_remote (up_framing u) = Some r"
  shows "case rx_wire (up_xsk u) of
      [] \<Rightarrow> recv_into W buf u = (None, buf, u\<lparr>up_xsk := kick_rx (up_xsk u)\<rparr>)
    | f # fs \<Rightarrow> \<exists>s' a.
        recv_into W buf u =
          (case parse W (up_framing u) f of
             None \<Rightarrow> (None, buf, u\<lparr>up_xsk := s'\<rparr>)
           | Some p \<Rightarrow> (if p = [] \<or> buf = [] then None else Some (min (length p) (length buf)),
                       take (length buf) p @ drop (length p) buf, u\<lparr>up_xsk := s'\<rparr>))
        \<and> owns s' kr kt {#} {#} \<and> rx_wire s' = fs
        \<and> ring_items (x_fill s') = ring_items (x_fill (up_xsk u)) @ [a]
        \<and> tx_wire s' = tx_wire (up_xsk u) \<and> tx_fits s' = tx_fits (up_xsk u)
        \<and> x_frame_size s' = x_frame_size (up_xsk u)"
proof -
  let ?s = "kick_rx (up_xsk u)"
  have o: "owns ?s kr kt {#} {#}" using assms(1) by (rule owns_kick_rx)
  show ?thesis
  proof (cases "ring_consume (x_rx (up_xsk u))")
    case None
    then have "rx_wire (up_xsk u) = []" by (simp add: rx_wire_def ring_consume_None)
    moreover have "rx_peek ?s = (None, ?s)" using None by (simp add: rx_peek_def)
    ultimately show ?thesis using assms(2) by (simp add: recv_into_def Let_def)
  next
    case (Some dr)
    obtain d q where d: "ring_consume (x_rx (up_xsk u)) = Some (d, q)" using Some by (cases dr) auto
    let ?taken = "?s\<lparr>x_rx := q\<rparr>" and ?f = "frame (up_xsk u) (d_addr d) (d_len d)"
    have pk: "rx_peek ?s = (Some (d_addr d, d_len d), ?taken)" using d by (simp add: rx_peek_def)
    have o1: "owns ?taken kr kt {#frame_base ?taken (d_addr d)#} {#}"
      using owns_rx_peek(1) [OF o pk] by simp
    have ret: "owns (recycle (d_addr d) ?taken) kr kt {#} {#}"
      "ring_items (x_fill (recycle (d_addr d) ?taken)) = ring_items (x_fill (up_xsk u)) @ [frame_base ?taken (d_addr d)]"
      using owns_recycle [OF o1, of "d_addr d"] by simp_all
    have w: "rx_wire (up_xsk u) = ?f # rx_wire (recycle (d_addr d) ?taken)"
      using ring_consume_Some(1) [OF d] by (simp add: rx_wire_def frame_def recycle_def)
    have "frame ?taken (d_addr d) (d_len d) = ?f" by (simp add: frame_def)
    then have "recv_into W buf u =
        (case parse W (up_framing u) ?f of
             None \<Rightarrow> (None, buf, u\<lparr>up_xsk := recycle (d_addr d) ?taken\<rparr>)
           | Some p \<Rightarrow> (if p = [] \<or> buf = [] then None else Some (min (length p) (length buf)),
                       take (length buf) p @ drop (length p) buf, u\<lparr>up_xsk := recycle (d_addr d) ?taken\<rparr>))"
      using assms(2) pk
      by (auto simp: recv_into_def Let_def copy_at_def min_def split: option.split)
    moreover have "tx_wire (recycle (d_addr d) ?taken) = tx_wire (up_xsk u)"
      "tx_fits (recycle (d_addr d) ?taken) = tx_fits (up_xsk u)"
      by (simp_all add: tx_wire_def tx_fits_def frame_def)
    ultimately show ?thesis using ret w by auto
  qed
qed

text \<open>
  C14.  A connected UDP plane receives in arrival order and returns every frame.  With nothing on the
  RX queue the call only wakes the kernel.  Otherwise the oldest frame leaves the queue and goes back
  to the FILL queue whether or not it was for this flow; if it parses, the buffer starts with its payload,
  cut to the buffer, and the number of bytes copied is returned; if it does not, or the payload is
  empty, the result is \<^const>\<open>None\<close> and the buffer is as it was.
\<close>

theorem recv_into_spec:
  assumes "owns (up_xsk u) kr kt {#} {#}" and "f_remote (up_framing u) = Some r"
  shows "case rx_wire (up_xsk u) of
      [] \<Rightarrow> recv_into W buf u = (None, buf, u\<lparr>up_xsk := kick_rx (up_xsk u)\<rparr>)
    | f # fs \<Rightarrow> \<exists>s' a.
        recv_into W buf u =
          (case parse W (up_framing u) f of
             None \<Rightarrow> (None, buf, u\<lparr>up_xsk := s'\<rparr>)
           | Some p \<Rightarrow> (if p = [] \<or> buf = [] then None else Some (min (length p) (length buf)),
                       take (length buf) p @ drop (length p) buf, u\<lparr>up_xsk := s'\<rparr>))
        \<and> owns s' kr kt {#} {#} \<and> rx_wire s' = fs
        \<and> ring_items (x_fill s') = ring_items (x_fill (up_xsk u)) @ [a]
        \<and> tx_wire s' = tx_wire (up_xsk u)"
  using recv_into_queues [OF assms, of W buf] by (fastforce split: list.splits)

end
