(* ===== verification/Udp_Sample.thy ===== *)
theory Udp_Sample
  imports Udp_Plane Wire_Sample Xsk_System
begin

text \<open>
  The UDP plane on concrete sockets: a freshly built socket that sends, and one to which the kernel has
  delivered a frame.
\<close>

lemma sample_owns: "owns sample_sk {#} {#} {#} {#}"
  using xsys.inv_init [OF sample_init] by (simp add: xsys_owns_def sample_sys_def)

lemma sample_queues:
  "ring_items (x_tx sample_sk) = []" "ring_count (x_rx sample_sk) = 0" "ring_items (x_fill sample_sk) \<noteq> []"
proof -
  have "length (x_tx_free sample_sk) = 2048" by (simp add: sample_fields tx_pool_def)
  then have "length (ring_items (x_tx sample_sk)) = 0"
    using owns_counts(2) [OF sample_owns] by simp
  then show "ring_items (x_tx sample_sk) = []" by (simp only: length_0_conv)
  show rx: "ring_count (x_rx sample_sk) = 0"
    using sample_fields(3) by (metis length_ring_items list.size(3))
  then have "length (ring_items (x_fill sample_sk)) = 2048"
    using owns_counts(1) [OF sample_owns] by simp
  then show "ring_items (x_fill sample_sk) \<noteq> []" by (metis list.size(3) zero_neq_numeral)
qed

definition sample_tx_plane :: udp_plane where
  "sample_tx_plane = \<lparr>up_xsk = sample_sk, up_framing = sample_framing\<rparr>"

theorem udp_send_spec_witness:
  "\<exists>s' f. udp_send rfc_wire [0x78, 0x79] sample_tx_plane = (Ok 2, sample_tx_plane\<lparr>up_xsk := s'\<rparr>)
     \<and> tx_wire s' = [f] \<and> parse rfc_wire (mirror sample_framing sample_local) f = Some [0x78, 0x79]"
proof -
  have h: "framing_ok (up_framing sample_tx_plane)" "f_remote (up_framing sample_tx_plane) = Some sample_local"
    "sa_port sample_local \<noteq> 0" "UDP_OVERHEAD + length [0x78, 0x79 :: u8] < 65536"
    "ETH_HDR_LEN + UDP_OVERHEAD + length [0x78, 0x79 :: u8] \<le> unat (x_frame_size (up_xsk sample_tx_plane))"
    "owns (up_xsk sample_tx_plane) {#} {#} {#} {#}" "tx_fits (up_xsk sample_tx_plane)"
    by (simp_all add: framing_ok_def sample_framing_def sample_local_def header_len_defs sample_fields
        sample_tx_plane_def sample_owns tx_fits_def sample_queues)
  have q: "ring_count (x_tx (up_xsk sample_tx_plane)) = 0"
    using sample_queues(1) by (metis length_ring_items list.size(3) sample_tx_plane_def udp_plane.select_convs(1))
  have "tx_wire (up_xsk sample_tx_plane) = []"
    by (simp add: tx_wire_def sample_queues sample_tx_plane_def)
  then show ?thesis
    using udp_send_spec [OF rfc_ipv4_laws rfc_udp_laws h] q
    by (auto simp: mirror_def sample_tx_plane_def sample_framing_def)
qed

text \<open>
  The kernel takes the oldest FILL entry, writes the sample packet to that frame and delivers it.
\<close>

definition sample_rx_sk :: xsk where
  "sample_rx_sk =
     (case ring_consume (x_fill sample_sk) of
        Some (a, r) \<Rightarrow>
          sample_sk\<lparr>x_fill := r, x_umem := write_mem (x_umem sample_sk) (unat a) sample_packet,
            x_rx := peer_produce \<lparr>d_addr = a, d_len = 43, d_options = 0\<rparr> (x_rx sample_sk)\<rparr>)"

definition sample_rx_plane :: udp_plane where
  "sample_rx_plane = \<lparr>up_xsk = sample_rx_sk, up_framing = mirror sample_framing sample_local\<rparr>"

lemma sample_delivered: "owns sample_rx_sk {#} {#} {#} {#} \<and> rx_wire sample_rx_sk = [sample_packet]"
proof -
  obtain a r where r: "ring_consume (x_fill sample_sk) = Some (a, r)"
    using sample_queues(3) ring_consume_None [of "x_fill sample_sk"] by auto
  let ?d = "\<lparr>d_addr = a, d_len = 43, d_options = 0\<rparr>"
  let ?m = "write_mem (x_umem sample_sk) (unat a) sample_packet"
  let ?taken = "sample_sk\<lparr>x_fill := r\<rparr>"
  let ?written = "sample_sk\<lparr>x_fill := r, x_umem := ?m\<rparr>"
  have a: "frame_base sample_sk a = a"
    using ring_consume_Some(1) [OF r] by (intro owned_aligned [OF sample_owns]) (simp add: rx_owners_def)
  have len: "length sample_packet = 43" by (simp add: sample_packet_def)
  have "kernel_step (sample_sk, {#}, {#}) (?taken, {#a#}, {#})"
    using kernel_step.fill_take [OF r, of "{#}" "{#}"] a by simp
  then have "owns ?taken {#a#} {#} {#} {#}" using sample_owns by (rule owns_kernel_step)
  moreover have "kernel_step (?taken, {#a#}, {#}) (?taken\<lparr>x_umem := ?m\<rparr>, {#a#}, {#})"
    using len by (intro kernel_step.dma [where b = a]) (auto simp: write_mem_def sample_fields)
  ultimately have "owns ?written {#a#} {#} {#} {#}"
    using owns_kernel_step by simp
  moreover have "kernel_step (?written, {#a#}, {#}) (?written\<lparr>x_rx := peer_produce ?d (x_rx ?written)\<rparr>, {#}, {#})"
    using kernel_step.rx_deliver [of ?written ?d "{#a#}" "{#}"] a sample_queues(2) sample_owns
    by (simp add: desc_fits_def sample_fields owns_def rings_ok_def)
  ultimately have "owns (?written\<lparr>x_rx := peer_produce ?d (x_rx ?written)\<rparr>) {#} {#} {#} {#}"
    using owns_kernel_step by blast
  moreover have "ring_items (peer_produce ?d (x_rx sample_sk)) = [?d]"
    using sample_owns sample_queues(2) sample_fields(3)
    by (subst ring_items_peer_produce) (simp_all add: owns_def rings_ok_def)
  ultimately show ?thesis
    using len read_write_same [of "x_umem sample_sk" "unat a" sample_packet]
    by (simp add: sample_rx_sk_def r rx_wire_def frame_def)
qed

lemma sample_parse: "parse rfc_wire (mirror sample_framing sample_local) sample_packet = Some [0x78]"
  by (simp add: parse_def mirror_def sample_framing_def rfc_wire_def rfc_ipv4_ok_def ipv4_hdr_len_def
      ipv4_total_len_def rfc_udp_len_def slice_def sample_packet_def from_be_bytes16_def
      from_be_bytes32_def checksum_caps_def default_caps_def ETH_HDR_LEN_def IPPROTO_UDP_def
      sample_local_def sample_remote_def drop_bit_eq_div Let_def)

theorem recv_into_spec_witness:
  "\<exists>s'. recv_into rfc_wire [0, 0, 0] sample_rx_plane = (Some 1, [0x78, 0, 0], sample_rx_plane\<lparr>up_xsk := s'\<rparr>)
     \<and> rx_wire s' = [] \<and> owns s' {#} {#} {#} {#}"
proof -
  have "owns (up_xsk sample_rx_plane) {#} {#} {#} {#}"
    "f_remote (up_framing sample_rx_plane) = Some sample_remote"
    using sample_delivered by (simp_all add: sample_rx_plane_def mirror_def sample_framing_def)
  from recv_into_spec [OF this, of rfc_wire "[0, 0, 0]"] show ?thesis
    using sample_delivered sample_parse by (auto simp: sample_rx_plane_def)
qed

end
