(* ===== verification/Tcp_Device.thy ===== *)
theory Tcp_Device
  imports Xsk_Queues Framing
begin

text \<open>
  The smoltcp device over the rings (\<^verbatim>\<open>struct XskDevice\<close>, \<^verbatim>\<open>XskRxToken\<close> and \<^verbatim>\<open>XskTxToken\<close> of
  \<^verbatim>\<open>src/socket.rs\<close>).  smoltcp itself is not part of the repository.  What one call of its
  \<^verbatim>\<open>Interface::poll\<close> does to a device is a finite program of device calls, an argument of the
  definitions; \<open>drive\<close> runs such a program on any device, which is what the trait \<^verbatim>\<open>phy::Device\<close>
  says, and the locale \<open>phy_device\<close> is the contract of the trait.  The device of the repository meets
  it: to smoltcp the four rings and the UMEM are two queues of packets.
\<close>

section \<open>What smoltcp does to a device\<close>

text \<open>
  A packet to transmit: its length and the closure given to \<^verbatim>\<open>TxToken::consume\<close>, which turns the
  buffer it is handed into the packet.
\<close>

type_synonym tx_request = "nat \<times> (bytes \<Rightarrow> bytes)"

text \<open>
  A program: return; ask \<^verbatim>\<open>receive\<close> and go on in one way if there was nothing, else consume the RX
  token with a closure that sees the packet, may use the TX token that came with it, and decides how
  to go on; or ask \<^verbatim>\<open>transmit\<close>, go on in one way if it gives no token, else consume the token.
\<close>

datatype 'a device_prog =
    Finish 'a
  | Receive "'a device_prog" "bytes \<Rightarrow> tx_request option" "bytes \<Rightarrow> 'a device_prog"
  | Transmit "'a device_prog" tx_request "'a device_prog"

text \<open>
  Running a program on a device: \<open>take_rx\<close> is \<^verbatim>\<open>receive\<close> with what the RX token shows its closure,
  \<open>done_rx\<close> is what \<^verbatim>\<open>RxToken::consume\<close> does after the closure, \<open>offer_tx\<close> is whether \<^verbatim>\<open>transmit\<close>
  gives a token, \<open>send_tx\<close> is \<^verbatim>\<open>TxToken::consume\<close>.
\<close>

primrec drive ::
  "('s \<Rightarrow> ('t \<times> bytes) option \<times> 's) \<Rightarrow> ('t \<Rightarrow> 's \<Rightarrow> 's) \<Rightarrow> ('s \<Rightarrow> bool) \<Rightarrow>
     (tx_request \<Rightarrow> 's \<Rightarrow> 's outcome) \<Rightarrow> 'a device_prog \<Rightarrow> 's \<Rightarrow> ('a \<times> 's) outcome"
where
  "drive take_rx done_rx offer_tx send_tx (Finish x) s = Ok (x, s)"
| "drive take_rx done_rx offer_tx send_tx (Receive idle reply next) s =
     (case take_rx s of
        (None, s) \<Rightarrow> drive take_rx done_rx offer_tx send_tx idle s
      | (Some (tok, packet), s) \<Rightarrow>
          bind_outcome (case reply packet of None \<Rightarrow> Ok s | Some req \<Rightarrow> send_tx req s)
            (\<lambda>s. drive take_rx done_rx offer_tx send_tx (next packet) (done_rx tok s)))"
| "drive take_rx done_rx offer_tx send_tx (Transmit idle req next) s =
     (if offer_tx s then bind_outcome (send_tx req s) (drive take_rx done_rx offer_tx send_tx next)
      else drive take_rx done_rx offer_tx send_tx idle s)"

text \<open>
  What a device may rely on from smoltcp: it never asks for more than the MTU the device announces,
  and a packet it builds is as long as the buffer and does not depend on what the buffer held.
\<close>

definition good_request :: "nat \<Rightarrow> tx_request \<Rightarrow> bool" where
  "good_request mtu req \<longleftrightarrow>
     fst req \<le> mtu \<and> (\<forall>buf. length buf = fst req \<longrightarrow>
       length (snd req buf) = fst req \<and> snd req buf = snd req (replicate (fst req) 0))"

primrec good_prog :: "nat \<Rightarrow> 'a device_prog \<Rightarrow> bool" where
  "good_prog mtu (Finish x) \<longleftrightarrow> True"
| "good_prog mtu (Receive idle reply next) \<longleftrightarrow>
     good_prog mtu idle
     \<and> (\<forall>p. good_prog mtu (next p) \<and> (\<forall>req. reply p = Some req \<longrightarrow> good_request mtu req))"
| "good_prog mtu (Transmit idle req next) \<longleftrightarrow>
     good_prog mtu idle \<and> good_request mtu req \<and> good_prog mtu next"

text \<open>
  The same program on two queues of packets: packets received are taken from the front of the first,
  packets sent join the end of the second.  The number is how many packets were sent.
\<close>

definition packet_of :: "tx_request \<Rightarrow> bytes" where
  "packet_of req = snd req (replicate (fst req) 0)"

primrec drive_queues :: "'a device_prog \<Rightarrow> bytes list \<Rightarrow> 'a \<times> bytes list \<times> bytes list" where
  "drive_queues (Finish x) rxq = (x, rxq, [])"
| "drive_queues (Receive idle reply next) rxq =
     (case rxq of
        [] \<Rightarrow> drive_queues idle []
      | p # rxq' \<Rightarrow>
          (case drive_queues (next p) rxq' of (x, rest, sent) \<Rightarrow>
             (x, rest, (case reply p of None \<Rightarrow> sent | Some req \<Rightarrow> packet_of req # sent))))"
| "drive_queues (Transmit idle req next) rxq =
     (case drive_queues next rxq of (x, rest, sent) \<Rightarrow> (x, rest, packet_of req # sent))"

section \<open>The contract of a device\<close>

locale phy_device =
  fixes ok :: "'t option \<Rightarrow> 's \<Rightarrow> bool"
    and rxq txq :: "'s \<Rightarrow> bytes list"
    and wrap :: "bytes \<Rightarrow> bytes"
    and room :: "'s \<Rightarrow> nat"
    and mtu :: nat
    and take_rx :: "'s \<Rightarrow> ('t \<times> bytes) option \<times> 's"
    and done_rx :: "'t \<Rightarrow> 's \<Rightarrow> 's"
    and offer_tx :: "'s \<Rightarrow> bool"
    and send_tx :: "tx_request \<Rightarrow> 's \<Rightarrow> 's outcome"
  assumes take_idle: "ok None s \<Longrightarrow> take_rx s = (None, s') \<Longrightarrow>
      ok None s' \<and> rxq s = [] \<and> rxq s' = [] \<and> txq s' = txq s \<and> room s' = room s"
    and take_packet: "ok None s \<Longrightarrow> take_rx s = (Some (tok, p), s') \<Longrightarrow>
      ok (Some tok) s' \<and> rxq s = p # rxq s' \<and> txq s' = txq s \<and> room s' = room s"
    and done_ok: "ok (Some tok) s \<Longrightarrow>
      ok None (done_rx tok s) \<and> rxq (done_rx tok s) = rxq s \<and> txq (done_rx tok s) = txq s
      \<and> room (done_rx tok s) = room s"
    and offers: "ok h s \<Longrightarrow> offer_tx s"
    and send_room: "ok h s \<Longrightarrow> good_request mtu req \<Longrightarrow> 0 < room s \<Longrightarrow>
      \<exists>s'. send_tx req s = Ok s' \<and> ok h s' \<and> rxq s' = rxq s \<and> txq s' = txq s @ [wrap (packet_of req)]
        \<and> Suc (room s') = room s"
    and send_full: "ok h s \<Longrightarrow> room s = 0 \<Longrightarrow>
      send_tx req s = Panic (Expect_Failed ''TX frame pool exhausted'')"
begin

text \<open>
  A device is two queues: a program runs as on the queues while there is room for what it sends, and
  panics otherwise.
\<close>

definition as_queues :: "'s \<Rightarrow> ('a \<times> 's) outcome \<Rightarrow> 'a \<Rightarrow> bytes list \<Rightarrow> bytes list \<Rightarrow> bool" where
  "as_queues s r x rest sent \<longleftrightarrow>
     (if length sent \<le> room s
      then \<exists>s'. r = Ok (x, s') \<and> ok None s' \<and> rxq s' = rest \<and> txq s' = txq s @ map wrap sent
             \<and> room s' + length sent = room s
      else r = Panic (Expect_Failed ''TX frame pool exhausted''))"

lemma as_queues_same:
  "as_queues s' r x rest sent \<Longrightarrow> txq s' = txq s \<Longrightarrow> room s' = room s \<Longrightarrow> as_queues s r x rest sent"
  by (auto simp: as_queues_def split: if_splits)

lemma as_queues_send:
  assumes "ok h s" "good_request mtu req"
    and cont: "\<And>s2. ok h s2 \<Longrightarrow> rxq s2 = rxq s \<Longrightarrow> as_queues s2 (k s2) x rest sent"
  shows "as_queues s (bind_outcome (send_tx req s) k) x rest (packet_of req # sent)"
proof (cases "room s")
  case 0
  then show ?thesis using send_full [OF assms(1)] by (simp add: as_queues_def)
next
  case (Suc n)
  then obtain s2 where s2: "send_tx req s = Ok s2" "ok h s2" "rxq s2 = rxq s"
    "txq s2 = txq s @ [wrap (packet_of req)]" "Suc (room s2) = room s"
    using send_room [OF assms(1,2)] by auto
  with cont [OF s2(2,3)] show ?thesis by (auto simp: as_queues_def split: if_splits)
qed

text \<open>The optional reply to a packet whose frame is still held.\<close>

lemma reply_refines:
  assumes "ok (Some tok) s" "\<And>req. rep = Some req \<Longrightarrow> good_request mtu req"
    "\<And>s2. ok (Some tok) s2 \<Longrightarrow> rxq s2 = rxq s \<Longrightarrow> as_queues s2 (go s2) x rest sent"
  shows "as_queues s (bind_outcome (case rep of None \<Rightarrow> Ok s | Some req \<Rightarrow> send_tx req s) go) x rest
    (case rep of None \<Rightarrow> sent | Some req \<Rightarrow> packet_of req # sent)"
proof (cases rep)
  case None
  then show ?thesis using assms(1,3) by simp
next
  case (Some req)
  then show ?thesis using assms by (auto intro!: as_queues_send [where h = "Some tok"])
qed

lemma drive_refines:
  assumes "ok None s" "good_prog mtu prog" "drive_queues prog (rxq s) = (x, rest, sent)"
  shows "as_queues s (drive take_rx done_rx offer_tx send_tx prog s) x rest sent"
  using assms
proof (induction prog arbitrary: s x rest sent)
  case (Finish y)
  then show ?case by (auto simp: as_queues_def)
next
  case (Receive idle reply nxt)
  obtain r s1 where r: "take_rx s = (r, s1)" by fastforce
  show ?case
  proof (cases r)
    case None
    note idle = take_idle [OF Receive.prems(1) r [unfolded None]]
    have "as_queues s1 (drive take_rx done_rx offer_tx send_tx idle s1) x rest sent"
      using idle Receive.prems by (intro Receive.IH(1)) simp_all
    then show ?thesis using r None idle by (auto intro: as_queues_same)
  next
    case (Some tp)
    obtain tok p where tp: "tp = (tok, p)" by fastforce
    note got = take_packet [OF Receive.prems(1) r [unfolded Some tp]]
    obtain sent' where q: "drive_queues (nxt p) (rxq s1) = (x, rest, sent')"
      and sent: "sent = (case reply p of None \<Rightarrow> sent' | Some req \<Rightarrow> packet_of req # sent')"
      using Receive.prems(3) got by (auto split: prod.splits)
    have go: "as_queues s2 (drive take_rx done_rx offer_tx send_tx (nxt p) (done_rx tok s2)) x rest sent'"
      if "ok (Some tok) s2" "rxq s2 = rxq s1" for s2
      using Receive.IH(2) [of "nxt p" "done_rx tok s2" x rest sent'] done_ok [OF that(1)] that(2)
        Receive.prems(2) q by (auto intro: as_queues_same)
    have "as_queues s1 (bind_outcome (case reply p of None \<Rightarrow> Ok s1 | Some req \<Rightarrow> send_tx req s1)
        (\<lambda>s2. drive take_rx done_rx offer_tx send_tx (nxt p) (done_rx tok s2))) x rest sent"
      unfolding sent using Receive.prems(2) got go by (intro reply_refines [where tok = tok]) auto
    then show ?thesis using r Some tp got by (auto intro: as_queues_same)
  qed
next
  case (Transmit idle req nxt)
  obtain sent' where q: "drive_queues nxt (rxq s) = (x, rest, sent')" and sent: "sent = packet_of req # sent'"
    using Transmit.prems(3) by (auto split: prod.splits)
  have "as_queues s2 (drive take_rx done_rx offer_tx send_tx nxt s2) x rest sent'"
    if "ok None s2" "rxq s2 = rxq s" for s2
    using Transmit.IH(2) [of s2] Transmit.prems(2) q that by simp
  then have "as_queues s (bind_outcome (send_tx req s) (drive take_rx done_rx offer_tx send_tx nxt)) x rest sent"
    unfolding sent using Transmit.prems(1,2) by (intro as_queues_send [where h = None]) simp_all
  then show ?case using offers [OF Transmit.prems(1)] by simp
qed

end

section \<open>The device of the repository\<close>

text \<open>
  \<^verbatim>\<open>XskDevice\<close> and the tokens it hands out share one \<^verbatim>\<open>Xsk\<close>; a token's other fields are copies
  of the device's and the descriptor.
\<close>

record xsk_device =
  dv_src_mac :: bytes
  dv_dst_mac :: bytes
  dv_mtu :: nat

record device_capabilities =
  dc_medium :: string
  dc_max_transmission_unit :: nat
  dc_checksum :: checksum_capabilities

definition capabilities :: "xsk_device \<Rightarrow> device_capabilities" where
  "capabilities d =
     \<lparr>dc_medium = ''ip'', dc_max_transmission_unit = dv_mtu d, dc_checksum = checksum_caps\<rparr>"

text \<open>The packet an RX token shows: the frame without its Ethernet header.\<close>

definition rx_token_packet :: "u64 \<Rightarrow> u32 \<Rightarrow> xsk \<Rightarrow> bytes" where
  "rx_token_packet addr len s = read_mem (x_umem s) (unat addr + ETH_HDR_LEN) (unat len - ETH_HDR_LEN)"

definition device_receive :: "xsk \<Rightarrow> ((u64 \<times> u32) \<times> bytes) option \<times> xsk" where
  "device_receive s =
     (case rx_peek (kick_rx s) of
        (None, s) \<Rightarrow> (None, s)
      | (Some (addr, len), s) \<Rightarrow> (Some ((addr, len), rx_token_packet addr len s), s))"

definition rx_token_done :: "u64 \<times> u32 \<Rightarrow> xsk \<Rightarrow> xsk" where
  "rx_token_done tok s = recycle (fst tok) s"

text \<open>
  \<^verbatim>\<open>XskTxToken::consume\<close>.  The header and the packet are written through a raw pointer: nothing checks
  that they stay inside the frame.
\<close>

definition tx_token_consume :: "xsk_device \<Rightarrow> tx_request \<Rightarrow> xsk \<Rightarrow> xsk outcome" where
  "tx_token_consume d req s =
     (case tx_alloc s of
        (None, s) \<Rightarrow> Panic (Expect_Failed ''TX frame pool exhausted'')
      | (Some addr, s) \<Rightarrow>
          let (len, f) = req;
              s = set_frame s addr (dv_dst_mac d @ dv_src_mac d @ [0x08, 0x00]);
              ip = f (read_mem (x_umem s) (unat addr + ETH_HDR_LEN) len);
              s = s\<lparr>x_umem := write_mem (x_umem s) (unat addr + ETH_HDR_LEN) ip\<rparr>
          in Ok (tx_submit addr (of_nat (ETH_HDR_LEN + len)) s))"

text \<open>\<^verbatim>\<open>transmit\<close> hands out a token whatever the state of the pool.\<close>

definition device_transmit :: "xsk \<Rightarrow> bool" where
  "device_transmit s = True"

definition eth_frame :: "xsk_device \<Rightarrow> bytes \<Rightarrow> bytes" where
  "eth_frame d packet = dv_dst_mac d @ dv_src_mac d @ [0x08, 0x00] @ packet"

section \<open>The device meets the contract\<close>

definition device_ok ::
  "xsk_device \<Rightarrow> u64 multiset \<Rightarrow> u64 multiset \<Rightarrow> (u64 \<times> u32) option \<Rightarrow> xsk \<Rightarrow> bool" where
  "device_ok d kr kt tok s \<longleftrightarrow>
     owns s kr kt (case tok of None \<Rightarrow> {#} | Some (addr, len) \<Rightarrow> {#frame_base s addr#}) {#}
     \<and> tx_fits s \<and> ETH_HDR_LEN + dv_mtu d \<le> unat (x_frame_size s)
     \<and> length (dv_src_mac d) = 6 \<and> length (dv_dst_mac d) = 6"

lemma tx_token_consume_room:
  assumes "device_ok d kr kt tok s" "good_request (dv_mtu d) req" "0 < tx_room s"
  shows "\<exists>s'. tx_token_consume d req s = Ok s' \<and> device_ok d kr kt tok s' \<and> rx_wire s' = rx_wire s
    \<and> tx_wire s' = tx_wire s @ [eth_frame d (packet_of req)] \<and> Suc (tx_room s') = tx_room s"
proof -
  obtain r s1 where alloc: "tx_alloc s = (r, s1)" by fastforce
  with tx_alloc_room [OF alloc] assms(3) obtain a where a: "r = Some a" "Suc (tx_room s1) = tx_room s"
    by (cases r) auto
  obtain len f where req: "req = (len, f)" by fastforce
  let ?ur = "case tok of None \<Rightarrow> {#} | Some (addr, len) \<Rightarrow> {#frame_base s addr#}"
  have ok: "owns s kr kt ?ur {#}" "tx_fits s" "ETH_HDR_LEN + dv_mtu d \<le> unat (x_frame_size s)"
    "length (dv_src_mac d) = 6" "length (dv_dst_mac d) = 6"
    using assms(1) by (simp_all add: device_ok_def)
  have s1: "owns s1 kr kt ?ur {#a#}" "tx_fits s1"
    using owns_tx_alloc_Some [OF ok(1)] alloc a(1) tx_alloc_wire(3) [OF alloc] ok(2) by simp_all
  define ip where "ip = f (replicate len 0)"
  have g: "len \<le> dv_mtu d" "length buf = len \<Longrightarrow> length (f buf) = len \<and> f buf = ip" for buf
    using assms(2) unfolding good_request_def req ip_def fst_conv snd_conv by blast+
  have f: "f (read_mem m x len) = ip" "length ip = len" for m x
    using g(2) [of "read_mem m x len"] by auto
  define bs where "bs = eth_frame d ip"
  have bs: "length bs = ETH_HDR_LEN + len" using ok(4,5) f(2) by (simp add: bs_def eth_frame_def ETH_HDR_LEN_def)
  let ?out = "tx_submit a (of_nat (ETH_HDR_LEN + len)) (set_frame s1 a bs)"
  have "tx_token_consume d req s = Ok ?out"
    using alloc a(1) ok(4,5) f(1)
      write_mem_append [of "x_umem s1" "unat a" "dv_dst_mac d @ dv_src_mac d @ [0x08, 0x00]" ip]
    by (simp add: tx_token_consume_def req set_frame_def bs_def eth_frame_def ETH_HDR_LEN_def)
  moreover have len: "length bs \<le> unat (x_frame_size s1)"
    using bs g(1) ok(3) tx_alloc_fields(5) [OF alloc] by simp
  have "unat (x_frame_size s1) < 2 ^ 32" using unsigned_less [of "x_frame_size s1"] by simp
  then have "ETH_HDR_LEN + len < 2 ^ 32" using len bs by linarith
  note out = send_frame [OF s1 len, of "ETH_HDR_LEN + len", unfolded bs, OF order.refl this]
  moreover have "device_ok d kr kt tok ?out"
    using out(3-6) ok(3-5) tx_alloc_fields(5) [OF alloc] frame_base_tx_alloc [OF alloc]
    by (cases tok) (auto simp: device_ok_def)
  moreover have "tx_room ?out = tx_room s1"
    by (simp add: tx_room_def tx_submit_def set_frame_def)
  moreover have "bs = eth_frame d (packet_of req)"
    by (simp add: bs_def packet_of_def req ip_def)
  ultimately show ?thesis
    using out(1,2) tx_alloc_wire [OF alloc] a(2) bs by simp
qed

lemma tx_token_consume_full:
  assumes "tx_room s = 0"
  shows "tx_token_consume d req s = Panic (Expect_Failed ''TX frame pool exhausted'')"
proof -
  obtain r s1 where alloc: "tx_alloc s = (r, s1)" by fastforce
  then have "r = None" using tx_alloc_room [OF alloc] assms by (cases r) auto
  then show ?thesis using alloc by (simp add: tx_token_consume_def)
qed

lemma device_receive_ok:
  assumes "device_ok d kr kt None s" "device_receive s = (r, s')"
  shows "device_ok d kr kt (map_option fst r) s'"
    and "map (drop ETH_HDR_LEN) (rx_wire s) =
      (case r of None \<Rightarrow> [] | Some (tok, p) \<Rightarrow> p # map (drop ETH_HDR_LEN) (rx_wire s'))"
    and "tx_wire s' = tx_wire s" "tx_room s' = tx_room s" "r = None \<Longrightarrow> rx_wire s' = []"
proof -
  obtain pk s1 where pk: "rx_peek (kick_rx s) = (pk, s1)" by fastforce
  have o: "owns (kick_rx s) kr kt {#} {#}" using assms(1) by (simp add: device_ok_def owns_kick_rx)
  note w = rx_peek_wire [OF pk]
  have room: "tx_room s1 = tx_room s"
    using pk by (auto simp: rx_peek_def tx_room_def kick_rx_def split: option.splits if_splits)
  have r: "s' = s1" "r = map_option (\<lambda>(a, l). ((a, l), rx_token_packet a l s1)) pk"
    using assms(2) pk by (auto simp: device_receive_def split: option.splits prod.splits)
  show "tx_wire s' = tx_wire s" "tx_room s' = tx_room s" using w room r by simp_all
  show "r = None \<Longrightarrow> rx_wire s' = []" using w(1) r by (cases pk) auto
  show "map (drop ETH_HDR_LEN) (rx_wire s) =
      (case r of None \<Rightarrow> [] | Some (tok, p) \<Rightarrow> p # map (drop ETH_HDR_LEN) (rx_wire s'))"
    using w(1,4) r by (cases pk) (auto simp: rx_token_packet_def frame_def drop_read_mem)
  show "device_ok d kr kt (map_option fst r) s'"
  proof (cases pk)
    case None
    then show ?thesis using w(1) r o assms(1) by (simp add: device_ok_def)
  next
    case (Some al)
    obtain a l where "al = (a, l)" by fastforce
    then show ?thesis
      using Some owns_rx_peek(1) [OF o, of a l s1] pk w r assms(1) by (simp add: device_ok_def)
  qed
qed

lemma rx_token_done_ok:
  assumes "device_ok d kr kt (Some tok) s"
  shows "device_ok d kr kt None (rx_token_done tok s)"
proof -
  obtain a l where tok: "tok = (a, l)" by fastforce
  have "owns (recycle a s) kr kt {#} {#}"
    using owns_recycle(1) [of s kr kt "{#frame_base s a#}" "{#}" a] assms
    by (simp add: device_ok_def tok)
  then show ?thesis using assms by (simp add: device_ok_def rx_token_done_def tok)
qed

interpretation xdev: phy_device "device_ok d kr kt" "\<lambda>s. map (drop ETH_HDR_LEN) (rx_wire s)" tx_wire
  "eth_frame d" tx_room "dv_mtu d" device_receive rx_token_done device_transmit
  "tx_token_consume d"
  for d kr kt
proof (unfold_locales, goal_cases)
  case (1 s s')
  then show ?case using device_receive_ok [OF 1] by simp
next
  case (2 s tok p s')
  then show ?case using device_receive_ok [OF 2] by simp
next
  case (3 tok s)
  then show ?case using rx_token_done_ok [OF 3] by (simp add: rx_token_done_def)
next
  case (4 h s)
  then show ?case by (simp add: device_transmit_def)
next
  case (5 h s req)
  then show ?case using tx_token_consume_room [OF 5] by auto
next
  case (6 h s req)
  then show ?case by (simp add: tx_token_consume_full)
qed

end
