(* ===== verification/Tcp_Plane.thy ===== *)
theory Tcp_Plane
  imports Tcp_Device
begin

text \<open>
  The TCP plane (\<^verbatim>\<open>struct TcpPlane\<close> of \<^verbatim>\<open>src/socket.rs\<close>): smoltcp over the device of the theory
  \<open>Tcp_Device\<close>.  smoltcp's interface and socket are the record \<open>smoltcp\<close>, an argument of the
  definitions, over two types of state it does not say anything about.
\<close>

section \<open>The stack\<close>

datatype tcp_state =
    Closed_State | Listen | SynSent | SynReceived | Established | FinWait1 | FinWait2 | CloseWait
  | Closing | LastAck | TimeWait

text \<open>
  The socket set of the code holds one socket, whose handle is the field \<^verbatim>\<open>handle\<close>; \<open>'t\<close> is that
  socket and \<open>'i\<close> the interface.  \<^verbatim>\<open>send_slice\<close> and \<^verbatim>\<open>recv_slice\<close> return an error on the left, or how
  many bytes were taken and which were copied out.
\<close>

record ('i, 't) smoltcp =
  sm_iface_new :: "u64 \<Rightarrow> device_capabilities \<Rightarrow> int \<Rightarrow> 'i"
  sm_add_addr :: "u32 \<Rightarrow> nat \<Rightarrow> 'i \<Rightarrow> 'i"
  sm_socket_new :: "nat \<Rightarrow> nat \<Rightarrow> 't"
  sm_set_nagle :: "bool \<Rightarrow> 't \<Rightarrow> 't"
  sm_poll :: "int \<Rightarrow> 'i \<Rightarrow> 't \<Rightarrow> ('i \<times> 't) device_prog"
  sm_may_send :: "'t \<Rightarrow> bool"
  sm_send_slice :: "bytes \<Rightarrow> 't \<Rightarrow> (unit + nat) \<times> 't"
  sm_can_recv :: "'t \<Rightarrow> bool"
  sm_recv_slice :: "nat \<Rightarrow> 't \<Rightarrow> (unit + bytes) \<times> 't"
  sm_is_active :: "'t \<Rightarrow> bool"
  sm_connect :: "'i \<Rightarrow> sock_addr \<Rightarrow> u16 \<Rightarrow> 't \<Rightarrow> bool \<times> 'i \<times> 't"
  sm_state :: "'t \<Rightarrow> tcp_state"
  sm_close :: "'t \<Rightarrow> 't"

section \<open>The plane\<close>

text \<open>The plane and its device share one \<^verbatim>\<open>Xsk\<close> through an \<^verbatim>\<open>Rc\<close>, so there is one field for it.\<close>

record ('i, 't) tcp_plane =
  tp_xsk :: xsk
  tp_device :: xsk_device
  tp_iface :: 'i
  tp_socket :: 't
  tp_clock :: int
  tp_ticks_left :: u32

definition CLOCK_TICKS :: u32 where "CLOCK_TICKS = 32"

text \<open>
  \<^verbatim>\<open>TcpPlane::new\<close>.  The seed is the wall clock in nanoseconds since the epoch, 0 if it is earlier,
  cut to 64 bits; the two readings of the monotonic clock are arguments.
\<close>

definition tcp_new ::
  "('i, 't) smoltcp \<Rightarrow> nat option \<Rightarrow> int \<Rightarrow> int \<Rightarrow> xsk \<Rightarrow> u32 \<Rightarrow> bytes \<Rightarrow> bytes \<Rightarrow> nat \<Rightarrow> ('i, 't) tcp_plane"
where
  "tcp_new S nanos t1 t2 sk our_ip src_mac dst_mac mtu =
     (let device = \<lparr>dv_src_mac = src_mac, dv_dst_mac = dst_mac, dv_mtu = mtu\<rparr>;
          seed = (case nanos of None \<Rightarrow> 0 | Some n \<Rightarrow> of_nat n);
          iface = sm_add_addr S our_ip 24 (sm_iface_new S seed (capabilities device) t1);
          socket = sm_set_nagle S False (sm_socket_new S 65535 65535)
      in \<lparr>tp_xsk = sk, tp_device = device, tp_iface = iface, tp_socket = socket, tp_clock = t2,
          tp_ticks_left = 0\<rparr>)"

text \<open>\<open>reading\<close> is what the monotonic clock would say now; it is read only when the ticks are used up.\<close>

definition tcp_now :: "int \<Rightarrow> ('i, 't) tcp_plane \<Rightarrow> int \<times> ('i, 't) tcp_plane" where
  "tcp_now reading p =
     (let p = (if tp_ticks_left p = 0 then p\<lparr>tp_clock := reading, tp_ticks_left := CLOCK_TICKS\<rparr> else p);
          p = p\<lparr>tp_ticks_left := tp_ticks_left p - 1\<rparr>
      in (tp_clock p, p))"

definition tcp_poll :: "('i, 't) smoltcp \<Rightarrow> int \<Rightarrow> ('i, 't) tcp_plane \<Rightarrow> ('i, 't) tcp_plane outcome" where
  "tcp_poll S reading p =
     (case tcp_now reading p of
        (now, p) \<Rightarrow>
          bind_outcome
            (drive device_receive rx_token_done device_transmit (tx_token_consume (tp_device p))
               (sm_poll S now (tp_iface p) (tp_socket p)) (tp_xsk p))
            (\<lambda>((i, t), s). Ok (p\<lparr>tp_iface := i, tp_socket := t, tp_xsk := kick_rx (kick_tx s)\<rparr>)))"

text \<open>
  The loop of \<^verbatim>\<open>TcpPlane::send\<close>: each turn that goes on has taken at least one byte.
\<close>

function send_loop :: "('i, 't) smoltcp \<Rightarrow> bytes \<Rightarrow> nat \<Rightarrow> 't \<Rightarrow> nat outcome \<times> 't" where
  "send_loop S buf sent t =
     (if sent < length buf \<and> sm_may_send S t then
        (case sm_send_slice S (drop sent buf) t of
           (Inl _, t) \<Rightarrow> (Err (Custom Other Tcp_Send), t)
         | (Inr n, t) \<Rightarrow> if n = 0 then (Ok sent, t) else send_loop S buf (sent + n) t)
      else (Ok sent, t))"
  by pat_completeness auto
termination
  by (relation "measure (\<lambda>(S, buf, sent, t). length buf - sent)") auto

declare send_loop.simps [simp del]

text \<open>
  A panic of the poll unwinds through \<^verbatim>\<open>send\<close>; the plane paired with it is never used again.
\<close>

definition tcp_send ::
  "('i, 't) smoltcp \<Rightarrow> int \<Rightarrow> bytes \<Rightarrow> ('i, 't) tcp_plane \<Rightarrow> nat outcome \<times> ('i, 't) tcp_plane" where
  "tcp_send S reading buf p =
     (case send_loop S buf 0 (tp_socket p) of
        (Ok sent, t) \<Rightarrow>
          let p = p\<lparr>tp_socket := t\<rparr>
          in (case tcp_poll S reading p of
                Ok p' \<Rightarrow> (Ok sent, p') | Err e \<Rightarrow> (Err e, p) | Panic q \<Rightarrow> (Panic q, p))
      | (Err e, t) \<Rightarrow> (Err e, p\<lparr>tp_socket := t\<rparr>)
      | (Panic q, t) \<Rightarrow> (Panic q, p\<lparr>tp_socket := t\<rparr>))"

definition start_connect ::
  "('i, 't) smoltcp \<Rightarrow> int \<Rightarrow> sock_addr \<Rightarrow> u16 \<Rightarrow> ('i, 't) tcp_plane \<Rightarrow> unit outcome \<times> ('i, 't) tcp_plane"
where
  "start_connect S reading remote local_port p =
     (case sm_connect S (tp_iface p) remote local_port (tp_socket p) of
        (accepted, i, t) \<Rightarrow>
          let p = p\<lparr>tp_iface := i, tp_socket := t\<rparr>
          in if \<not> accepted then (Err (Custom Other Tcp_Connect), p)
             else (case tcp_poll S reading p of
                     Ok p' \<Rightarrow> (Ok (), p') | Err e \<Rightarrow> (Err e, p) | Panic q \<Rightarrow> (Panic q, p)))"

definition tcp_poll_connect ::
  "('i, 't) smoltcp \<Rightarrow> int \<Rightarrow> ('i, 't) tcp_plane \<Rightarrow> bool outcome \<times> ('i, 't) tcp_plane" where
  "tcp_poll_connect S reading p =
     (case tcp_poll S reading p of
        Ok p' \<Rightarrow>
          (case sm_state S (tp_socket p') of
             Established \<Rightarrow> (Ok True, p')
           | Closed_State \<Rightarrow> (Err (Custom ConnectionRefused Connection_Refused_Msg), p')
           | _ \<Rightarrow> (Ok False, p'))
      | Err e \<Rightarrow> (Err e, p) | Panic q \<Rightarrow> (Panic q, p))"

section \<open>Polling\<close>

definition plane_ok :: "u64 multiset \<Rightarrow> u64 multiset \<Rightarrow> ('i, 't) tcp_plane \<Rightarrow> bool" where
  "plane_ok kr kt p \<longleftrightarrow> device_ok (tp_device p) kr kt None (tp_xsk p)"

lemma tcp_now_fields:
  assumes "tcp_now reading p = (now, p1)"
  shows "tp_xsk p1 = tp_xsk p" "tp_device p1 = tp_device p" "tp_iface p1 = tp_iface p"
    "tp_socket p1 = tp_socket p" "tp_clock p1 = now"
  using assms by (auto simp: tcp_now_def Let_def split: if_splits)

lemma device_ok_kicked:
  "device_ok d kr kt tok s \<Longrightarrow> device_ok d kr kt tok (kick_rx (kick_tx s))"
  by (cases tok) (auto simp: device_ok_def frame_base_def owns_kick_rx owns_kick_tx)

lemma tcp_poll_queues:
  assumes "plane_ok kr kt p" and "tcp_now reading p = (now, p1)"
    and "good_prog (dv_mtu (tp_device p)) (sm_poll S now (tp_iface p) (tp_socket p))"
    and "drive_queues (sm_poll S now (tp_iface p) (tp_socket p))
           (map (drop ETH_HDR_LEN) (rx_wire (tp_xsk p))) = ((i, t), rest, sent)"
  shows "if length sent \<le> tx_room (tp_xsk p)
    then \<exists>s'. tcp_poll S reading p = Ok (p1\<lparr>tp_iface := i, tp_socket := t, tp_xsk := s'\<rparr>)
           \<and> plane_ok kr kt (p1\<lparr>tp_xsk := s'\<rparr>) \<and> \<not> x_tx_pending s'
           \<and> map (drop ETH_HDR_LEN) (rx_wire s') = rest
           \<and> tx_wire s' = tx_wire (tp_xsk p) @ map (eth_frame (tp_device p)) sent
    else tcp_poll S reading p = Panic (Expect_Failed ''TX frame pool exhausted'')"
proof -
  note p1 = tcp_now_fields [OF assms(2)]
  let ?run = "drive device_receive rx_token_done device_transmit (tx_token_consume (tp_device p))
    (sm_poll S now (tp_iface p) (tp_socket p)) (tp_xsk p)"
  have poll: "tcp_poll S reading p =
      bind_outcome ?run (\<lambda>((i, t), s). Ok (p1\<lparr>tp_iface := i, tp_socket := t, tp_xsk := kick_rx (kick_tx s)\<rparr>))"
    using assms(2) p1 by (simp add: tcp_poll_def)
  have "xdev.as_queues (tp_device p) kr kt (tp_xsk p) ?run (i, t) rest sent"
    using assms(1,3,4) by (intro xdev.drive_refines) (simp_all add: plane_ok_def)
  moreover have "\<not> x_tx_pending (kick_rx (kick_tx s))" for s
    by (simp add: kick_tx_def kick_rx_def Let_def)
  ultimately show ?thesis
    using p1(2) device_ok_kicked
    by (auto simp: xdev.as_queues_def poll plane_ok_def split: if_splits)
qed

text \<open>
  C8.  To smoltcp, a poll is a run on two packet queues.  For any program of device calls that respects
  the announced MTU, \<^verbatim>\<open>TcpPlane::poll\<close> leaves the interface, the socket, the frames still waiting
  and the frames queued exactly as the program on queues does: packets are the received frames, oldest
  first, without their Ethernet header; each packet sent joins the transmit queue behind the others with
  the Ethernet header in front; every receive frame taken is given back; nothing is left unkicked.
  It panics exactly when the program sends more packets than there are transmit frames not in flight.
\<close>

theorem tcp_poll_refines_queues:
  assumes "plane_ok kr kt p" and "tcp_now reading p = (now, p1)"
    and "good_prog (dv_mtu (tp_device p)) (sm_poll S now (tp_iface p) (tp_socket p))"
    and "drive_queues (sm_poll S now (tp_iface p) (tp_socket p))
           (map (drop ETH_HDR_LEN) (rx_wire (tp_xsk p))) = ((i, t), rest, sent)"
  shows "if length sent \<le> tx_room (tp_xsk p)
    then \<exists>s'. tcp_poll S reading p = Ok (p1\<lparr>tp_iface := i, tp_socket := t, tp_xsk := s'\<rparr>)
           \<and> plane_ok kr kt (p1\<lparr>tp_xsk := s'\<rparr>) \<and> \<not> x_tx_pending s'
           \<and> map (drop ETH_HDR_LEN) (rx_wire s') = rest
           \<and> tx_wire s' = tx_wire (tp_xsk p) @ map (eth_frame (tp_device p)) sent
    else tcp_poll S reading p = Panic (Expect_Failed ''TX frame pool exhausted'')"
  using assms by (rule tcp_poll_queues)

section \<open>The clock\<close>

text \<open>The instants that successive calls of \<^verbatim>\<open>now\<close> return, given what the clock would say at each.\<close>

primrec now_seq :: "int list \<Rightarrow> ('i, 't) tcp_plane \<Rightarrow> int list" where
  "now_seq [] p = []"
| "now_seq (r # rs) p = (case tcp_now r p of (now, p') \<Rightarrow> now # now_seq rs p')"

lemma tcp_now_ticks:
  assumes "tcp_now r p = (now, p')"
  shows "tp_ticks_left p = 0 \<Longrightarrow> now = r \<and> unat (tp_ticks_left p') = 31"
    and "tp_ticks_left p \<noteq> 0 \<Longrightarrow> now = tp_clock p \<and> Suc (unat (tp_ticks_left p')) = unat (tp_ticks_left p)"
proof -
  show "tp_ticks_left p = 0 \<Longrightarrow> now = r \<and> unat (tp_ticks_left p') = 31"
    using assms by (auto simp: tcp_now_def CLOCK_TICKS_def)
  show "tp_ticks_left p \<noteq> 0 \<Longrightarrow> now = tp_clock p \<and> Suc (unat (tp_ticks_left p')) = unat (tp_ticks_left p)"
    using assms unat_minus_one [of "tp_ticks_left p"] unat_gt_0 [of "tp_ticks_left p"]
    by (auto simp: tcp_now_def)
qed

lemma now_seq_nth:
  assumes "i < length rs"
  shows "now_seq rs p ! i =
    (if i < unat (tp_ticks_left p) then tp_clock p
     else rs ! (unat (tp_ticks_left p) + 32 * ((i - unat (tp_ticks_left p)) div 32)))"
  using assms
proof (induction rs arbitrary: p i)
  case Nil
  then show ?case by simp
next
  case (Cons r rs)
  obtain now p' where n: "tcp_now r p = (now, p')" by fastforce
  note ticks = tcp_now_ticks [OF n] and clock = tcp_now_fields(5) [OF n]
  show ?case
  proof (cases i)
    case 0
    then show ?thesis using n ticks by (cases "tp_ticks_left p = 0") (auto simp: unat_gt_0)
  next
    case (Suc j)
    then have IH: "now_seq (r # rs) p ! i =
        (if j < unat (tp_ticks_left p') then now
         else rs ! (unat (tp_ticks_left p') + 32 * ((j - unat (tp_ticks_left p')) div 32)))"
      using Cons.IH [of j p'] Cons.prems n clock by simp
    show ?thesis
    proof (cases "tp_ticks_left p = 0")
      case True
      then have "now = r" "unat (tp_ticks_left p') = 31" using ticks(1) by simp_all
      moreover have "Suc j div 32 = Suc ((j - 31) div 32)" if "31 \<le> j"
        using that div_add_self2 [of 32 "j - 31"] by simp
      ultimately show ?thesis using IH True Suc by (auto simp: not_less)
    next
      case False
      then have "now = tp_clock p" "unat (tp_ticks_left p) = Suc (unat (tp_ticks_left p'))"
        using ticks(2) by simp_all
      then show ?thesis using IH Suc by (simp add: not_less)
    qed
  qed
qed

text \<open>
  C26.  The clock is read once per 32 polls.  From a fresh plane, the \<open>i\<close>-th call of \<^verbatim>\<open>now\<close>
  returns what the clock said at the last call whose number is a multiple of 32: no reading is older
  than 31 calls.
\<close>

theorem clock_read_every_32:
  assumes "tp_ticks_left p = 0" and "i < length readings"
  shows "now_seq readings p ! i = readings ! (32 * (i div 32))"
  using now_seq_nth [OF assms(2), of p] assms(1) by simp

section \<open>Sending\<close>

text \<open>
  What is relied on from \<^verbatim>\<open>tcp::Socket::send_slice\<close>: \<open>queued\<close> is the byte stream the socket has
  accepted; a call on a socket that may send appends the part it takes, and does not fail.
\<close>

definition send_slice_laws :: "('i, 't) smoltcp \<Rightarrow> ('t \<Rightarrow> bytes) \<Rightarrow> bool" where
  "send_slice_laws S queued \<longleftrightarrow>
     (\<forall>data t. sm_may_send S t \<longrightarrow>
        (\<exists>n t'. sm_send_slice S data t = (Inr n, t') \<and> n \<le> length data
           \<and> queued t' = queued t @ take n data))"

lemma send_loop_stream:
  assumes "send_slice_laws S queued" "sent \<le> length buf"
  shows "\<exists>n t'. send_loop S buf sent t = (Ok n, t') \<and> sent \<le> n \<and> n \<le> length buf
    \<and> queued t' = queued t @ take (n - sent) (drop sent buf)
    \<and> (n < length buf \<longrightarrow> \<not> sm_may_send S t' \<or> (\<exists>t0. sm_send_slice S (drop n buf) t0 = (Inr 0, t')))"
  using assms
proof (induction S buf sent t rule: send_loop.induct)
  case (1 S buf sent t)
  show ?case
  proof (cases "sent < length buf \<and> sm_may_send S t")
    case False
    then show ?thesis using "1.prems"(2) by (auto simp: send_loop.simps)
  next
    case True
    then obtain n t1 where s: "sm_send_slice S (drop sent buf) t = (Inr n, t1)"
      "n \<le> length (drop sent buf)" "queued t1 = queued t @ take n (drop sent buf)"
      using "1.prems"(1) unfolding send_slice_laws_def by blast
    have step: "send_loop S buf sent t = (if n = 0 then (Ok sent, t1) else send_loop S buf (sent + n) t1)"
      using True s(1) by (simp add: send_loop.simps [of S buf sent])
    show ?thesis
    proof (cases "n = 0")
      case True
      then show ?thesis using step s \<open>sent < length buf \<and> sm_may_send S t\<close> by auto
    next
      case False
      have "sent + n \<le> length buf" using s(2) True by (simp add: le_diff_conv2)
      then obtain m t' where m: "send_loop S buf (sent + n) t1 = (Ok m, t')" "sent + n \<le> m" "m \<le> length buf"
        "queued t' = queued t1 @ take (m - (sent + n)) (drop (sent + n) buf)"
        "m < length buf \<longrightarrow> \<not> sm_may_send S t' \<or> (\<exists>t0. sm_send_slice S (drop m buf) t0 = (Inr 0, t'))"
        using "1.IH" [OF True s(1) [symmetric] refl False "1.prems"(1)] by blast
      have "take (m - sent) (drop sent buf) =
          take n (drop sent buf) @ take (m - (sent + n)) (drop (sent + n) buf)"
        using m(2) take_add [of n "m - (sent + n)" "drop sent buf"] by (simp add: add.commute)
      then show ?thesis using step False m s(3) by auto
    qed
  qed
qed

text \<open>
  C12.  \<^verbatim>\<open>TcpPlane::send\<close> hands a prefix of the buffer to the socket, exactly once and in order, and
  reports its length; it is short only when the socket stopped taking data (its send half is closed, or
  it took nothing).  The loop ends, the socket's error is never seen, and one poll follows.
\<close>

theorem tcp_send_accepts_prefix:
  assumes "send_slice_laws S queued"
  shows "\<exists>n t'. n \<le> length buf \<and> queued t' = queued (tp_socket p) @ take n buf
    \<and> (n < length buf \<longrightarrow> \<not> sm_may_send S t' \<or> (\<exists>t0. sm_send_slice S (drop n buf) t0 = (Inr 0, t')))
    \<and> tcp_send S reading buf p =
        (case tcp_poll S reading (p\<lparr>tp_socket := t'\<rparr>) of
           Ok p' \<Rightarrow> (Ok n, p')
         | Err e \<Rightarrow> (Err e, p\<lparr>tp_socket := t'\<rparr>)
         | Panic q \<Rightarrow> (Panic q, p\<lparr>tp_socket := t'\<rparr>))"
proof -
  obtain n t' where l: "send_loop S buf 0 (tp_socket p) = (Ok n, t')" "n \<le> length buf"
    "queued t' = queued (tp_socket p) @ take n buf"
    "n < length buf \<longrightarrow> \<not> sm_may_send S t' \<or> (\<exists>t0. sm_send_slice S (drop n buf) t0 = (Inr 0, t'))"
    using send_loop_stream [OF assms, of 0 buf "tp_socket p"] by auto
  then show ?thesis
    by (intro exI [of _ n] exI [of _ t']) (simp add: tcp_send_def Let_def)
qed

end
