(* ===== verification/Socket.thy ===== *)
theory Socket
  imports Udp_Plane Tcp_Plane
begin

text \<open>
  The public socket (\<^verbatim>\<open>struct Socket\<close> of \<^verbatim>\<open>src/socket.rs\<close>), the port it reserves, and the XDP
  attachment the caller holds beside it.  The BPF maps of the loaded skeleton are shared by every
  socket and by the XDP program, so they are passed explicitly.
\<close>

section \<open>The port reservation\<close>

datatype protocol = Protocol_Tcp | Protocol_Udp

record port_reservation =
  pr_fd :: int
  pr_port :: u16

text \<open>
  What the system answers to the three calls of \<^verbatim>\<open>PortReservation::take\<close>: an errno on the left or
  the value; \<^verbatim>\<open>getsockname\<close> gives the port in host order.
\<close>

record os_port =
  op_socket :: "protocol \<Rightarrow> int + int"
  op_bind :: "int option"
  op_getsockname :: "int + u16"

definition port_take :: "os_port \<Rightarrow> protocol \<Rightarrow> port_reservation outcome \<times> os_event list" where
  "port_take os proto =
     (case op_socket os proto of
        Inl e \<Rightarrow> (Err (Os_Error e), [])
      | Inr fd \<Rightarrow>
          (case op_bind os of
             Some e \<Rightarrow> (Err (Custom Other (Reserve_Local_Port e)), [Opened fd, Closed fd])
           | None \<Rightarrow>
               (case op_getsockname os of
                  Inl e \<Rightarrow> (Err (Custom Other (Read_Reserved_Port e)), [Opened fd, Closed fd])
                | Inr port \<Rightarrow> (Ok \<lparr>pr_fd = fd, pr_port = port\<rparr>, [Opened fd]))))"

definition port_drop :: "port_reservation \<Rightarrow> os_event list" where
  "port_drop r = [Closed (pr_fd r)]"

section \<open>The socket\<close>

record config =
  cfg_ifindex :: u32
  cfg_our_ip :: u32
  cfg_our_mac :: bytes
  cfg_peer_mac :: bytes
  cfg_queue_id :: u32
  cfg_mtu :: nat
  cfg_hugepage :: huge_page
  cfg_xdp_mode :: xdp_mode

datatype ('i, 't) plane = Plane_Tcp "('i, 't) tcp_plane" | Plane_Udp udp_plane

record ('i, 't) sock =
  sk_queue_id :: u32
  sk_mtu :: nat
  sk_our_ip :: u32
  sk_port :: port_reservation
  sk_connected :: bool
  sk_remote :: "sock_addr option"
  sk_plane :: "('i, 't) plane"

text \<open>What the environment answers while a socket is built: the system, the map update, the clocks.\<close>

record world =
  w_xsk :: os_xsk
  w_port :: os_port
  w_map_err :: "int option"
  w_nanos :: "nat option"
  w_clock :: "int \<times> int"

text \<open>
  \<^verbatim>\<open>Socket::new\<close>.  An error after \<^verbatim>\<open>Xsk::new\<close> drops the \<^verbatim>\<open>Xsk\<close>.  On an error after the map update the code does not
  remove the entry it made, and \<open>maps\<close> is what the code leaves; that the kernel takes a closed socket out of an
  XSKMAP is a change of the maps by others, as is any change between two calls.
\<close>

definition socket_new ::
  "profile \<Rightarrow> ('i, 't) smoltcp \<Rightarrow> world \<Rightarrow> protocol \<Rightarrow> config \<Rightarrow> bpf_maps \<Rightarrow>
     ('i, 't) sock outcome \<times> bpf_maps \<times> os_event list"
where
  "socket_new p S w proto cfg maps =
     (if cfg_mtu cfg \<le> UDP_OVERHEAD
      then (Err (Custom InvalidInput (Mtu_Leaves_No_Room (cfg_mtu cfg))), maps, [])
      else case xsk_new p (w_xsk w) (cfg_ifindex cfg) (cfg_queue_id cfg) (cfg_mtu cfg)
                  (cfg_hugepage cfg) (cfg_xdp_mode cfg) of
        (Err e, l) \<Rightarrow> (Err e, maps, l)
      | (Panic q, l) \<Rightarrow> (Panic q, maps, l)
      | (Ok sk, l) \<Rightarrow>
          (case map_update (w_map_err w) (cfg_queue_id cfg) (x_fd sk) (xsks_map maps) of
             Inl e \<Rightarrow> (Err (Custom Other Insert_Xsks_Map), maps, l @ xsk_drop sk)
           | Inr m \<Rightarrow>
               let maps = maps\<lparr>xsks_map := m\<rparr>
               in (case port_take (w_port w) proto of
                     (Err e, l') \<Rightarrow> (Err e, maps, l @ l' @ xsk_drop sk)
                   | (Panic q, l') \<Rightarrow> (Panic q, maps, l @ l' @ xsk_drop sk)
                   | (Ok port, l') \<Rightarrow>
                       let local_port = pr_port port;
                           plane =
                             (case proto of
                                Protocol_Tcp \<Rightarrow>
                                  Plane_Tcp (tcp_new S (w_nanos w) (fst (w_clock w)) (snd (w_clock w)) sk
                                    (cfg_our_ip cfg) (cfg_our_mac cfg) (cfg_peer_mac cfg) (cfg_mtu cfg))
                              | Protocol_Udp \<Rightarrow>
                                  Plane_Udp \<lparr>up_xsk = sk,
                                    up_framing = \<lparr>f_src_mac = cfg_our_mac cfg, f_dst_mac = cfg_peer_mac cfg,
                                      f_local = \<lparr>sa_ip = cfg_our_ip cfg, sa_port = local_port\<rparr>,
                                      f_remote = None\<rparr>\<rparr>)
                       in (Ok \<lparr>sk_queue_id = cfg_queue_id cfg, sk_mtu = cfg_mtu cfg,
                               sk_our_ip = cfg_our_ip cfg, sk_port = port, sk_connected = False,
                               sk_remote = None, sk_plane = plane\<rparr>, maps, l @ l'))))"

definition local_addr :: "('i, 't) sock \<Rightarrow> sock_addr" where
  "local_addr sk = \<lparr>sa_ip = sk_our_ip sk, sa_port = pr_port (sk_port sk)\<rparr>"

definition local_port :: "('i, 't) sock \<Rightarrow> u16" where
  "local_port sk = pr_port (sk_port sk)"

text \<open>The subtraction cannot underflow: \<^verbatim>\<open>new\<close> refuses an MTU of 28 or less.\<close>

definition max_udp_payload :: "('i, 't) sock \<Rightarrow> nat" where
  "max_udp_payload sk = sk_mtu sk - UDP_OVERHEAD"

definition socket_connect ::
  "('i, 't) smoltcp \<Rightarrow> int \<Rightarrow> int option \<Rightarrow> sock_addr \<Rightarrow> bpf_maps \<Rightarrow> ('i, 't) sock \<Rightarrow>
     unit outcome \<times> bpf_maps \<times> ('i, 't) sock"
where
  "socket_connect S reading err remote maps sk =
     (case add_flow_to_ebpf_tracking err (local_addr sk) remote (config_map maps) of
        Err e \<Rightarrow> (Err e, maps, sk)
      | Panic q \<Rightarrow> (Panic q, maps, sk)
      | Ok m \<Rightarrow>
          let maps = maps\<lparr>config_map := m\<rparr>;
              local_port = pr_port (sk_port sk);
              (r, plane) =
                (case sk_plane sk of
                   Plane_Tcp t \<Rightarrow>
                     (case start_connect S reading remote local_port t of (r, t') \<Rightarrow> (r, Plane_Tcp t'))
                 | Plane_Udp u \<Rightarrow>
                     (Ok (), Plane_Udp (u\<lparr>up_framing := (up_framing u)\<lparr>f_remote := Some remote\<rparr>\<rparr>)));
              sk = sk\<lparr>sk_plane := plane\<rparr>
          in (case r of
                Ok _ \<Rightarrow> (Ok (), maps, sk\<lparr>sk_remote := Some remote, sk_connected := True\<rparr>)
              | Err e \<Rightarrow> (Err e, maps, sk)
              | Panic q \<Rightarrow> (Panic q, maps, sk)))"

definition socket_poll_connect ::
  "('i, 't) smoltcp \<Rightarrow> int \<Rightarrow> ('i, 't) sock \<Rightarrow> bool outcome \<times> ('i, 't) sock" where
  "socket_poll_connect S reading sk =
     (if \<not> sk_connected sk then (Err (Custom NotConnected No_Message), sk)
      else case sk_plane sk of
        Plane_Tcp t \<Rightarrow>
          (case tcp_poll_connect S reading t of (r, t') \<Rightarrow> (r, sk\<lparr>sk_plane := Plane_Tcp t'\<rparr>))
      | Plane_Udp _ \<Rightarrow> (Ok True, sk))"

text \<open>\<^verbatim>\<open>slice::chunks\<close>: pieces of \<open>n\<close> bytes, the last one shorter.  It panics for 0, which \<^verbatim>\<open>new\<close> excludes.\<close>

function chunks :: "nat \<Rightarrow> 'a list \<Rightarrow> 'a list list" where
  "chunks n xs = (if xs = [] \<or> n = 0 then [] else take n xs # chunks n (drop n xs))"
  by pat_completeness auto
termination
  by (relation "measure (\<lambda>(n, xs). length xs)") auto

declare chunks.simps [simp del]

primrec udp_send_all :: "wire \<Rightarrow> bytes list \<Rightarrow> udp_plane \<Rightarrow> unit outcome \<times> udp_plane" where
  "udp_send_all W [] u = (Ok (), u)"
| "udp_send_all W (c # cs) u =
     (case udp_send W c u of
        (Ok _, u) \<Rightarrow> udp_send_all W cs u | (Err e, u) \<Rightarrow> (Err e, u) | (Panic q, u) \<Rightarrow> (Panic q, u))"

definition socket_send ::
  "wire \<Rightarrow> ('i, 't) smoltcp \<Rightarrow> int \<Rightarrow> bytes \<Rightarrow> ('i, 't) sock \<Rightarrow> nat outcome \<times> ('i, 't) sock" where
  "socket_send W S reading buf sk =
     (if \<not> sk_connected sk then (Err (Custom NotConnected No_Message), sk)
      else if buf = [] then (Ok 0, sk)
      else case sk_plane sk of
        Plane_Udp u \<Rightarrow>
          (case udp_send_all W (chunks (max_udp_payload sk) buf) u of
             (Ok _, u) \<Rightarrow>
               (Ok (length buf), sk\<lparr>sk_plane := Plane_Udp (u\<lparr>up_xsk := kick_tx (up_xsk u)\<rparr>)\<rparr>)
           | (Err e, u) \<Rightarrow> (Err e, sk\<lparr>sk_plane := Plane_Udp u\<rparr>)
           | (Panic q, u) \<Rightarrow> (Panic q, sk\<lparr>sk_plane := Plane_Udp u\<rparr>))
      | Plane_Tcp t \<Rightarrow>
          (case tcp_send S reading buf t of (r, t') \<Rightarrow> (r, sk\<lparr>sk_plane := Plane_Tcp t'\<rparr>)))"

text \<open>
  The TCP half of \<^verbatim>\<open>recv\<close>: what it returns, the caller's buffer, and the plane.
\<close>

definition tcp_recv ::
  "('i, 't) smoltcp \<Rightarrow> int \<Rightarrow> bytes \<Rightarrow> ('i, 't) tcp_plane \<Rightarrow>
     nat option outcome \<times> bytes \<times> ('i, 't) tcp_plane"
where
  "tcp_recv S reading buf p =
     (case tcp_poll S reading p of
        Err e \<Rightarrow> (Err e, buf, p) | Panic q \<Rightarrow> (Panic q, buf, p)
      | Ok p \<Rightarrow>
          let ended = (\<lambda>p. (Ok (if \<not> sm_is_active S (tp_socket p) then Some 0 else None), buf, p))
          in if sm_can_recv S (tp_socket p) then
               (case sm_recv_slice S (length buf) (tp_socket p) of
                  (Inl _, t) \<Rightarrow> ended (p\<lparr>tp_socket := t\<rparr>)
                | (Inr bs, t) \<Rightarrow>
                    if 0 < length bs then (Ok (Some (length bs)), copy_at 0 bs buf, p\<lparr>tp_socket := t\<rparr>)
                    else ended (p\<lparr>tp_socket := t\<rparr>))
             else ended p)"

definition socket_recv ::
  "profile \<Rightarrow> wire \<Rightarrow> ('i, 't) smoltcp \<Rightarrow> int \<Rightarrow> bytes \<Rightarrow> ('i, 't) sock \<Rightarrow>
     nat option outcome \<times> bytes \<times> ('i, 't) sock"
where
  "socket_recv pr W S reading buf sk =
     (if pr = Debug \<and> \<not> sk_connected sk then (Panic (Debug_Assert_Failed ''recv before connect''), buf, sk)
      else if buf = [] \<or> \<not> sk_connected sk then (Ok None, buf, sk)
      else case sk_plane sk of
        Plane_Tcp t \<Rightarrow>
          (case tcp_recv S reading buf t of (r, buf, t') \<Rightarrow> (r, buf, sk\<lparr>sk_plane := Plane_Tcp t'\<rparr>))
      | Plane_Udp u \<Rightarrow>
          (case recv_into W buf u of (r, buf, u') \<Rightarrow> (Ok r, buf, sk\<lparr>sk_plane := Plane_Udp u'\<rparr>)))"

definition socket_close ::
  "('i, 't) smoltcp \<Rightarrow> int \<Rightarrow> ('i, 't) sock \<Rightarrow> unit outcome \<times> ('i, 't) sock" where
  "socket_close S reading sk =
     (case sk_plane sk of
        Plane_Tcp t \<Rightarrow>
          let t = t\<lparr>tp_socket := sm_close S (tp_socket t)\<rparr>
          in (case tcp_poll S reading t of
                Ok t' \<Rightarrow> (Ok (), sk\<lparr>sk_plane := Plane_Tcp t'\<rparr>)
              | Err e \<Rightarrow> (Err e, sk\<lparr>sk_plane := Plane_Tcp t\<rparr>)
              | Panic q \<Rightarrow> (Panic q, sk\<lparr>sk_plane := Plane_Tcp t\<rparr>))
      | Plane_Udp _ \<Rightarrow> (Ok (), sk))"

definition plane_xsk :: "('i, 't) plane \<Rightarrow> xsk" where
  "plane_xsk pl = (case pl of Plane_Tcp t \<Rightarrow> tp_xsk t | Plane_Udp u \<Rightarrow> up_xsk u)"

text \<open>
  \<^verbatim>\<open>Drop for Socket\<close>, then its fields in order: the port reservation, and the plane with its \<^verbatim>\<open>Xsk\<close>.
\<close>

definition socket_drop :: "bpf_maps \<Rightarrow> ('i, 't) sock \<Rightarrow> bpf_maps \<times> os_event list" where
  "socket_drop maps sk =
     (let maps = (case sk_remote sk of
                    Some remote \<Rightarrow>
                      maps\<lparr>config_map := map_delete (flow_key (local_addr sk) remote) (config_map maps)\<rparr>
                  | None \<Rightarrow> maps);
          maps = maps\<lparr>xsks_map := map_delete (sk_queue_id sk) (xsks_map maps)\<rparr>
      in (maps, port_drop (sk_port sk) @ xsk_drop (plane_xsk (sk_plane sk))))"

text \<open>\<^verbatim>\<open>io::Read\<close> and \<^verbatim>\<open>io::Write\<close>.\<close>

definition socket_read ::
  "profile \<Rightarrow> wire \<Rightarrow> ('i, 't) smoltcp \<Rightarrow> int \<Rightarrow> bytes \<Rightarrow> ('i, 't) sock \<Rightarrow>
     nat outcome \<times> bytes \<times> ('i, 't) sock"
where
  "socket_read pr W S reading buf sk =
     (case socket_recv pr W S reading buf sk of
        (r, buf, sk) \<Rightarrow>
          (bind_outcome r (\<lambda>n. case n of Some k \<Rightarrow> Ok k | None \<Rightarrow> Err (Custom WouldBlock No_Message)),
           buf, sk))"

definition socket_write ::
  "wire \<Rightarrow> ('i, 't) smoltcp \<Rightarrow> int \<Rightarrow> bytes \<Rightarrow> ('i, 't) sock \<Rightarrow> nat outcome \<times> ('i, 't) sock" where
  "socket_write W S reading buf sk = socket_send W S reading buf sk"

definition socket_flush :: "('i, 't) sock \<Rightarrow> unit outcome \<times> ('i, 't) sock" where
  "socket_flush sk = (Ok (), sk)"

section \<open>The XDP attachment\<close>

record xdp_attachment =
  xa_ifindex :: u32
  xa_native :: bool

text \<open>
  \<open>attach native\<close> is what the system answers: \<^const>\<open>None\<close> if the program is attached in that mode.
\<close>

primrec attach_attempts ::
  "(bool \<Rightarrow> int option) \<Rightarrow> u32 \<Rightarrow> bool list \<Rightarrow> io_error \<Rightarrow> xdp_attachment outcome \<times> os_event list" where
  "attach_attempts attach ifindex [] last_err = (Err last_err, [])"
| "attach_attempts attach ifindex (native # ms) last_err =
     (case attach native of
        None \<Rightarrow> (Ok \<lparr>xa_ifindex = ifindex, xa_native = native\<rparr>, [Attached (sint ifindex) native])
      | Some e \<Rightarrow> attach_attempts attach ifindex ms (Custom Other Attach_Xdp_Program))"

definition attach_xdp :: "(bool \<Rightarrow> int option) \<Rightarrow> u32 \<Rightarrow> xdp_attachment outcome \<times> os_event list" where
  "attach_xdp attach ifindex =
     attach_attempts attach ifindex [True, False] (Custom InvalidInput No_Message)"

text \<open>\<^verbatim>\<open>Drop for XdpAttachment\<close>: one \<^verbatim>\<open>detach\<close> in the mode of the attachment; what the system answers is ignored.\<close>

definition attachment_drop :: "(bool \<Rightarrow> int option) \<Rightarrow> xdp_attachment \<Rightarrow> os_event list" where
  "attachment_drop detach a =
     [Detach (sint (xa_ifindex a)) (xa_native a) (detach (xa_native a))]"

text \<open>
  \<^verbatim>\<open>ifindex\<close>: a name with a NUL byte becomes the empty name; index 0 means there is no such interface.
\<close>

definition ifindex :: "(string \<Rightarrow> u32) \<Rightarrow> string \<Rightarrow> u32 outcome" where
  "ifindex if_nametoindex ifname =
     (let c = (if CHR 0x00 \<in> set ifname then [] else ifname);
          idx = if_nametoindex c
      in if idx = 0 then Err (Custom NotFound (Interface_Not_Found ifname)) else Ok idx)"

definition load_skel :: "int + 'o \<Rightarrow> ('o \<Rightarrow> int + 'k) \<Rightarrow> 'k outcome" where
  "load_skel opened load =
     (case opened of
        Inl _ \<Rightarrow> Err (Custom Other Open_Skeleton)
      | Inr obj \<Rightarrow> (case load obj of Inl _ \<Rightarrow> Err (Custom Other Load_Skeleton) | Inr skel \<Rightarrow> Ok skel))"

text \<open>
  \<^verbatim>\<open>pin_cpu\<close>, over the calls of libc it makes: a refused \<^verbatim>\<open>sched_setaffinity\<close> is only reported.  The set is the
  zeroed \<^verbatim>\<open>cpu_set_t\<close>, sixteen words.
\<close>

record cpu_calls =
  cp_zero :: "u64 list \<Rightarrow> u64 list"
  cp_set :: "nat \<Rightarrow> u64 list \<Rightarrow> u64 list outcome"
  cp_setaffinity :: "u64 list \<Rightarrow> int option"

datatype pin_report = Cpu_Pinned nat | Cpu_Pin_Failed int

definition pin_cpu :: "cpu_calls \<Rightarrow> nat \<Rightarrow> pin_report outcome" where
  "pin_cpu C cpu =
     (let cpus = cp_zero C (replicate 16 0)
      in bind_outcome (cp_set C cpu cpus) (\<lambda>cpus.
           Ok (case cp_setaffinity C cpus of None \<Rightarrow> Cpu_Pinned cpu | Some e \<Rightarrow> Cpu_Pin_Failed e)))"

end
