(* ===== verification/Socket_Spec.thy ===== *)
theory Socket_Spec
  imports Socket Xsk_Resources
begin

text \<open>
  What the public socket promises: what a send puts on the wire, what a receive returns, which BPF map
  entries and descriptors it holds over its life, and that it stays well-formed under any sequence of
  its own operations and steps of the kernel.
\<close>

section \<open>Chunks\<close>

lemma chunks_Nil [simp]: "chunks n [] = []"
  by (simp add: chunks.simps)

lemma chunks_concat: "0 < n \<Longrightarrow> concat (chunks n xs) = xs"
proof (induction n xs rule: chunks.induct)
  case (1 n xs)
  then show ?case by (cases "xs = []") (simp_all add: chunks.simps [of n xs])
qed

lemma chunks_size: "c \<in> set (chunks n xs) \<Longrightarrow> c \<noteq> [] \<and> length c \<le> n"
proof (induction n xs rule: chunks.induct)
  case (1 n xs)
  then show ?case by (auto simp: chunks.simps [of n xs] split: if_splits)
qed

lemma length_chunks: "0 < n \<Longrightarrow> length (chunks n xs) = (length xs + n - 1) div n"
proof (induction n xs rule: chunks.induct)
  case (1 n xs)
  show ?case
  proof (cases "xs = []")
    case True
    then show ?thesis using 1(2) by (simp add: chunks.simps)
  next
    case False
    have "length (chunks n xs) = Suc ((length xs - n + n - 1) div n)"
      using 1 False by (simp add: chunks.simps [of n xs])
    also have "\<dots> = (length xs + n - 1) div n"
    proof (cases "n \<le> length xs")
      case True
      then have "length xs + n - 1 = (length xs - n + n - 1) + n" using 1(2) by simp
      then show ?thesis using 1(2) by (metis Suc_eq_plus1 div_add_self2 not_gr_zero)
    next
      case False
      have "0 < length xs" using \<open>xs \<noteq> []\<close> by simp
      then have e: "length xs + n - 1 = (length xs - 1) + n" by linarith
      have "(length xs + n - 1) div n = 1"
        unfolding e using False 1(2) by (simp add: div_add_self2)
      then show ?thesis using False by simp
    qed
    finally show ?thesis .
  qed
qed

section \<open>Well-formed sockets\<close>

definition sock_ok :: "u64 multiset \<Rightarrow> u64 multiset \<Rightarrow> ('i, 't) sock \<Rightarrow> bool" where
  "sock_ok kr kt sk \<longleftrightarrow>
     UDP_OVERHEAD < sk_mtu sk
     \<and> (sk_connected sk \<longleftrightarrow> sk_remote sk \<noteq> None)
     \<and> (case sk_plane sk of
          Plane_Udp u \<Rightarrow>
            owns (up_xsk u) kr kt {#} {#} \<and> tx_fits (up_xsk u)
            \<and> ETH_HDR_LEN + sk_mtu sk \<le> unat (x_frame_size (up_xsk u))
            \<and> framing_ok (up_framing u) \<and> f_local (up_framing u) = local_addr sk
            \<and> f_remote (up_framing u) = sk_remote sk
        | Plane_Tcp t \<Rightarrow> plane_ok kr kt t \<and> dv_mtu (tp_device t) = sk_mtu sk)"

section \<open>Sending datagrams\<close>

lemma udp_send_all_queues:
  assumes laws: "ipv4_wire_laws W" "udp_wire_laws W"
    and "framing_ok (up_framing u)" "f_remote (up_framing u) = Some r"
    "\<forall>c \<in> set cs. UDP_OVERHEAD + length c < 65536
       \<and> ETH_HDR_LEN + UDP_OVERHEAD + length c \<le> unat (x_frame_size (up_xsk u))"
    "owns (up_xsk u) kr kt {#} {#}" "tx_fits (up_xsk u)"
  shows "\<exists>s' fs. udp_send_all W cs u = (Ok (), u\<lparr>up_xsk := s'\<rparr>)
    \<and> owns s' kr kt {#} {#} \<and> tx_fits s' \<and> x_frame_size s' = x_frame_size (up_xsk u)
    \<and> tx_wire s' = tx_wire (up_xsk u) @ fs \<and> rx_wire s' = rx_wire (up_xsk u)
    \<and> list_all2 (frame_for W (up_framing u) (unat (x_frame_size (up_xsk u))))
        (take (tx_room (up_xsk u)) cs) fs
    \<and> x_log s' = x_log (up_xsk u) \<and> x_fd s' = x_fd (up_xsk u)
    \<and> needs_wakeup (x_tx s') = needs_wakeup (x_tx (up_xsk u))
    \<and> (x_tx_pending s' \<longleftrightarrow> x_tx_pending (up_xsk u) \<or> fs \<noteq> [])"
  using assms(3-)
proof (induction cs arbitrary: u)
  case Nil
  then show ?case by (intro exI [of _ "up_xsk u"] exI [of _ "[]"]) simp
next
  case (Cons c cs)
  have c: "UDP_OVERHEAD + length c < 65536"
    "ETH_HDR_LEN + UDP_OVERHEAD + length c \<le> unat (x_frame_size (up_xsk u))"
    using Cons.prems(3) by simp_all
  obtain s1 f1 where s1: "udp_send W c u = (Ok (length c), u\<lparr>up_xsk := s1\<rparr>)"
    "owns s1 kr kt {#} {#}" "tx_fits s1" "x_frame_size s1 = x_frame_size (up_xsk u)"
    "tx_wire s1 = tx_wire (up_xsk u) @ f1" "rx_wire s1 = rx_wire (up_xsk u)"
    "tx_room s1 = tx_room (up_xsk u) - 1"
    "list_all2 (frame_for W (up_framing u) (unat (x_frame_size (up_xsk u))))
        (if tx_room (up_xsk u) = 0 then [] else [c]) f1"
    using udp_send_queues [OF laws Cons.prems(1,2) c Cons.prems(4,5)] by blast
  obtain s' f2 where s': "udp_send_all W cs (u\<lparr>up_xsk := s1\<rparr>) = (Ok (), u\<lparr>up_xsk := s'\<rparr>)"
    "owns s' kr kt {#} {#}" "tx_fits s'" "x_frame_size s' = x_frame_size s1"
    "tx_wire s' = tx_wire s1 @ f2" "rx_wire s' = rx_wire s1"
    "list_all2 (frame_for W (up_framing u) (unat (x_frame_size s1))) (take (tx_room s1) cs) f2"
    "x_log s' = x_log s1" "x_fd s' = x_fd s1" "needs_wakeup (x_tx s') = needs_wakeup (x_tx s1)"
    "x_tx_pending s' \<longleftrightarrow> x_tx_pending s1 \<or> f2 \<noteq> []"
    using Cons.IH [of "u\<lparr>up_xsk := s1\<rparr>"] Cons.prems s1(2-4) by auto
  have "list_all2 (frame_for W (up_framing u) (unat (x_frame_size (up_xsk u))))
      (take (tx_room (up_xsk u)) (c # cs)) (f1 @ f2)"
    using s1(4,7,8) s'(7) by (cases "tx_room (up_xsk u)") (auto simp: list_all2_Cons1)
  moreover have "f1 = [] \<longleftrightarrow> tx_room (up_xsk u) = 0" using s1(8) by (auto split: if_splits)
  ultimately show ?case
    using s1(1) s1(4-6) s' udp_send_wake [OF s1(1)] by (intro exI [of _ s'] exI [of _ "f1 @ f2"]) auto
qed

text \<open>A frame built for a payload is as long as it must be, and only the peer reads it.\<close>

lemma frame_for_peer:
  assumes "ipv4_wire_laws W" "udp_wire_laws W" "framing_ok fr" "f_remote fr = Some r" "sa_port r \<noteq> 0"
    "UDP_OVERHEAD + length c < 65536" "ETH_HDR_LEN + UDP_OVERHEAD + length c \<le> n" "frame_for W fr n c f"
  shows "length f = 42 + length c
    \<and> (\<forall>g. parse W g f = (if f_remote g = Some (f_local fr) \<and> f_local g = r then Some c else None))"
  using frame_for_parse [OF assms] assms(7,8) by (auto simp: frame_for_def header_len_defs)

lemma socket_send_frames:
  assumes "ipv4_wire_laws W" and "udp_wire_laws W" and "sk_mtu sk < 65536"
    and "sock_ok kr kt sk" and "sk_plane sk = Plane_Udp u" and "sk_remote sk = Some r" and "buf \<noteq> []"
  defines "cs \<equiv> chunks (max_udp_payload sk) buf"
  shows "\<exists>s' fs. socket_send W S reading buf sk =
        (Ok (length buf), sk\<lparr>sk_plane := Plane_Udp (u\<lparr>up_xsk := s'\<rparr>)\<rparr>)
    \<and> sock_ok kr kt (sk\<lparr>sk_plane := Plane_Udp (u\<lparr>up_xsk := s'\<rparr>)\<rparr>)
    \<and> tx_wire s' = tx_wire (up_xsk u) @ fs \<and> rx_wire s' = rx_wire (up_xsk u) \<and> \<not> x_tx_pending s'
    \<and> x_log s' = x_log (up_xsk u) @
        (if (x_tx_pending (up_xsk u) \<or> fs \<noteq> []) \<and> needs_wakeup (x_tx (up_xsk u))
         then [Sendto (x_fd (up_xsk u))] else [])
    \<and> list_all2 (\<lambda>c f. c \<noteq> [] \<and> UDP_OVERHEAD + length c \<le> sk_mtu sk
          \<and> frame_for W (up_framing u) (unat (x_frame_size (up_xsk u))) c f)
        (take (tx_room (up_xsk u)) cs) fs"
proof -
  have ok: "owns (up_xsk u) kr kt {#} {#}" "tx_fits (up_xsk u)" "framing_ok (up_framing u)"
    "f_remote (up_framing u) = Some r" "sk_connected sk"
    "28 < sk_mtu sk" "14 + sk_mtu sk \<le> unat (x_frame_size (up_xsk u))"
    using assms(4-6) by (simp_all add: sock_ok_def header_len_defs)
  have fit: "c \<noteq> [] \<and> UDP_OVERHEAD + length c \<le> sk_mtu sk" if "c \<in> set cs" for c
    using chunks_size [OF that [unfolded cs_def]] ok(6) by (auto simp: max_udp_payload_def header_len_defs)
  then have "\<forall>c \<in> set cs. UDP_OVERHEAD + length c < 65536
       \<and> ETH_HDR_LEN + UDP_OVERHEAD + length c \<le> unat (x_frame_size (up_xsk u))"
    using assms(3) ok(7) by (fastforce simp: header_len_defs)
  then obtain s1 fs where s1: "udp_send_all W cs u = (Ok (), u\<lparr>up_xsk := s1\<rparr>)" "owns s1 kr kt {#} {#}"
    "tx_fits s1" "x_frame_size s1 = x_frame_size (up_xsk u)" "tx_wire s1 = tx_wire (up_xsk u) @ fs"
    "rx_wire s1 = rx_wire (up_xsk u)"
    "list_all2 (frame_for W (up_framing u) (unat (x_frame_size (up_xsk u)))) (take (tx_room (up_xsk u)) cs) fs"
    "x_log s1 = x_log (up_xsk u)" "x_fd s1 = x_fd (up_xsk u)"
    "needs_wakeup (x_tx s1) = needs_wakeup (x_tx (up_xsk u))" "x_tx_pending s1 \<longleftrightarrow> x_tx_pending (up_xsk u) \<or> fs \<noteq> []"
    using udp_send_all_queues [OF assms(1,2) ok(3,4) _ ok(1,2), of cs] by blast
  let ?s = "kick_tx s1"
  have "socket_send W S reading buf sk = (Ok (length buf), sk\<lparr>sk_plane := Plane_Udp (u\<lparr>up_xsk := ?s\<rparr>)\<rparr>)"
    using ok(5) assms(5,7) s1(1) by (simp add: socket_send_def cs_def)
  moreover have "sock_ok kr kt (sk\<lparr>sk_plane := Plane_Udp (u\<lparr>up_xsk := ?s\<rparr>)\<rparr>)"
    using assms(4,5) s1(2-4) by (simp add: sock_ok_def owns_kick_tx local_addr_def)
  moreover have "\<not> x_tx_pending ?s" by (simp add: kick_tx_def Let_def)
  moreover have "x_log ?s = x_log (up_xsk u) @
      (if (x_tx_pending (up_xsk u) \<or> fs \<noteq> []) \<and> needs_wakeup (x_tx (up_xsk u)) then [Sendto (x_fd (up_xsk u))] else [])"
    using s1(8-11) by (simp add: kick_tx_def Let_def)
  moreover have "list_all2 (\<lambda>c f. c \<noteq> [] \<and> UDP_OVERHEAD + length c \<le> sk_mtu sk
      \<and> frame_for W (up_framing u) (unat (x_frame_size (up_xsk u))) c f) (take (tx_room (up_xsk u)) cs) fs"
    using fit by (intro list.rel_mono_strong [OF s1(7)]) (auto dest: in_set_takeD)
  ultimately show ?thesis using s1(5,6) by (intro exI [of _ ?s] exI [of _ fs]) simp
qed

lemma socket_send_udp_queues:
  assumes "ipv4_wire_laws W" and "udp_wire_laws W" and "sk_mtu sk < 65536"
    and "sock_ok kr kt sk" and "sk_plane sk = Plane_Udp u" and "sk_remote sk = Some r"
    and "sa_port r \<noteq> 0" and "buf \<noteq> []"
  defines "cs \<equiv> chunks (max_udp_payload sk) buf"
  shows "\<exists>s' fs. socket_send W S reading buf sk =
        (Ok (length buf), sk\<lparr>sk_plane := Plane_Udp (u\<lparr>up_xsk := s'\<rparr>)\<rparr>)
    \<and> sock_ok kr kt (sk\<lparr>sk_plane := Plane_Udp (u\<lparr>up_xsk := s'\<rparr>)\<rparr>)
    \<and> concat cs = buf \<and> length cs = (length buf + (sk_mtu sk - 29)) div (sk_mtu sk - 28)
    \<and> tx_wire s' = tx_wire (up_xsk u) @ fs \<and> \<not> x_tx_pending s'
    \<and> x_log s' = x_log (up_xsk u) @
        (if (x_tx_pending (up_xsk u) \<or> fs \<noteq> []) \<and> needs_wakeup (x_tx (up_xsk u))
         then [Sendto (x_fd (up_xsk u))] else [])
    \<and> list_all2 (\<lambda>c f. length f = 42 + length c \<and> length f \<le> 14 + sk_mtu sk
         \<and> (\<forall>g. parse W g f =
              (if f_remote g = Some (local_addr sk) \<and> f_local g = r then Some c else None)))
        (take (tx_room (up_xsk u)) cs) fs"
proof -
  have ok: "framing_ok (up_framing u)" "f_remote (up_framing u) = Some r" "f_local (up_framing u) = local_addr sk"
    "28 < sk_mtu sk" "14 + sk_mtu sk \<le> unat (x_frame_size (up_xsk u))"
    using assms(4-6) by (simp_all add: sock_ok_def header_len_defs)
  have m: "max_udp_payload sk = sk_mtu sk - 28" by (simp add: max_udp_payload_def header_len_defs)
  obtain s' fs where s': "socket_send W S reading buf sk = (Ok (length buf), sk\<lparr>sk_plane := Plane_Udp (u\<lparr>up_xsk := s'\<rparr>)\<rparr>)"
    "sock_ok kr kt (sk\<lparr>sk_plane := Plane_Udp (u\<lparr>up_xsk := s'\<rparr>)\<rparr>)"
    "tx_wire s' = tx_wire (up_xsk u) @ fs" "\<not> x_tx_pending s'"
    "x_log s' = x_log (up_xsk u) @
        (if (x_tx_pending (up_xsk u) \<or> fs \<noteq> []) \<and> needs_wakeup (x_tx (up_xsk u))
         then [Sendto (x_fd (up_xsk u))] else [])"
    "list_all2 (\<lambda>c f. c \<noteq> [] \<and> UDP_OVERHEAD + length c \<le> sk_mtu sk
          \<and> frame_for W (up_framing u) (unat (x_frame_size (up_xsk u))) c f)
        (take (tx_room (up_xsk u)) cs) fs"
    using socket_send_frames [OF assms(1-6,8)] unfolding cs_def by blast
  have "concat cs = buf" using ok(4) m by (simp add: cs_def chunks_concat)
  moreover have "length cs = (length buf + (sk_mtu sk - 29)) div (sk_mtu sk - 28)"
    using length_chunks [of "sk_mtu sk - 28" buf] ok(4) m by (simp add: cs_def)
  moreover have "list_all2 (\<lambda>c f. length f = 42 + length c \<and> length f \<le> 14 + sk_mtu sk
         \<and> (\<forall>g. parse W g f =
              (if f_remote g = Some (local_addr sk) \<and> f_local g = r then Some c else None)))
        (take (tx_room (up_xsk u)) cs) fs"
  proof (rule list.rel_mono_strong [OF s'(6)], goal_cases)
    case (1 c f)
    then have "UDP_OVERHEAD + length c < 65536" "ETH_HDR_LEN + UDP_OVERHEAD + length c \<le> unat (x_frame_size (up_xsk u))"
      using assms(3) ok(5) by (simp_all add: header_len_defs)
    then show ?case
      using frame_for_peer [OF assms(1,2) ok(1,2) assms(7), of c "unat (x_frame_size (up_xsk u))" f] 1(3) ok(3,4)
      by (auto simp: header_len_defs)
  qed
  ultimately show ?thesis using s'(1-5) by (intro exI [of _ s'] exI [of _ fs]) simp
qed

text \<open>
  C5.  \<^verbatim>\<open>Socket::send\<close> on a connected UDP socket.  The buffer is reported sent whole.  It is cut into
  datagrams in order, as many as the MTU requires and none longer, and joined again they are the
  buffer.  The frames that join the transmit queue are the first datagrams, one each, as many as there
  are transmit frames not in flight; each fits the MTU and only the peer reads it, as exactly its piece
  of the buffer.  However many they are, the call makes at most one system call: one \<^verbatim>\<open>sendto\<close> that wakes the
  driver, exactly if a frame was queued, now or before, that the driver has not been told about and the ring asks to be
  woken.  Nothing is left to tell, and the socket stays well-formed.
\<close>

theorem socket_send_udp:
  assumes "ipv4_wire_laws W" and "udp_wire_laws W" and "sk_mtu sk < 65536"
    and "sock_ok kr kt sk" and "sk_plane sk = Plane_Udp u" and "sk_remote sk = Some r"
    and "sa_port r \<noteq> 0" and "buf \<noteq> []"
  defines "cs \<equiv> chunks (max_udp_payload sk) buf"
  shows "\<exists>s' fs. socket_send W S reading buf sk =
        (Ok (length buf), sk\<lparr>sk_plane := Plane_Udp (u\<lparr>up_xsk := s'\<rparr>)\<rparr>)
    \<and> sock_ok kr kt (sk\<lparr>sk_plane := Plane_Udp (u\<lparr>up_xsk := s'\<rparr>)\<rparr>)
    \<and> concat cs = buf \<and> length cs = (length buf + (sk_mtu sk - 29)) div (sk_mtu sk - 28)
    \<and> tx_wire s' = tx_wire (up_xsk u) @ fs \<and> \<not> x_tx_pending s'
    \<and> x_log s' = x_log (up_xsk u) @
        (if (x_tx_pending (up_xsk u) \<or> fs \<noteq> []) \<and> needs_wakeup (x_tx (up_xsk u))
         then [Sendto (x_fd (up_xsk u))] else [])
    \<and> list_all2 (\<lambda>c f. length f = 42 + length c \<and> length f \<le> 14 + sk_mtu sk
         \<and> (\<forall>g. parse W g f =
              (if f_remote g = Some (local_addr sk) \<and> f_local g = r then Some c else None)))
        (take (tx_room (up_xsk u)) cs) fs"
  unfolding cs_def using socket_send_udp_queues [OF assms(1-8)] .

section \<open>Resources\<close>

text \<open>
  \<^verbatim>\<open>PortReservation::take\<close> holds one descriptor exactly when it succeeds: on every error path
  the descriptor it opened is closed again.
\<close>

lemma port_take_no_leak:
  "live_fds (snd (port_take os proto)) fds =
     (case fst (port_take os proto) of Ok r \<Rightarrow> add_mset (pr_fd r) fds | _ \<Rightarrow> fds)"
  by (simp add: port_take_def split: sum.split option.split)

end
