(* ===== verification/Socket_Life.thy ===== *)
theory Socket_Life
  imports Socket_Spec
begin

text \<open>
  The life of a socket: what \<^verbatim>\<open>new\<close> sets up, that it stays well-formed and keeps its resources under
  any sequence of its operations and kernel steps, and what \<^verbatim>\<open>drop\<close> takes away again.
\<close>

section \<open>What \<^verbatim>\<open>new\<close> sets up\<close>

lemma socket_new_Ok:
  assumes "socket_new p S w proto cfg maps = (Ok sk, maps', log)"
  shows "\<exists>x l m l'. UDP_OVERHEAD < cfg_mtu cfg
    \<and> xsk_new p (w_xsk w) (cfg_ifindex cfg) (cfg_queue_id cfg) (cfg_mtu cfg) (cfg_hugepage cfg)
        (cfg_xdp_mode cfg) = (Ok x, l)
    \<and> map_update (w_map_err w) (cfg_queue_id cfg) (x_fd x) (xsks_map maps) = Inr m
    \<and> port_take (w_port w) proto = (Ok (sk_port sk), l')
    \<and> maps' = maps\<lparr>xsks_map := m\<rparr> \<and> log = l @ l' \<and> plane_xsk (sk_plane sk) = x
    \<and> sk_queue_id sk = cfg_queue_id cfg \<and> sk_mtu sk = cfg_mtu cfg \<and> sk_our_ip sk = cfg_our_ip cfg
    \<and> \<not> sk_connected sk \<and> sk_remote sk = None
    \<and> (case sk_plane sk of
         Plane_Udp u \<Rightarrow> up_framing u = \<lparr>f_src_mac = cfg_our_mac cfg, f_dst_mac = cfg_peer_mac cfg,
           f_local = local_addr sk, f_remote = None\<rparr>
       | Plane_Tcp t \<Rightarrow> tp_device t = \<lparr>dv_src_mac = cfg_our_mac cfg, dv_dst_mac = cfg_peer_mac cfg,
           dv_mtu = cfg_mtu cfg\<rparr>)"
proof -
  have mtu: "UDP_OVERHEAD < cfg_mtu cfg"
    using assms by (simp add: socket_new_def not_le split: if_splits)
  obtain xr l where x: "xsk_new p (w_xsk w) (cfg_ifindex cfg) (cfg_queue_id cfg) (cfg_mtu cfg)
      (cfg_hugepage cfg) (cfg_xdp_mode cfg) = (xr, l)" by fastforce
  obtain x where xr: "xr = Ok x"
    using assms mtu x by (cases xr) (simp_all add: socket_new_def)
  obtain m where m: "map_update (w_map_err w) (cfg_queue_id cfg) (x_fd x) (xsks_map maps) = Inr m"
    using assms mtu x xr by (auto simp: socket_new_def split: sum.splits)
  obtain pr l' where pr: "port_take (w_port w) proto = (pr, l')" by fastforce
  obtain port where port: "pr = Ok port"
    using assms mtu x xr m pr by (cases pr) (simp_all add: socket_new_def Let_def)
  show ?thesis
    using assms mtu x xr m pr port
    by (cases proto) (auto simp: socket_new_def Let_def plane_xsk_def local_addr_def tcp_new_def)
qed

lemma socket_new_sock_ok:
  assumes "rings_zeroed (w_xsk w)" "ETH_HDR_LEN + cfg_mtu cfg \<le> 2 ^ 63" "os_page_size (w_xsk w) < 2 ^ 32"
    "length (cfg_our_mac cfg) = 6" "length (cfg_peer_mac cfg) = 6"
    "socket_new p S w proto cfg maps = (Ok sk, maps', log)"
  shows "sock_ok {#} {#} sk" "sk_mtu sk = cfg_mtu cfg"
proof -
  obtain x l where n: "UDP_OVERHEAD < cfg_mtu cfg"
    "xsk_new p (w_xsk w) (cfg_ifindex cfg) (cfg_queue_id cfg) (cfg_mtu cfg) (cfg_hugepage cfg)
        (cfg_xdp_mode cfg) = (Ok x, l)"
    "plane_xsk (sk_plane sk) = x" "sk_mtu sk = cfg_mtu cfg" "\<not> sk_connected sk" "sk_remote sk = None"
    "case sk_plane sk of
         Plane_Udp u \<Rightarrow> up_framing u = \<lparr>f_src_mac = cfg_our_mac cfg, f_dst_mac = cfg_peer_mac cfg,
           f_local = local_addr sk, f_remote = None\<rparr>
       | Plane_Tcp t \<Rightarrow> tp_device t = \<lparr>dv_src_mac = cfg_our_mac cfg, dv_dst_mac = cfg_peer_mac cfg,
           dv_mtu = cfg_mtu cfg\<rparr>"
    using socket_new_Ok [OF assms(6)] by auto
  have x: "owns x {#} {#} {#} {#}" "ETH_HDR_LEN + cfg_mtu cfg \<le> unat (x_frame_size x)" "tx_fits x"
    using xsk_new_owns_fresh [OF assms(1-3) n(2)] xsk_new_tx_empty [OF assms(1) n(2)]
    by (simp_all add: tx_fits_def)
  show "sk_mtu sk = cfg_mtu cfg" by (rule n(4))
  show "sock_ok {#} {#} sk"
    using n(1,3-) x assms(4,5)
    by (cases "sk_plane sk")
       (auto simp: sock_ok_def plane_xsk_def plane_ok_def device_ok_def framing_ok_def)
qed

lemma port_take_fds:
  assumes "port_take os proto = (Ok r, l)"
  shows "live_fds l fds = add_mset (pr_fd r) fds" "live_maps l mps = mps"
  using assms by (cases r; auto simp: port_take_def split: sum.splits option.splits)+

text \<open>
  C10.  A successful \<^verbatim>\<open>Socket::new\<close>, in either build profile and for either protocol, leaves a
  well-formed socket, not yet connected, whose frames all lie where they should; the XDP program finds
  the socket on its queue, no other queue and no flow is touched; and exactly two descriptors are open,
  the AF\_XDP socket and the port reservation.
\<close>

theorem socket_new_establishes:
  assumes "rings_zeroed (w_xsk w)" and "mmap_nonnull (w_xsk w)"
    and "ETH_HDR_LEN + cfg_mtu cfg \<le> 2 ^ 63" and "os_page_size (w_xsk w) < 2 ^ 32"
    and "length (cfg_our_mac cfg) = 6" and "length (cfg_peer_mac cfg) = 6"
    and "socket_new p S w proto cfg maps = (Ok sk, maps', log)"
  shows "sock_ok {#} {#} sk \<and> \<not> sk_connected sk
    \<and> config_map maps' = config_map maps
    \<and> map_of (xsks_map maps') =
        (map_of (xsks_map maps))(cfg_queue_id cfg \<mapsto> x_fd (plane_xsk (sk_plane sk)))
    \<and> live_fds log {#} = {#x_fd (plane_xsk (sk_plane sk)), pr_fd (sk_port sk)#}"
proof -
  obtain x l m l' where n:
    "xsk_new p (w_xsk w) (cfg_ifindex cfg) (cfg_queue_id cfg) (cfg_mtu cfg) (cfg_hugepage cfg)
        (cfg_xdp_mode cfg) = (Ok x, l)"
    "map_update (w_map_err w) (cfg_queue_id cfg) (x_fd x) (xsks_map maps) = Inr m"
    "port_take (w_port w) proto = (Ok (sk_port sk), l')"
    "maps' = maps\<lparr>xsks_map := m\<rparr>" "log = l @ l'" "plane_xsk (sk_plane sk) = x" "\<not> sk_connected sk"
    using socket_new_Ok [OF assms(7)] by auto
  show ?thesis
    using n socket_new_sock_ok(1) [OF assms(1,3-7)] xsk_new_drop(1) [OF assms(2) n(1)]
      bpf.update_lookup [OF n(2)] port_take_fds(1) [OF n(3)]
    by (simp add: add_mset_commute)
qed

section \<open>Resources are kept\<close>

text \<open>No operation of the data path, nor the kernel, changes what dropping the socket releases.\<close>

lemma ring_drop_update [simp]:
  "ring_drop (ring_produce d r) = ring_drop r" "ring_drop (peer_produce e q) = ring_drop q"
  "ring_drop (r\<lparr>r_consumer := c\<rparr>) = ring_drop r" "ring_drop (r\<lparr>r_flags := fl\<rparr>) = ring_drop r"
  by (simp_all add: ring_drop_def ring_produce_def ring_put_def ring_publish_def peer_produce_def)

lemma ring_drop_consume: "ring_consume r = Some (d, r') \<Longrightarrow> ring_drop r' = ring_drop r"
  by (auto simp: ring_consume_def split: if_splits)

lemma xsk_drop_cong:
  "x_fd s = x_fd s' \<Longrightarrow> x_umem_ptr s = x_umem_ptr s' \<Longrightarrow> x_umem_len s = x_umem_len s' \<Longrightarrow>
   ring_drop (x_fill s) = ring_drop (x_fill s') \<Longrightarrow> ring_drop (x_comp s) = ring_drop (x_comp s') \<Longrightarrow>
   ring_drop (x_rx s) = ring_drop (x_rx s') \<Longrightarrow> ring_drop (x_tx s) = ring_drop (x_tx s') \<Longrightarrow>
   xsk_drop s = xsk_drop s'"
  by (simp only: xsk_drop_def)

lemma xsk_drop_kept [simp]:
  "xsk_drop (recycle a s) = xsk_drop s" "xsk_drop (tx_submit a n s) = xsk_drop s"
  "xsk_drop (set_frame s a bs) = xsk_drop s" "xsk_drop (kick_rx s) = xsk_drop s"
  "xsk_drop (kick_tx s) = xsk_drop s" "xsk_drop (reclaim_comp s) = xsk_drop s"
  by (rule xsk_drop_cong;
      simp add: recycle_def tx_submit_def set_frame_def kick_rx_def kick_tx_def reclaim_comp_def Let_def)+

lemma xsk_drop_rx_peek: "rx_peek s = (r, s') \<Longrightarrow> xsk_drop s' = xsk_drop s"
  by (rule xsk_drop_cong) (auto simp: rx_peek_def ring_drop_consume split: option.splits)

lemma xsk_drop_tx_alloc: "tx_alloc s = (r, s') \<Longrightarrow> xsk_drop s' = xsk_drop s"
  using xsk_drop_kept(6) [of s] by (auto simp: tx_alloc_def Let_def split: if_splits)

lemma xsk_drop_kernel_step: "kernel_step (s, kr, kt) (s', kr', kt') \<Longrightarrow> xsk_drop s' = xsk_drop s"
  by (erule kernel_step.cases)
     (auto intro!: xsk_drop_cong simp: ring_drop_consume)

lemma drive_keeps:
  assumes "drive take_rx done_rx offer_tx send_tx prog s = Ok (x, s')"
    and "\<And>s r s'. take_rx s = (r, s') \<Longrightarrow> P s' = P s"
    and "\<And>tok s. P (done_rx tok s) = P s"
    and "\<And>req s s'. send_tx req s = Ok s' \<Longrightarrow> P s' = P s"
  shows "P s' = P s"
  using assms(1)
proof (induction prog arbitrary: s)
  case (Finish y)
  then show ?case by simp
next
  case (Receive idle reply nxt)
  obtain r s1 where r: "take_rx s = (r, s1)" by fastforce
  show ?case
  proof (cases r)
    case None
    then show ?thesis using Receive assms(2) [OF r] r by simp
  next
    case (Some tp)
    obtain tok p where "tp = (tok, p)" by fastforce
    then show ?thesis
      using Receive.prems Receive.IH(2) [of "nxt p"] assms(2) [OF r] assms(3,4) r Some
      by (auto simp: bind_outcome_eq_Ok_iff split: option.splits)
  qed
next
  case (Transmit idle req nxt)
  then show ?case using assms(4) by (cases req) (auto simp: bind_outcome_eq_Ok_iff split: if_splits)
qed

lemma xsk_drop_tcp_poll:
  assumes "tcp_poll S reading p = Ok p'"
  shows "xsk_drop (tp_xsk p') = xsk_drop (tp_xsk p)" "tp_device p' = tp_device p"
proof -
  obtain now p1 where now: "tcp_now reading p = (now, p1)" by fastforce
  obtain i t s where d: "drive device_receive rx_token_done device_transmit (tx_token_consume (tp_device p1))
      (sm_poll S now (tp_iface p1) (tp_socket p1)) (tp_xsk p1) = Ok ((i, t), s)"
    and p': "p' = p1\<lparr>tp_iface := i, tp_socket := t, tp_xsk := kick_rx (kick_tx s)\<rparr>"
    using assms now by (auto simp: tcp_poll_def bind_outcome_eq_Ok_iff)
  have "xsk_drop s = xsk_drop (tp_xsk p1)"
  proof (rule drive_keeps [OF d])
    show "xsk_drop s' = xsk_drop s" if "device_receive s = (r, s')" for s r s'
      using that by (auto simp: device_receive_def split: prod.splits option.splits dest: xsk_drop_rx_peek)
    show "xsk_drop (rx_token_done tok s) = xsk_drop s" for tok s
      by (simp add: rx_token_done_def)
    show "xsk_drop s' = xsk_drop s" if "tx_token_consume d req s = Ok s'" for d req s s'
      using that
      by (auto simp: tx_token_consume_def Let_def split: prod.splits option.splits dest: xsk_drop_tx_alloc)
  qed
  then show "xsk_drop (tp_xsk p') = xsk_drop (tp_xsk p)" "tp_device p' = tp_device p"
    using tcp_now_fields [OF now] p' by simp_all
qed

section \<open>Operations keep a socket well-formed\<close>

text \<open>
  What the operations rely on from the code outside the repository: a header library that obeys its
  laws, and a TCP stack that respects the MTU its device announces.
\<close>

definition env_ok :: "wire \<Rightarrow> ('i, 't) smoltcp \<Rightarrow> nat \<Rightarrow> bool" where
  "env_ok W S mtu \<longleftrightarrow>
     ipv4_wire_laws W \<and> udp_wire_laws W \<and> mtu < 65536
     \<and> (\<forall>now i t. good_prog mtu (sm_poll S now i t))"

text \<open>The releases that dropping a socket makes.\<close>

definition sock_releases :: "('i, 't) sock \<Rightarrow> os_event list" where
  "sock_releases sk = port_drop (sk_port sk) @ xsk_drop (plane_xsk (sk_plane sk))"

definition sock_inv ::
  "wire \<Rightarrow> ('i, 't) smoltcp \<Rightarrow> os_event list \<Rightarrow> u64 multiset \<Rightarrow> u64 multiset \<Rightarrow> ('i, 't) sock \<Rightarrow> bool" where
  "sock_inv W S rel kr kt sk \<longleftrightarrow> env_ok W S (sk_mtu sk) \<and> sock_ok kr kt sk \<and> sock_releases sk = rel"

lemma tcp_poll_ok:
  assumes "plane_ok kr kt p" "good_prog (dv_mtu (tp_device p)) (sm_poll S (fst (tcp_now reading p)) (tp_iface p) (tp_socket p))"
    "tcp_poll S reading p = Ok p'"
  shows "plane_ok kr kt p'"
proof -
  obtain now p1 where now: "tcp_now reading p = (now, p1)" by fastforce
  obtain i t rest sent where q: "drive_queues (sm_poll S now (tp_iface p) (tp_socket p))
      (map (drop ETH_HDR_LEN) (rx_wire (tp_xsk p))) = ((i, t), rest, sent)" by (metis prod.collapse)
  show ?thesis
    using tcp_poll_queues [OF assms(1) now _ q] assms(2,3) now
    by (auto simp: plane_ok_def split: if_splits)
qed

lemma sock_inv_tcp:
  assumes "sock_inv W S rel kr kt sk" "sk_plane sk = Plane_Tcp t" "tp_xsk t0 = tp_xsk t" "tp_device t0 = tp_device t"
    "tcp_poll S reading t0 = Ok t1" "tp_xsk t' = tp_xsk t1" "tp_device t' = tp_device t1"
  shows "sock_inv W S rel kr kt (sk\<lparr>sk_plane := Plane_Tcp t'\<rparr>)"
proof -
  have t: "plane_ok kr kt t" "dv_mtu (tp_device t) = sk_mtu sk" "env_ok W S (sk_mtu sk)"
    using assms(1,2) by (simp_all add: sock_inv_def sock_ok_def)
  have "plane_ok kr kt t0" using t(1) assms(3,4) by (simp add: plane_ok_def)
  then have "plane_ok kr kt t1"
    by (rule tcp_poll_ok [OF _ _ assms(5)]) (use t assms(4) in \<open>simp add: env_ok_def\<close>)
  then show ?thesis
    using assms t xsk_drop_tcp_poll [OF assms(5)]
    by (simp add: sock_inv_def sock_ok_def plane_ok_def sock_releases_def plane_xsk_def)
qed

lemma sock_inv_plain:
  assumes "sock_inv W S rel kr kt sk" "sk_plane sk = Plane_Tcp t" "tp_xsk t' = tp_xsk t" "tp_device t' = tp_device t"
  shows "sock_inv W S rel kr kt (sk\<lparr>sk_plane := Plane_Tcp t'\<rparr>)"
  using assms by (simp add: sock_inv_def sock_ok_def plane_ok_def sock_releases_def plane_xsk_def)

lemma udp_send_kept:
  "udp_send W c u = (r, u') \<Longrightarrow> xsk_drop (up_xsk u') = xsk_drop (up_xsk u) \<and> up_framing u' = up_framing u"
  by (auto simp: udp_send_def split: if_splits prod.splits option.splits outcome.splits
      dest: xsk_drop_tx_alloc)

lemma udp_send_all_kept:
  "udp_send_all W cs u = (r, u') \<Longrightarrow> xsk_drop (up_xsk u') = xsk_drop (up_xsk u)"
proof (induction cs arbitrary: u)
  case Nil
  then show ?case by simp
next
  case (Cons c cs)
  obtain r1 u1 where 1: "udp_send W c u = (r1, u1)" by fastforce
  then show ?case
    using Cons udp_send_kept [OF 1] by (cases r1) auto
qed

lemma recv_into_kept:
  "recv_into W buf u = (r, buf', u') \<Longrightarrow> xsk_drop (up_xsk u') = xsk_drop (up_xsk u)"
  by (auto simp: recv_into_def Let_def split: if_splits prod.splits option.splits
      dest: xsk_drop_rx_peek)

lemma sock_inv_connected:
  "sock_inv W S rel kr kt (sk\<lparr>sk_plane := Plane_Tcp t\<rparr>) \<Longrightarrow>
   sock_inv W S rel kr kt (sk\<lparr>sk_plane := Plane_Tcp t, sk_remote := Some r, sk_connected := True\<rparr>)"
  by (simp add: sock_inv_def sock_ok_def sock_releases_def)

text \<open>Each TCP operation changes stack state, then polls or fails.\<close>

definition polls_from ::
  "('i, 't) smoltcp \<Rightarrow> int \<Rightarrow> ('i, 't) tcp_plane \<Rightarrow> ('i, 't) tcp_plane \<Rightarrow> bool" where
  "polls_from S reading t t' \<longleftrightarrow>
     (\<exists>t0. tp_xsk t0 = tp_xsk t \<and> tp_device t0 = tp_device t \<and> (t' = t0 \<or> tcp_poll S reading t0 = Ok t'))"

lemma polls_fromI:
  "tp_xsk t0 = tp_xsk t \<Longrightarrow> tp_device t0 = tp_device t \<Longrightarrow> t' = t0 \<or> tcp_poll S reading t0 = Ok t' \<Longrightarrow>
   polls_from S reading t t'"
  by (auto simp: polls_from_def)

lemma sock_inv_polls:
  assumes "sock_inv W S rel kr kt sk" "sk_plane sk = Plane_Tcp t" "polls_from S reading t t'"
  shows "sock_inv W S rel kr kt (sk\<lparr>sk_plane := Plane_Tcp t'\<rparr>)"
  using assms(3) sock_inv_plain [OF assms(1,2)] sock_inv_tcp [OF assms(1,2)]
  unfolding polls_from_def by blast

lemma start_connect_polls:
  assumes "start_connect S reading remote port t = (r, t')"
  shows "polls_from S reading t t'"
proof -
  obtain acc i k where c: "sm_connect S (tp_iface t) remote port (tp_socket t) = (acc, i, k)"
    by (metis prod.collapse)
  show ?thesis
    using assms c
    by (intro polls_fromI [of "t\<lparr>tp_iface := i, tp_socket := k\<rparr>"])
       (auto simp: start_connect_def Let_def split: if_splits outcome.splits)
qed

lemma tcp_send_polls:
  assumes "tcp_send S reading buf t = (r, t')"
  shows "polls_from S reading t t'"
proof -
  obtain o1 k where l: "send_loop S buf 0 (tp_socket t) = (o1, k)" by fastforce
  show ?thesis
    using assms l
    by (intro polls_fromI [of "t\<lparr>tp_socket := k\<rparr>"])
       (auto simp: tcp_send_def Let_def split: outcome.splits)
qed

lemma sock_inv_connect:
  assumes "sock_inv W S rel kr kt sk" "socket_connect S reading err remote maps sk = (r, maps', sk')"
  shows "sock_inv W S rel kr kt sk'"
proof (cases "add_flow_to_ebpf_tracking err (local_addr sk) remote (config_map maps)")
  case (Ok m)
  show ?thesis
  proof (cases "sk_plane sk")
    case (Plane_Tcp t)
    obtain r1 t1 where c: "start_connect S reading remote (pr_port (sk_port sk)) t = (r1, t1)" by fastforce
    have sk': "sk' = (if r1 = Ok () then sk\<lparr>sk_plane := Plane_Tcp t1, sk_remote := Some remote, sk_connected := True\<rparr>
        else sk\<lparr>sk_plane := Plane_Tcp t1\<rparr>)"
      using assms(2) Ok Plane_Tcp c by (cases r1) (auto simp: socket_connect_def Let_def)
    have "sock_inv W S rel kr kt (sk\<lparr>sk_plane := Plane_Tcp t1\<rparr>)"
      using sock_inv_polls [OF assms(1) Plane_Tcp start_connect_polls [OF c]] .
    then show ?thesis using sk' sock_inv_connected by auto
  next
    case (Plane_Udp u)
    then have "sk' = sk\<lparr>sk_plane := Plane_Udp (u\<lparr>up_framing := (up_framing u)\<lparr>f_remote := Some remote\<rparr>\<rparr>),
        sk_remote := Some remote, sk_connected := True\<rparr>"
      using assms(2) Ok by (auto simp: socket_connect_def Let_def)
    then show ?thesis
      using assms(1) Plane_Udp
      by (auto simp: sock_inv_def sock_ok_def sock_releases_def plane_xsk_def framing_ok_def local_addr_def)
  qed
qed (use assms in \<open>auto simp: socket_connect_def\<close>)

lemma sock_inv_poll_connect:
  assumes "sock_inv W S rel kr kt sk" "socket_poll_connect S reading sk = (r, sk')"
  shows "sock_inv W S rel kr kt sk'"
proof (cases "sk_plane sk")
  case (Plane_Tcp t)
  show ?thesis
  proof (cases "tcp_poll S reading t")
    case (Ok t1)
    have "sock_inv W S rel kr kt (sk\<lparr>sk_plane := Plane_Tcp t1\<rparr>)"
      using sock_inv_tcp [OF assms(1) Plane_Tcp refl refl Ok] by simp
    moreover have "snd (tcp_poll_connect S reading t) = t1"
      using Ok by (simp add: tcp_poll_connect_def split: tcp_state.split)
    ultimately show ?thesis
      using assms Plane_Tcp by (auto simp: socket_poll_connect_def split: prod.splits if_splits)
  next
    case (Err e)
    then show ?thesis
      using assms Plane_Tcp sock_inv_plain [OF assms(1) Plane_Tcp, of t]
      by (auto simp: socket_poll_connect_def tcp_poll_connect_def split: if_splits)
  next
    case (Panic q)
    then show ?thesis
      using assms Plane_Tcp sock_inv_plain [OF assms(1) Plane_Tcp, of t]
      by (auto simp: socket_poll_connect_def tcp_poll_connect_def split: if_splits)
  qed
next
  case (Plane_Udp u)
  then show ?thesis using assms by (auto simp: socket_poll_connect_def split: if_splits)
qed

lemma sock_inv_udp:
  assumes "sock_inv W S rel kr kt sk" "sk_plane sk = Plane_Udp u"
    "owns s kr kt {#} {#}" "tx_fits s" "x_frame_size s = x_frame_size (up_xsk u)"
    "xsk_drop s = xsk_drop (up_xsk u)"
  shows "sock_inv W S rel kr kt (sk\<lparr>sk_plane := Plane_Udp (u\<lparr>up_xsk := s\<rparr>)\<rparr>)"
  using assms by (simp add: sock_inv_def sock_ok_def sock_releases_def plane_xsk_def local_addr_def)

lemma sock_inv_send_udp:
  assumes "sock_inv W S rel kr kt sk" "sk_plane sk = Plane_Udp u" "sk_connected sk" "buf \<noteq> []"
    "socket_send W S reading buf sk = (r, sk')"
  shows "sock_inv W S rel kr kt sk'"
proof -
  let ?cs = "chunks (max_udp_payload sk) buf"
  have inv: "ipv4_wire_laws W" "udp_wire_laws W" "sk_mtu sk < 65536" "framing_ok (up_framing u)"
    "owns (up_xsk u) kr kt {#} {#}" "tx_fits (up_xsk u)" "28 < sk_mtu sk"
    "14 + sk_mtu sk \<le> unat (x_frame_size (up_xsk u))"
    using assms(1,2) by (simp_all add: sock_inv_def env_ok_def sock_ok_def header_len_defs)
  obtain rem where rem: "f_remote (up_framing u) = Some rem"
    using assms(1-3) by (auto simp: sock_inv_def sock_ok_def)
  have "\<forall>c \<in> set ?cs. UDP_OVERHEAD + length c < 65536
       \<and> ETH_HDR_LEN + UDP_OVERHEAD + length c \<le> unat (x_frame_size (up_xsk u))"
    using chunks_size [of _ "max_udp_payload sk" buf] inv(3,7,8)
    by (fastforce simp: max_udp_payload_def header_len_defs)
  then obtain s where s: "udp_send_all W ?cs u = (Ok (), u\<lparr>up_xsk := s\<rparr>)" "owns s kr kt {#} {#}"
    "tx_fits s" "x_frame_size s = x_frame_size (up_xsk u)"
    using udp_send_all_queues [OF inv(1,2,4) rem _ inv(5,6), of ?cs] by blast
  moreover have "xsk_drop s = xsk_drop (up_xsk u)" using udp_send_all_kept [OF s(1)] by simp
  ultimately show ?thesis
    using sock_inv_udp [OF assms(1,2), of "kick_tx s"] assms(2-5)
    by (auto simp: socket_send_def owns_kick_tx)
qed

lemma tcp_recv_cases:
  assumes "tcp_recv S reading buf t = (r, buf', t')"
  shows "(tp_xsk t' = tp_xsk t \<and> tp_device t' = tp_device t)
    \<or> (\<exists>t1. tcp_poll S reading t = Ok t1 \<and> tp_xsk t' = tp_xsk t1 \<and> tp_device t' = tp_device t1)"
  using assms
  by (auto simp: tcp_recv_def Let_def split: outcome.splits if_splits prod.splits sum.splits)

lemma sock_inv_send:
  assumes "sock_inv W S rel kr kt sk" "socket_send W S reading buf sk = (r, sk')"
  shows "sock_inv W S rel kr kt sk'"
proof (cases "sk_connected sk \<and> buf \<noteq> []")
  case False
  then show ?thesis using assms by (auto simp: socket_send_def split: if_splits)
next
  case True
  show ?thesis
  proof (cases "sk_plane sk")
    case (Plane_Udp u)
    then show ?thesis using sock_inv_send_udp [OF assms(1) Plane_Udp _ _ assms(2)] True by blast
  next
    case (Plane_Tcp t)
    obtain r1 t1 where c: "tcp_send S reading buf t = (r1, t1)" by fastforce
    then have "sk' = sk\<lparr>sk_plane := Plane_Tcp t1\<rparr>"
      using assms(2) True Plane_Tcp by (simp add: socket_send_def)
    then show ?thesis
      using sock_inv_polls [OF assms(1) Plane_Tcp tcp_send_polls [OF c]] by simp
  qed
qed

lemma sock_inv_recv:
  assumes "sock_inv W S rel kr kt sk" "socket_recv pr W S reading buf sk = (r, buf', sk')"
  shows "sock_inv W S rel kr kt sk'"
proof (cases "sk_connected sk \<and> buf \<noteq> []")
  case False
  then show ?thesis using assms by (auto simp: socket_recv_def split: if_splits)
next
  case True
  show ?thesis
  proof (cases "sk_plane sk")
    case (Plane_Udp u)
    obtain rem where rem: "f_remote (up_framing u) = Some rem"
      using assms(1) True Plane_Udp by (auto simp: sock_inv_def sock_ok_def)
    have u: "owns (up_xsk u) kr kt {#} {#}" "tx_fits (up_xsk u)"
      using assms(1) Plane_Udp by (simp_all add: sock_inv_def sock_ok_def)
    obtain r1 b1 s where rc: "recv_into W buf u = (r1, b1, u\<lparr>up_xsk := s\<rparr>)"
      and s: "owns s kr kt {#} {#}" "tx_fits s" "x_frame_size s = x_frame_size (up_xsk u)"
      using recv_into_queues [OF u(1) rem, of W buf] u owns_kick_rx [OF u(1)]
      by (cases "rx_wire (up_xsk u)") (auto split: option.splits)
    have "sk' = sk\<lparr>sk_plane := Plane_Udp (u\<lparr>up_xsk := s\<rparr>)\<rparr>"
      using assms(2) True Plane_Udp rc by (simp add: socket_recv_def)
    then show ?thesis
      using sock_inv_udp [OF assms(1) Plane_Udp s] recv_into_kept [OF rc] by simp
  next
    case (Plane_Tcp t)
    obtain r1 b1 t1 where c: "tcp_recv S reading buf t = (r1, b1, t1)" by (metis prod.collapse)
    then have "sk' = sk\<lparr>sk_plane := Plane_Tcp t1\<rparr>"
      using assms(2) True Plane_Tcp by (simp add: socket_recv_def)
    then show ?thesis
      using tcp_recv_cases [OF c] sock_inv_plain [OF assms(1) Plane_Tcp]
        sock_inv_tcp [OF assms(1) Plane_Tcp refl refl] by blast
  qed
qed

lemma sock_inv_close:
  assumes "sock_inv W S rel kr kt sk" "socket_close S reading sk = (r, sk')"
  shows "sock_inv W S rel kr kt sk'"
proof (cases "sk_plane sk")
  case (Plane_Udp u)
  then show ?thesis using assms by (simp add: socket_close_def)
next
  case (Plane_Tcp t)
  let ?t = "t\<lparr>tp_socket := sm_close S (tp_socket t)\<rparr>"
  show ?thesis
    using assms(2) Plane_Tcp sock_inv_plain [OF assms(1) Plane_Tcp, of ?t]
      sock_inv_tcp [OF assms(1) Plane_Tcp, of ?t]
    by (cases "tcp_poll S reading ?t") (auto simp: socket_close_def Let_def)
qed

section \<open>A socket, its kernel and its neighbours\<close>

definition set_plane_xsk :: "xsk \<Rightarrow> ('i, 't) plane \<Rightarrow> ('i, 't) plane" where
  "set_plane_xsk s pl =
     (case pl of Plane_Tcp t \<Rightarrow> Plane_Tcp (t\<lparr>tp_xsk := s\<rparr>) | Plane_Udp u \<Rightarrow> Plane_Udp (u\<lparr>up_xsk := s\<rparr>))"

type_synonym ('i, 't) sock_state = "('i, 't) sock \<times> bpf_maps \<times> u64 multiset \<times> u64 multiset"

text \<open>
  The state is the socket, the shared maps and the frames the kernel holds.  A step is a kernel step, a
  public operation that does not panic, with any argument and any answer of the environment, or a change
  of the shared maps by another program.
\<close>

inductive sock_step ::
  "profile \<Rightarrow> wire \<Rightarrow> ('i, 't) smoltcp \<Rightarrow> ('i, 't) sock_state \<Rightarrow> ('i, 't) sock_state \<Rightarrow> bool"
  for pr W S where
  step_kernel:
    "kernel_step (plane_xsk (sk_plane sk), kr, kt) (s, kr', kt') \<Longrightarrow>
     sock_step pr W S (sk, maps, kr, kt) (sk\<lparr>sk_plane := set_plane_xsk s (sk_plane sk)\<rparr>, maps, kr', kt')"
| step_connect:
    "socket_connect S reading err remote maps sk = (r, maps', sk') \<Longrightarrow> \<nexists>q. r = Panic q \<Longrightarrow>
     sock_step pr W S (sk, maps, kr, kt) (sk', maps', kr, kt)"
| step_poll_connect:
    "socket_poll_connect S reading sk = (rb, sk') \<Longrightarrow> \<nexists>q. rb = Panic q \<Longrightarrow>
     sock_step pr W S (sk, maps, kr, kt) (sk', maps, kr, kt)"
| step_send:
    "socket_send W S reading buf sk = (rn, sk') \<Longrightarrow> \<nexists>q. rn = Panic q \<Longrightarrow>
     sock_step pr W S (sk, maps, kr, kt) (sk', maps, kr, kt)"
| step_recv:
    "socket_recv pr W S reading buf sk = (ro, buf', sk') \<Longrightarrow> \<nexists>q. ro = Panic q \<Longrightarrow>
     sock_step pr W S (sk, maps, kr, kt) (sk', maps, kr, kt)"
| step_close:
    "socket_close S reading sk = (r, sk') \<Longrightarrow> \<nexists>q. r = Panic q \<Longrightarrow>
     sock_step pr W S (sk, maps, kr, kt) (sk', maps, kr, kt)"
| step_maps: "sock_step pr W S (sk, maps, kr, kt) (sk, maps', kr, kt)"

lemma tx_fits_kernel_step:
  assumes "kernel_step (s, kr, kt) (s', kr', kt')" "tx_fits s"
  shows "tx_fits s'" "x_frame_size s' = x_frame_size s"
  using assms(1)
  by (cases rule: kernel_step.cases; use assms(2) in \<open>auto simp: tx_fits_def dest!: ring_consume_Some(1)\<close>)+

lemma sock_inv_kernel:
  assumes "sock_inv W S rel kr kt sk" "kernel_step (plane_xsk (sk_plane sk), kr, kt) (s, kr', kt')"
  shows "sock_inv W S rel kr' kt' (sk\<lparr>sk_plane := set_plane_xsk s (sk_plane sk)\<rparr>)"
proof (cases "sk_plane sk")
  case (Plane_Udp u)
  then show ?thesis
    using assms owns_kernel_step [of "up_xsk u"] tx_fits_kernel_step [of "up_xsk u"]
      xsk_drop_kernel_step [OF assms(2)]
    by (auto simp: sock_inv_def sock_ok_def set_plane_xsk_def plane_xsk_def sock_releases_def local_addr_def)
next
  case (Plane_Tcp t)
  then show ?thesis
    using assms owns_kernel_step [of "tp_xsk t"] tx_fits_kernel_step [of "tp_xsk t"]
      xsk_drop_kernel_step [OF assms(2)]
    by (auto simp: sock_inv_def sock_ok_def plane_ok_def device_ok_def set_plane_xsk_def plane_xsk_def
        sock_releases_def)
qed

lemma sock_inv_step:
  assumes "sock_step pr W S (sk, maps, kr, kt) (sk', maps', kr', kt')" "sock_inv W S rel kr kt sk"
  shows "sock_inv W S rel kr' kt' sk'"
  using assms(1)
  by (cases rule: sock_step.cases)
     (auto intro: sock_inv_kernel [OF assms(2)] sock_inv_connect [OF assms(2)]
        sock_inv_poll_connect [OF assms(2)] sock_inv_send [OF assms(2)] sock_inv_recv [OF assms(2)]
        sock_inv_close [OF assms(2)] assms(2))

text \<open>The runs start from a well-formed socket with nothing in flight.\<close>

interpretation sockets: invariant_system
  "\<lambda>(sk, maps, kr, kt). sock_inv W S rel {#} {#} sk \<and> kr = {#} \<and> kt = {#}"
  "sock_step pr W S" "\<lambda>(sk, maps, kr, kt). sock_inv W S rel kr kt sk"
  for pr W S rel
  by unfold_locales (auto intro: sock_inv_step)

text \<open>A new socket satisfies the invariant, and releasing what it would release undoes \<^verbatim>\<open>new\<close>.\<close>

lemma socket_new_inv:
  assumes "rings_zeroed (w_xsk w)" and "mmap_nonnull (w_xsk w)"
    and "ETH_HDR_LEN + cfg_mtu cfg \<le> 2 ^ 63" and "os_page_size (w_xsk w) < 2 ^ 32"
    and "length (cfg_our_mac cfg) = 6" and "length (cfg_peer_mac cfg) = 6"
    and "env_ok W S (cfg_mtu cfg)"
    and "socket_new p S w proto cfg maps = (Ok sk, maps', log)"
  shows "sock_inv W S (sock_releases sk) {#} {#} sk"
    and "live_fds (log @ sock_releases sk) fds = fds"
    and "live_maps (log @ sock_releases sk) mps = mps"
proof -
  obtain x l l' where n:
    "xsk_new p (w_xsk w) (cfg_ifindex cfg) (cfg_queue_id cfg) (cfg_mtu cfg) (cfg_hugepage cfg)
        (cfg_xdp_mode cfg) = (Ok x, l)"
    "port_take (w_port w) proto = (Ok (sk_port sk), l')" "log = l @ l'" "plane_xsk (sk_plane sk) = x"
    using socket_new_Ok [OF assms(8)] by auto
  show "sock_inv W S (sock_releases sk) {#} {#} sk"
    using socket_new_sock_ok [OF assms(1,3-6,8)] assms(7) by (simp add: sock_inv_def)
  show "live_fds (log @ sock_releases sk) fds = fds" "live_maps (log @ sock_releases sk) mps = mps"
    using xsk_new_drop [OF assms(2) n(1)] port_take_fds [OF n(2)]
    by (simp_all add: n(3,4) sock_releases_def port_drop_def)
qed

text \<open>
  C4.  A socket's life.  From a successful \<^verbatim>\<open>new\<close>, through any number of connects, sends, receives,
  polls and closes, in any order and interleaved in any way with the kernel and with other users of the
  maps, the socket is well-formed: its frames are accounted for, its UDP framing agrees with the
  endpoint it is connected to.  Whenever it is dropped, dropping it closes every descriptor and removes
  every mapping that \<^verbatim>\<open>new\<close> made, and nothing else.
\<close>

theorem socket_life:
  assumes "rings_zeroed (w_xsk w)" and "mmap_nonnull (w_xsk w)"
    and "ETH_HDR_LEN + cfg_mtu cfg \<le> 2 ^ 63" and "os_page_size (w_xsk w) < 2 ^ 32"
    and "length (cfg_our_mac cfg) = 6" and "length (cfg_peer_mac cfg) = 6"
    and "env_ok W S (cfg_mtu cfg)"
    and "socket_new p S w proto cfg maps = (Ok sk0, maps0, log)"
    and "(sock_step pr W S)\<^sup>*\<^sup>* (sk0, maps0, {#}, {#}) (sk, maps', kr, kt)"
  shows "sock_ok kr kt sk
    \<and> live_fds (log @ snd (socket_drop maps' sk)) fds = fds
    \<and> live_maps (log @ snd (socket_drop maps' sk)) mps = mps"
proof -
  note new = socket_new_inv [OF assms(1-8)]
  have inv: "sock_inv W S (sock_releases sk0) kr kt sk"
    using sockets.inv_steps [OF assms(9), where rel = "sock_releases sk0"] new(1) by simp
  then have "snd (socket_drop maps' sk) = sock_releases sk0"
    by (simp add: sock_inv_def sock_releases_def socket_drop_def Let_def)
  then show ?thesis using inv new(2,3) by (simp add: sock_inv_def)
qed

section \<open>What a socket leaves in the maps\<close>

text \<open>
  C9.  Connect and drop are inverse on the maps, and in between the flow reaches the socket.  A socket
  is built on a queue nobody uses and connects to a remote whose flow nobody tracks.  Then the XDP
  program sends every packet from the remote to the socket's endpoint that arrives on its queue to this
  socket, and treats every other packet on any other queue as before; after the drop both maps answer
  every lookup as they did before \<^verbatim>\<open>new\<close>.
\<close>

theorem connect_then_drop_restores_maps:
  assumes "socket_new p S w proto cfg maps0 = (Ok sk0, maps1, log)"
    and "socket_connect S reading err remote maps1 sk0 = (Ok (), maps2, sk)"
    and "map_of (xsks_map maps0) (cfg_queue_id cfg) = None"
    and "map_of (config_map maps0) (flow_key (local_addr sk0) remote) = None"
  shows "(packet_flow pkt = Some (remote, local_addr sk0) \<longrightarrow>
            xdp_redirect_flow maps2 (cfg_queue_id cfg) pkt = XDP_REDIRECT (x_fd (plane_xsk (sk_plane sk0))))
    \<and> (packet_flow pkt \<noteq> Some (remote, local_addr sk0) \<and> q \<noteq> cfg_queue_id cfg \<longrightarrow>
         xdp_redirect_flow maps2 q pkt = xdp_redirect_flow maps0 q pkt)
    \<and> map_of (config_map (fst (socket_drop maps2 sk))) = map_of (config_map maps0)
    \<and> map_of (xsks_map (fst (socket_drop maps2 sk))) = map_of (xsks_map maps0)"
proof -
  obtain m where n: "map_update (w_map_err w) (cfg_queue_id cfg)
      (x_fd (plane_xsk (sk_plane sk0))) (xsks_map maps0) = Inr m" "maps1 = maps0\<lparr>xsks_map := m\<rparr>"
    "sk_queue_id sk0 = cfg_queue_id cfg"
    using socket_new_Ok [OF assms(1)] by auto
  obtain c where c: "map_update err (flow_key (local_addr sk0) remote) 1 (config_map maps0) = Inr c"
    using assms(2) n(2)
    by (auto simp: socket_connect_def add_flow_to_ebpf_tracking_def split: sum.splits)
  then have "add_flow_to_ebpf_tracking err (local_addr sk0) remote (config_map maps1) = Ok c"
    using n(2) by (simp add: add_flow_to_ebpf_tracking_def)
  then have sk: "maps2 = maps1\<lparr>config_map := c\<rparr> \<and> sk_remote sk = Some remote
      \<and> sk_queue_id sk = sk_queue_id sk0 \<and> local_addr sk = local_addr sk0"
    using assms(2)
    by (auto simp: socket_connect_def Let_def local_addr_def split: outcome.splits prod.splits plane.splits)
  note look = bpf.update_lookup [OF n(1)] bpf.update_lookup [OF c]
  show ?thesis
    using sk n(2,3) look assms(3,4) bpf.update_delete [OF c] bpf.update_delete [OF n(1)]
    by (auto simp: xdp_redirect_eq redirect_map_def flow_key_inj socket_drop_def Let_def
        split: option.splits)
qed

text \<open>
  C25.  A refused TCP connect leaves its flow behind.  If the stack refuses the connection after the flow
  was inserted, \<^verbatim>\<open>connect\<close> returns the error with the flow tracked and without recording the
  remote; dropping the socket then does not remove the flow, so the XDP program keeps looking for a
  socket for packets of a connection that never existed.
\<close>

theorem refused_connect_leaks_flow:
  assumes "sk_plane sk = Plane_Tcp t" and "sk_remote sk = None"
    and "add_flow_to_ebpf_tracking err (local_addr sk) remote (config_map maps) = Ok m"
    and "fst (sm_connect S (tp_iface t) remote (pr_port (sk_port sk)) (tp_socket t)) = False"
    and "socket_connect S reading err remote maps sk = (r, maps', sk')"
  shows "r = Err (Custom Other Tcp_Connect) \<and> sk_remote sk' = None
    \<and> map_of (config_map (fst (socket_drop maps' sk'))) (flow_key (local_addr sk) remote) = Some 1"
proof -
  obtain i k where c: "sm_connect S (tp_iface t) remote (pr_port (sk_port sk)) (tp_socket t) = (False, i, k)"
    using assms(4) by (metis prod.collapse)
  have "r = Err (Custom Other Tcp_Connect)" "maps' = maps\<lparr>config_map := m\<rparr>" "sk_remote sk' = None"
    using assms(1-3,5) c by (auto simp: socket_connect_def start_connect_def Let_def)
  moreover have "map_of m (flow_key (local_addr sk) remote) = Some 1"
    using assms(3) by (auto simp: add_flow_to_ebpf_tracking_def split: sum.splits dest: bpf.update_present)
  ultimately show ?thesis by (simp add: socket_drop_def Let_def)
qed

section \<open>Receiving a stream\<close>

text \<open>
  What is relied on from \<^verbatim>\<open>tcp::Socket::recv_slice\<close>: \<open>avail\<close> is the bytes received and not yet read;
  there is something to receive exactly when it is not empty, and reading takes its front.
\<close>

definition recv_slice_laws :: "('i, 't) smoltcp \<Rightarrow> ('t \<Rightarrow> bytes) \<Rightarrow> bool" where
  "recv_slice_laws S avail \<longleftrightarrow>
     (\<forall>t. sm_can_recv S t \<longleftrightarrow> avail t \<noteq> [])
     \<and> (\<forall>n t. sm_can_recv S t \<longrightarrow>
          (\<exists>t'. sm_recv_slice S n t = (Inr (take n (avail t)), t') \<and> avail t' = drop n (avail t)))"

text \<open>
  \<^verbatim>\<open>is_active\<close>, as smoltcp documents it: not closed, not listening, not in TIME-WAIT.  In particular a
  socket is still active in CLOSE-WAIT, when the peer has sent its FIN and this end has not.
\<close>

definition is_active_law :: "('i, 't) smoltcp \<Rightarrow> bool" where
  "is_active_law S \<longleftrightarrow> (\<forall>t. sm_is_active S t \<longleftrightarrow> sm_state S t \<notin> {Closed_State, Listen, TimeWait})"

text \<open>
  C11.  \<^verbatim>\<open>Socket::recv\<close> on a connected TCP socket reads the stream in order: after one poll it moves
  the front of what is available into the buffer, as much as fits, leaves the rest of the buffer alone
  and the rest of the stream for the next call, and returns how many bytes that is.  With nothing
  available the buffer is untouched, and it returns \<open>Some 0\<close> exactly when the connection is over on both sides: the
  socket is closed, listening or in TIME-WAIT.  This is not the end of the stream: after the FIN of the
  peer, in CLOSE-WAIT, it returns \<open>None\<close> however often it is called, as long as this end is not closed.
\<close>

theorem socket_recv_tcp:
  assumes "recv_slice_laws S avail" and "is_active_law S"
    and "sk_connected sk" and "sk_plane sk = Plane_Tcp t" and "buf \<noteq> []" and "tcp_poll S reading t = Ok p"
  defines "data \<equiv> avail (tp_socket p)"
  shows "if data = []
    then socket_recv pr W S reading buf sk =
      (Ok (if sm_state S (tp_socket p) \<in> {Closed_State, Listen, TimeWait} then Some 0 else None), buf,
       sk\<lparr>sk_plane := Plane_Tcp p\<rparr>)
    else \<exists>k. avail k = drop (length buf) data
      \<and> socket_recv pr W S reading buf sk =
          (Ok (Some (min (length data) (length buf))), take (length buf) data @ drop (length data) buf,
           sk\<lparr>sk_plane := Plane_Tcp (p\<lparr>tp_socket := k\<rparr>)\<rparr>)"
proof (cases "data = []")
  case True
  then have "\<not> sm_can_recv S (tp_socket p)" using assms(1) by (simp add: recv_slice_laws_def data_def)
  moreover have "sm_is_active S (tp_socket p) \<longleftrightarrow> sm_state S (tp_socket p) \<notin> {Closed_State, Listen, TimeWait}"
    using assms(2) by (simp add: is_active_law_def)
  ultimately show ?thesis using True assms(3-6) by (simp add: socket_recv_def tcp_recv_def)
next
  case False
  then obtain k where k: "sm_recv_slice S (length buf) (tp_socket p) = (Inr (take (length buf) data), k)"
    "avail k = drop (length buf) data" "sm_can_recv S (tp_socket p)"
    using assms(1) unfolding recv_slice_laws_def data_def by blast
  then have "socket_recv pr W S reading buf sk =
      (Ok (Some (min (length data) (length buf))), take (length buf) data @ drop (length data) buf,
       sk\<lparr>sk_plane := Plane_Tcp (p\<lparr>tp_socket := k\<rparr>)\<rparr>)"
    using False assms(3-6)
    by (simp add: socket_recv_def tcp_recv_def copy_at_def) (simp add: min_def)
  then show ?thesis using False k(2) by auto
qed

end
