(* ===== verification/Socket_Sample.thy ===== *)
theory Socket_Sample
  imports Socket_Life Udp_Sample
begin

text \<open>
  Concrete planes and sockets.  The stack here is a small one, not a model of smoltcp: it collects the
  packets it receives, and sends what it was given in one packet of at most 1400 bytes per poll.  It shows
  that what the development relies on from a stack can hold.
\<close>

section \<open>A small stack\<close>

definition sample_flush :: "bytes \<Rightarrow> bytes \<Rightarrow> (unit \<times> bytes \<times> bytes) device_prog" where
  "sample_flush got out =
     (if out = [] then Finish ((), got, [])
      else Transmit (Finish ((), got, out)) (length (take 1400 out), \<lambda>_. take 1400 out) (Finish ((), got, drop 1400 out)))"

definition sample_stack :: "(unit, bytes \<times> bytes) smoltcp" where
  "sample_stack =
     \<lparr>sm_iface_new = (\<lambda>_ _ _. ()), sm_add_addr = (\<lambda>_ _ i. i), sm_socket_new = (\<lambda>_ _. ([], [])),
      sm_set_nagle = (\<lambda>_ t. t),
      sm_poll = (\<lambda>now i (got, out).
        Receive (sample_flush got out) (\<lambda>_. None) (\<lambda>p. sample_flush (got @ p) out)),
      sm_may_send = (\<lambda>_. True),
      sm_send_slice = (\<lambda>d (got, out). (Inr (min (length d) 100), (got, out @ take 100 d))),
      sm_can_recv = (\<lambda>(got, out). got \<noteq> []),
      sm_recv_slice = (\<lambda>n (got, out). (Inr (take n got), (drop n got, out))),
      sm_is_active = (\<lambda>_. True), sm_connect = (\<lambda>i _ _ t. (True, i, t)),
      sm_state = (\<lambda>_. Established), sm_close = (\<lambda>t. t)\<rparr>"

lemma sample_stack_good: "good_prog 1500 (sm_poll sample_stack now i t)"
  by (cases t) (simp add: sample_stack_def sample_flush_def good_request_def min_def)

lemma sample_stack_sends: "send_slice_laws sample_stack snd"
  by (auto simp: send_slice_laws_def sample_stack_def min_def)

lemma sample_stack_receives: "recv_slice_laws sample_stack fst"
  by (auto simp: recv_slice_laws_def sample_stack_def)

lemma sample_stack_active: "is_active_law sample_stack"
  by (simp add: is_active_law_def sample_stack_def)

lemma sample_env: "env_ok rfc_wire sample_stack 1500"
  by (simp add: env_ok_def rfc_ipv4_laws rfc_udp_laws sample_stack_good)

section \<open>The TCP plane\<close>

definition sample_device :: xsk_device where
  "sample_device = \<lparr>dv_src_mac = [0x02, 0, 0, 0, 0, 1], dv_dst_mac = [0x02, 0, 0, 0, 0, 2], dv_mtu = 1500\<rparr>"

text \<open>A plane with one packet waiting in the ring and one byte to send.\<close>

definition sample_tcp :: "(unit, bytes \<times> bytes) tcp_plane" where
  "sample_tcp =
     \<lparr>tp_xsk = sample_rx_sk, tp_device = sample_device, tp_iface = (), tp_socket = ([], [0x78]),
      tp_clock = 0, tp_ticks_left = 0\<rparr>"

lemma sample_rx_sk_fields:
  "x_tx sample_rx_sk = x_tx sample_sk" "x_tx_free sample_rx_sk = tx_pool 2048" "x_frame_size sample_rx_sk = 2048"
proof -
  obtain a r where "ring_consume (x_fill sample_sk) = Some (a, r)"
    using sample_queues(3) ring_consume_None [of "x_fill sample_sk"] by auto
  then show "x_tx sample_rx_sk = x_tx sample_sk" "x_tx_free sample_rx_sk = tx_pool 2048"
    "x_frame_size sample_rx_sk = 2048"
    by (simp_all add: sample_rx_sk_def sample_fields)
qed

lemma sample_tcp_ok: "plane_ok {#} {#} sample_tcp" and sample_tcp_room: "2048 \<le> tx_room sample_rx_sk"
  and sample_tcp_wire: "tx_wire sample_rx_sk = []"
proof -
  show "tx_wire sample_rx_sk = []" by (simp add: tx_wire_def sample_rx_sk_fields sample_queues)
  show "2048 \<le> tx_room sample_rx_sk" by (simp add: tx_room_def sample_rx_sk_fields tx_pool_def)
  show "plane_ok {#} {#} sample_tcp"
    using sample_delivered
    by (simp add: plane_ok_def sample_tcp_def device_ok_def sample_device_def tx_fits_def
        sample_rx_sk_fields sample_queues ETH_HDR_LEN_def)
qed

lemma sample_run:
  "drive_queues (sm_poll sample_stack 5 () ([], [0x78])) (map (drop ETH_HDR_LEN) (rx_wire sample_rx_sk)) =
     (((), drop ETH_HDR_LEN sample_packet, []), [], [[0x78]])"
  using sample_delivered by (simp add: sample_stack_def sample_flush_def packet_of_def)

theorem tcp_poll_refines_queues_witness:
  "\<exists>p' s'. tcp_poll sample_stack 5 sample_tcp = Ok p' \<and> tp_xsk p' = s'
     \<and> tp_socket p' = (drop ETH_HDR_LEN sample_packet, [])
     \<and> tx_wire s' = [[0x02, 0, 0, 0, 0, 2, 0x02, 0, 0, 0, 0, 1, 0x08, 0x00, 0x78]]"
proof -
  have now: "tcp_now 5 sample_tcp = (5, sample_tcp\<lparr>tp_clock := 5, tp_ticks_left := 31\<rparr>)"
    by (simp add: tcp_now_def sample_tcp_def CLOCK_TICKS_def)
  have "good_prog (dv_mtu (tp_device sample_tcp))
      (sm_poll sample_stack 5 (tp_iface sample_tcp) (tp_socket sample_tcp))"
    using sample_stack_good by (simp add: sample_tcp_def sample_device_def)
  moreover have "drive_queues (sm_poll sample_stack 5 (tp_iface sample_tcp) (tp_socket sample_tcp))
      (map (drop ETH_HDR_LEN) (rx_wire (tp_xsk sample_tcp))) =
      (((), drop ETH_HDR_LEN sample_packet, []), [], [[0x78]])"
    using sample_run by (simp add: sample_tcp_def)
  ultimately show ?thesis
    using tcp_poll_refines_queues [OF sample_tcp_ok now] sample_tcp_room sample_tcp_wire
    by (fastforce simp: sample_tcp_def eth_frame_def sample_device_def)
qed

theorem clock_read_every_32_witness:
  "tp_ticks_left sample_tcp = 0 \<and> now_seq [5, 6, 7] sample_tcp ! 2 = 5"
  using clock_read_every_32 [of sample_tcp 2 "[5, 6, 7]"] by (simp add: sample_tcp_def)

theorem tcp_send_accepts_prefix_witness:
  "send_slice_laws sample_stack snd
   \<and> (\<exists>n t'. n \<le> 2 \<and> snd t' = [0x78] @ take n [1, 2]
        \<and> tcp_send sample_stack 5 [1, 2] sample_tcp =
            (case tcp_poll sample_stack 5 (sample_tcp\<lparr>tp_socket := t'\<rparr>) of
               Ok p' \<Rightarrow> (Ok n, p')
             | Err e \<Rightarrow> (Err e, sample_tcp\<lparr>tp_socket := t'\<rparr>)
             | Panic q \<Rightarrow> (Panic q, sample_tcp\<lparr>tp_socket := t'\<rparr>)))"
proof -
  obtain n t' where n: "n \<le> length [1, 2 :: u8]" "snd t' = snd (tp_socket sample_tcp) @ take n [1, 2]"
    "tcp_send sample_stack 5 [1, 2] sample_tcp =
       (case tcp_poll sample_stack 5 (sample_tcp\<lparr>tp_socket := t'\<rparr>) of
          Ok p' \<Rightarrow> (Ok n, p')
        | Err e \<Rightarrow> (Err e, sample_tcp\<lparr>tp_socket := t'\<rparr>)
        | Panic q \<Rightarrow> (Panic q, sample_tcp\<lparr>tp_socket := t'\<rparr>))"
    using tcp_send_accepts_prefix [OF sample_stack_sends, of "[1, 2]" sample_tcp 5] by blast
  have "n \<le> 2" "snd t' = [0x78] @ take n [1, 2]"
    using n(1,2) by (simp_all add: sample_tcp_def)
  with n(3) sample_stack_sends show ?thesis by blast
qed

section \<open>Sockets\<close>

definition sample_cfg :: config where
  "sample_cfg =
     \<lparr>cfg_ifindex = 3, cfg_our_ip = 0x0a630001, cfg_our_mac = [0x02, 0, 0, 0, 0, 1],
      cfg_peer_mac = [0x02, 0, 0, 0, 0, 2], cfg_queue_id = 0, cfg_mtu = 1500, cfg_hugepage = Mb2,
      cfg_xdp_mode = Auto\<rparr>"

definition sample_world :: world where
  "sample_world =
     \<lparr>w_xsk = sample_os,
      w_port = \<lparr>op_socket = (\<lambda>_. Inr 7), op_bind = None, op_getsockname = Inr 49160\<rparr>,
      w_map_err = None, w_nanos = Some 1, w_clock = (0, 0)\<rparr>"

definition sample_maps :: bpf_maps where
  "sample_maps = \<lparr>config_map = [], xsks_map = []\<rparr>"

definition sample_udp_sock :: "(unit, bytes \<times> bytes) sock" where
  "sample_udp_sock =
     \<lparr>sk_queue_id = 0, sk_mtu = 1500, sk_our_ip = 0x0a630001, sk_port = \<lparr>pr_fd = 7, pr_port = 49160\<rparr>,
      sk_connected = False, sk_remote = None,
      sk_plane = Plane_Udp \<lparr>up_xsk = sample_sk,
        up_framing = \<lparr>f_src_mac = [0x02, 0, 0, 0, 0, 1], f_dst_mac = [0x02, 0, 0, 0, 0, 2],
          f_local = sample_local, f_remote = None\<rparr>\<rparr>\<rparr>"

definition sample_maps1 :: bpf_maps where
  "sample_maps1 = \<lparr>config_map = [], xsks_map = [(0, x_fd sample_sk)]\<rparr>"

lemma sample_socket_new:
  "\<exists>log. socket_new Release sample_stack sample_world Protocol_Udp sample_cfg sample_maps =
     (Ok sample_udp_sock, sample_maps1, log)"
proof -
  obtain log where "xsk_new Release sample_os 3 0 1500 Mb2 Auto = (Ok sample_sk, log)"
    using sample_new by blast
  then show ?thesis
    by (simp add: socket_new_def sample_cfg_def sample_world_def sample_maps_def sample_maps1_def
        header_len_defs map_update_def port_take_def sample_udp_sock_def
        sample_local_def)
qed

lemma sample_world_ok:
  "rings_zeroed (w_xsk sample_world)" "mmap_nonnull (w_xsk sample_world)"
  "ETH_HDR_LEN + cfg_mtu sample_cfg \<le> 2 ^ 63" "os_page_size (w_xsk sample_world) < 2 ^ 32"
  "length (cfg_our_mac sample_cfg) = 6" "length (cfg_peer_mac sample_cfg) = 6"
  by (auto simp: sample_world_def rings_zeroed_def mmap_nonnull_def sample_os_def sample_cfg_def
      ETH_HDR_LEN_def split: ring_name.splits if_splits)

theorem socket_new_establishes_witness:
  "sock_ok {#} {#} sample_udp_sock \<and> map_of (xsks_map sample_maps1) 0 = Some (x_fd sample_sk)"
proof -
  obtain log where n: "socket_new Release sample_stack sample_world Protocol_Udp sample_cfg sample_maps =
     (Ok sample_udp_sock, sample_maps1, log)" using sample_socket_new by blast
  show ?thesis
    using socket_new_establishes [OF sample_world_ok n]
    by (simp add: sample_cfg_def sample_udp_sock_def plane_xsk_def)
qed

text \<open>The socket connected to the sample remote.\<close>

definition sample_connected :: "(unit, bytes \<times> bytes) sock" where
  "sample_connected =
     sample_udp_sock\<lparr>sk_connected := True, sk_remote := Some sample_remote,
       sk_plane := Plane_Udp \<lparr>up_xsk = sample_sk,
        up_framing = \<lparr>f_src_mac = [0x02, 0, 0, 0, 0, 1], f_dst_mac = [0x02, 0, 0, 0, 0, 2],
          f_local = sample_local, f_remote = Some sample_remote\<rparr>\<rparr>\<rparr>"

definition sample_maps2 :: bpf_maps where
  "sample_maps2 =
     sample_maps1\<lparr>config_map := [([10,99,0,2, 0x1a,0x0b, 10,99,0,1, 0xc0,0x08], 1)]\<rparr>"

lemma sample_local_addr: "local_addr sample_udp_sock = sample_local"
  by (simp add: local_addr_def sample_udp_sock_def sample_local_def)

lemma sample_connect:
  "socket_connect sample_stack 0 None sample_remote sample_maps1 sample_udp_sock =
     (Ok (), sample_maps2, sample_connected)"
  using sample_add_flow
  by (simp add: socket_connect_def sample_local_addr sample_maps1_def sample_maps2_def Let_def)
     (simp add: sample_udp_sock_def sample_connected_def)

theorem connect_then_drop_restores_maps_witness:
  "xdp_redirect_flow sample_maps2 0 sample_packet = XDP_REDIRECT (x_fd sample_sk)
   \<and> map_of (config_map (fst (socket_drop sample_maps2 sample_connected))) = Map.empty"
proof -
  obtain log where n: "socket_new Release sample_stack sample_world Protocol_Udp sample_cfg sample_maps =
     (Ok sample_udp_sock, sample_maps1, log)" using sample_socket_new by blast
  have h: "map_of (xsks_map sample_maps) (cfg_queue_id sample_cfg) = None"
    "map_of (config_map sample_maps) (flow_key (local_addr sample_udp_sock) sample_remote) = None"
    by (simp_all add: sample_maps_def)
  show ?thesis
    using connect_then_drop_restores_maps [OF n sample_connect h, of sample_packet 1] sample_packet_flow
    by (simp add: sample_local_addr sample_cfg_def sample_maps_def)
       (simp add: sample_udp_sock_def plane_xsk_def)
qed

lemma sample_connected_ok: "sock_ok {#} {#} sample_connected"
  by (simp add: sock_ok_def sample_connected_def sample_udp_sock_def header_len_defs sample_owns tx_fits_def
      sample_queues sample_fields framing_ok_def local_addr_def sample_local_def)

theorem socket_life_witness:
  "sock_step Release rfc_wire sample_stack (sample_udp_sock, sample_maps1, {#}, {#})
     (sample_connected, sample_maps2, {#}, {#})
   \<and> (\<exists>log. live_fds (log @ snd (socket_drop sample_maps2 sample_connected)) {#} = {#} \<and> log \<noteq> [])"
proof -
  obtain log where n: "socket_new Release sample_stack sample_world Protocol_Udp sample_cfg sample_maps =
     (Ok sample_udp_sock, sample_maps1, log)" using sample_socket_new by blast
  have step: "sock_step Release rfc_wire sample_stack (sample_udp_sock, sample_maps1, {#}, {#})
     (sample_connected, sample_maps2, {#}, {#})"
    by (rule sock_step.step_connect [OF sample_connect]) simp
  then have steps: "(sock_step Release rfc_wire sample_stack)\<^sup>*\<^sup>* (sample_udp_sock, sample_maps1, {#}, {#})
     (sample_connected, sample_maps2, {#}, {#})" by blast
  have env: "env_ok rfc_wire sample_stack (cfg_mtu sample_cfg)"
    using sample_env by (simp add: sample_cfg_def)
  have "log \<noteq> []" using socket_new_Ok [OF n] xsk_new_Ok by fastforce
  then show ?thesis
    using socket_life [OF sample_world_ok env n steps, of "{#}"] step by blast
qed

theorem socket_send_udp_witness:
  "\<exists>s' f. socket_send rfc_wire sample_stack 0 [0x78] sample_connected =
       (Ok 1, sample_connected\<lparr>sk_plane := Plane_Udp \<lparr>up_xsk = s',
          up_framing = \<lparr>f_src_mac = [0x02, 0, 0, 0, 0, 1], f_dst_mac = [0x02, 0, 0, 0, 0, 2],
            f_local = sample_local, f_remote = Some sample_remote\<rparr>\<rparr>\<rparr>)
     \<and> tx_wire s' = [f]
     \<and> parse rfc_wire \<lparr>f_src_mac = [], f_dst_mac = [], f_local = sample_remote, f_remote = Some sample_local\<rparr> f
         = Some [0x78]"
proof -
  let ?u = "\<lparr>up_xsk = sample_sk,
        up_framing = \<lparr>f_src_mac = [0x02, 0, 0, 0, 0, 1], f_dst_mac = [0x02, 0, 0, 0, 0, 2],
          f_local = sample_local, f_remote = Some sample_remote\<rparr>\<rparr>"
  have h: "sk_mtu sample_connected < 65536" "sk_plane sample_connected = Plane_Udp ?u"
    "sk_remote sample_connected = Some sample_remote" "sa_port sample_remote \<noteq> 0" "[0x78 :: u8] \<noteq> []"
    "local_addr sample_connected = sample_local"
    by (simp_all add: sample_connected_def sample_udp_sock_def sample_remote_def local_addr_def sample_local_def)
  have cs: "chunks (max_udp_payload sample_connected) [0x78] = [[0x78]]"
    by (simp add: max_udp_payload_def sample_connected_def sample_udp_sock_def header_len_defs chunks.simps)
  have room: "take (tx_room sample_sk) [[0x78 :: u8]] = [[0x78]]"
    by (simp add: tx_room_def sample_fields tx_pool_def take_Cons')
  have "tx_wire sample_sk = []" by (simp add: tx_wire_def sample_queues)
  then show ?thesis
    using socket_send_udp [OF rfc_ipv4_laws rfc_udp_laws h(1) sample_connected_ok h(2-5), of sample_stack 0]
    by (auto simp: cs room h(6) list_all2_Cons1)
qed

text \<open>A TCP socket on the sample plane, and one whose stack refuses to connect.\<close>

definition sample_tcp_sock :: "(unit, bytes \<times> bytes) sock" where
  "sample_tcp_sock = sample_udp_sock\<lparr>sk_plane := Plane_Tcp sample_tcp\<rparr>"

theorem socket_recv_tcp_witness:
  "\<exists>k. socket_recv Debug rfc_wire sample_stack 5 [0, 0] (sample_tcp_sock\<lparr>sk_connected := True\<rparr>) =
     (Ok (Some 2), [0x45, 0], k)"
proof -
  let ?sk = "sample_tcp_sock\<lparr>sk_connected := True\<rparr>"
  have now: "tcp_now 5 sample_tcp = (5, sample_tcp\<lparr>tp_clock := 5, tp_ticks_left := 31\<rparr>)"
    by (simp add: tcp_now_def sample_tcp_def CLOCK_TICKS_def)
  obtain p where p: "tcp_poll sample_stack 5 sample_tcp = Ok p" "tp_socket p = (drop ETH_HDR_LEN sample_packet, [])"
    using tcp_poll_queues [OF sample_tcp_ok now, of sample_stack] sample_stack_good sample_run sample_tcp_room
    by (fastforce simp: sample_tcp_def sample_device_def)
  have d: "fst (tp_socket p) = drop 14 sample_packet" "drop 14 sample_packet \<noteq> []"
    "take 2 (drop 14 sample_packet) = [0x45, 0]" "2 \<le> length (drop 14 sample_packet)"
    using p(2) by (simp_all add: sample_packet_def ETH_HDR_LEN_def)
  have h: "sk_connected ?sk" "sk_plane ?sk = Plane_Tcp sample_tcp" "[0, 0 :: u8] \<noteq> []"
    by (simp_all add: sample_tcp_sock_def)
  show ?thesis
    using socket_recv_tcp [OF sample_stack_receives sample_stack_active h p(1), of Debug rfc_wire] d
    by (auto simp: numeral_2_eq_2)
qed

definition refusing_stack :: "(unit, bytes \<times> bytes) smoltcp" where
  "refusing_stack = sample_stack\<lparr>sm_connect := (\<lambda>i _ _ t. (False, i, t))\<rparr>"

theorem refused_connect_leaks_flow_witness:
  "\<exists>maps' sk'. socket_connect refusing_stack 0 None sample_remote sample_maps1 sample_tcp_sock =
       (Err (Custom Other Tcp_Connect), maps', sk')
     \<and> map_of (config_map (fst (socket_drop maps' sk'))) (flow_key sample_local sample_remote) = Some 1"
proof -
  have l: "local_addr sample_tcp_sock = sample_local"
    by (simp add: local_addr_def sample_tcp_sock_def sample_udp_sock_def sample_local_def)
  obtain r maps' sk' where c:
    "socket_connect refusing_stack 0 None sample_remote sample_maps1 sample_tcp_sock = (r, maps', sk')"
    by (metis prod.collapse)
  have h: "sk_plane sample_tcp_sock = Plane_Tcp sample_tcp" "sk_remote sample_tcp_sock = None"
    "fst (sm_connect refusing_stack (tp_iface sample_tcp) sample_remote (pr_port (sk_port sample_tcp_sock))
       (tp_socket sample_tcp)) = False"
    "add_flow_to_ebpf_tracking None (local_addr sample_tcp_sock) sample_remote (config_map sample_maps1) =
       Ok [([10,99,0,2, 0x1a,0x0b, 10,99,0,1, 0xc0,0x08], 1)]"
    using sample_add_flow
    by (simp_all add: sample_tcp_sock_def refusing_stack_def sample_udp_sock_def sample_maps1_def l [unfolded sample_tcp_sock_def sample_udp_sock_def, simplified])
  show ?thesis
    using refused_connect_leaks_flow [OF h(1,2,4,3) c] c l by simp
qed

section \<open>Systems that refuse\<close>

definition refusing_os :: os_xsk where
  "refusing_os = sample_os\<lparr>os_setsockopt := (\<lambda>opt. case opt of Umem_Reg _ _ _ \<Rightarrow> Some 1 | _ \<Rightarrow> None)\<rparr>"

definition unbindable_os :: os_xsk where
  "unbindable_os = sample_os\<lparr>os_bind := (\<lambda>_. Some 16)\<rparr>"

lemma sample_os_steps:
  "frame_size_for p 1500 (os_page_size sample_os) = Ok 2048" "os_socket sample_os = Inr 5"
  "map_umem (os_mmap sample_os) 8388608 Mb2 = (Ok (1048576, Off), [Mapped 1048576 8388608])"
  "mmap_nonnull sample_os"
  using sample_world_ok(2)
  by (simp_all add: sample_frame_size sample_os_def map_umem_def sample_world_def)

theorem xsk_new_setup_failure_leaks_witness:
  "\<exists>log. xsk_new Release refusing_os 3 0 1500 Mb2 Auto = (Err (Os_Error 1), log)
     \<and> live_fds log {#} = {#5#} \<and> live_maps log {#} = {#(1048576, 8388608)#}"
proof -
  have h: "mmap_nonnull refusing_os" "frame_size_for Release 1500 (os_page_size refusing_os) = Ok 2048"
    "os_socket refusing_os = Inr 5"
    "map_umem (os_mmap refusing_os) (unat (2048 :: u32) * unat FRAME_COUNT) Mb2 =
       (Ok (1048576, Off), [Mapped 1048576 8388608])"
    using sample_os_steps by (simp_all add: refusing_os_def mmap_nonnull_def)
  have "register_umem refusing_os 1048576 (unat (2048 :: u32) * unat FRAME_COUNT) 2048 = Err (Os_Error 1)"
    by (simp add: register_umem_def refusing_os_def umem_reg_error_def ENOBUFS_def)
  then show ?thesis
    using xsk_new_setup_failure_leaks [OF h, of "Os_Error 1" 3 0 Auto] by simp
qed

theorem xsk_new_bind_failure_clean_witness:
  "\<exists>log. xsk_new Release unbindable_os 3 0 1500 Mb2 Auto = (Err (Os_Error 16), log)
     \<and> live_fds log {#} = {#} \<and> live_maps log {#} = {#}"
proof -
  have h: "mmap_nonnull unbindable_os" "rings_zeroed unbindable_os" "ETH_HDR_LEN + 1500 \<le> 2 ^ 63"
    "os_page_size unbindable_os < 2 ^ 32"
    "frame_size_for Release 1500 (os_page_size unbindable_os) = Ok 2048" "os_socket unbindable_os = Inr 5"
    "map_umem (os_mmap unbindable_os) (unat (2048 :: u32) * unat FRAME_COUNT) Mb2 =
       (Ok (1048576, Off), [Mapped 1048576 8388608])"
    "register_umem unbindable_os 1048576 (unat (2048 :: u32) * unat FRAME_COUNT) 2048 = Ok ()"
    "os_offsets unbindable_os = Inr (\<lambda>_. 320)"
    using sample_os_steps sample_zeroed
    by (simp_all add: unbindable_os_def mmap_nonnull_def rings_zeroed_def ETH_HDR_LEN_def register_umem_def
        set_xdp_option_def) (simp_all add: sample_os_def)
  obtain rings l where r: "map_rings unbindable_os (\<lambda>_. 320) = (Ok rings, l)"
  proof -
    have "\<exists>f c r t l. map_rings unbindable_os (\<lambda>_. 320) = (Ok (f, c, r, t), l)"
      by (simp add: map_rings_def ring_map_def unbindable_os_def sample_os_def Let_def)
    then show ?thesis using that by blast
  qed
  have b: "\<And>flags. os_bind unbindable_os flags = Some 16"
    by (simp add: unbindable_os_def)
  show ?thesis
    using xsk_new_bind_failure_clean [OF h r b, of 3 0 Auto] by simp
qed

end
