(* ===== verification/Link.thy ===== *)
theory Link
  imports Xsk_Delivery Socket_Life "HOL-Library.Sublist"
begin

text \<open>
  Two hosts, each with a connected UDP socket, and a wire that may lose frames and carry those of others.  The state
  has everything between the caller of \<^verbatim>\<open>send\<close> at one end and the caller of \<^verbatim>\<open>recv\<close> at the other: the
  transmit ring, the frames under way, the XDP program, the receive ring.  A run interleaves both programs, both
  kernels and the wire in any order.  What the receiver reads is a subsequence of what the sender wrote, piece by
  piece; and what is sent can arrive whole.
\<close>

section \<open>Hosts\<close>

record ('i, 't) host =
  h_sock :: "('i, 't) sock"
  h_kr :: "u64 multiset"
  h_kt :: "u64 multiset"

definition host_xsk :: "('i, 't) host \<Rightarrow> xsk" where
  "host_xsk h = plane_xsk (sk_plane (h_sock h))"

definition set_host :: "xsk \<Rightarrow> u64 multiset \<Rightarrow> u64 multiset \<Rightarrow> ('i, 't) host \<Rightarrow> ('i, 't) host" where
  "set_host s kr kt h =
     \<lparr>h_sock = (h_sock h)\<lparr>sk_plane := set_plane_xsk s (sk_plane (h_sock h))\<rparr>, h_kr = kr, h_kt = kt\<rparr>"

text \<open>A well-formed UDP socket with the endpoints of \<open>g\<close>, connected.\<close>

definition udp_host :: "framing \<Rightarrow> nat \<Rightarrow> ('i, 't) host \<Rightarrow> bool" where
  "udp_host g mtu h \<longleftrightarrow>
     (\<exists>u. sk_plane (h_sock h) = Plane_Udp u \<and> up_framing u = g) \<and> f_remote g \<noteq> None
     \<and> sock_ok (h_kr h) (h_kt h) (h_sock h) \<and> sk_mtu (h_sock h) = mtu \<and> mtu < 65536"

lemma udp_hostE:
  assumes "udp_host g mtu h"
  obtains u r where "sk_plane (h_sock h) = Plane_Udp u" "up_framing u = g" "f_remote g = Some r"
    "host_xsk h = up_xsk u" "sk_remote (h_sock h) = Some r" "sk_connected (h_sock h)"
    "sock_ok (h_kr h) (h_kt h) (h_sock h)" "owns (up_xsk u) (h_kr h) (h_kt h) {#} {#}" "tx_fits (up_xsk u)"
    "sk_mtu (h_sock h) = mtu" "mtu < 65536" "28 < mtu" "14 + mtu \<le> unat (x_frame_size (up_xsk u))"
    "framing_ok g" "f_local g = local_addr (h_sock h)"
  using assms by (auto simp: udp_host_def host_xsk_def plane_xsk_def sock_ok_def header_len_defs)

lemma udp_host_update:
  assumes "udp_host g mtu h" "owns s kr kt {#} {#}" "tx_fits s" "x_frame_size s = x_frame_size (host_xsk h)"
  shows "udp_host g mtu (set_host s kr kt h)" "host_xsk (set_host s kr kt h) = s"
    "h_kr (set_host s kr kt h) = kr" "h_kt (set_host s kr kt h) = kt"
  using assms
  by (auto simp: udp_host_def set_host_def host_xsk_def plane_xsk_def set_plane_xsk_def sock_ok_def local_addr_def)

lemma set_host_udp:
  "sk_plane (h_sock h) = Plane_Udp u \<Longrightarrow>
   h\<lparr>h_sock := (h_sock h)\<lparr>sk_plane := Plane_Udp (u\<lparr>up_xsk := s\<rparr>)\<rparr>\<rparr> = set_host s (h_kr h) (h_kt h) h"
  by (cases h) (simp add: set_host_def set_plane_xsk_def)

lemma set_host_same: "sk_plane (h_sock h) = Plane_Udp u \<Longrightarrow> set_host (up_xsk u) (h_kr h) (h_kt h) h = h"
  by (cases h, cases "h_sock h") (simp add: set_host_def set_plane_xsk_def)

lemma kernel_steps_keep:
  assumes "kernel_step\<^sup>*\<^sup>* (s, kr, kt) (s', kr', kt')" "owns s kr kt ur ut" "tx_fits s"
  shows "owns s' kr' kt' ur ut" "tx_fits s'" "x_frame_size s' = x_frame_size s"
proof -
  have "case z of (s', kr', kt') \<Rightarrow> owns s' kr' kt' ur ut \<and> tx_fits s' \<and> x_frame_size s' = x_frame_size s"
    if "kernel_step\<^sup>*\<^sup>* (s, kr, kt) z" for z
    using that
    by (induction rule: rtranclp_induct)
       (use assms(2,3) in \<open>auto dest: owns_kernel_step tx_fits_kernel_step(1,2)\<close>)
  then show "owns s' kr' kt' ur ut" "tx_fits s'" "x_frame_size s' = x_frame_size s" using assms(1) by auto
qed

lemma udp_host_kernels:
  assumes "udp_host g mtu h" "kernel_step\<^sup>*\<^sup>* (host_xsk h, h_kr h, h_kt h) (s, kr, kt)"
  shows "udp_host g mtu (set_host s kr kt h)" "host_xsk (set_host s kr kt h) = s"
proof -
  have "owns (host_xsk h) (h_kr h) (h_kt h) {#} {#}" "tx_fits (host_xsk h)"
    using assms(1) by (auto elim!: udp_hostE)
  then show "udp_host g mtu (set_host s kr kt h)" "host_xsk (set_host s kr kt h) = s"
    using udp_host_update [OF assms(1)] kernel_steps_keep [OF assms(2)] by simp_all
qed

section \<open>What a host does to its queues\<close>

text \<open>A frame that carries a piece from \<open>l\<close> to \<open>r\<close>.\<close>

definition carries :: "wire \<Rightarrow> sock_addr \<Rightarrow> sock_addr \<Rightarrow> nat \<Rightarrow> bytes \<Rightarrow> bytes \<Rightarrow> bool" where
  "carries W l r mtu c f \<longleftrightarrow>
     c \<noteq> [] \<and> UDP_OVERHEAD + length c \<le> mtu \<and> length f \<le> ETH_HDR_LEN + mtu
     \<and> (\<forall>g. parse W g f = (if f_remote g = Some l \<and> f_local g = r then Some c else None))
     \<and> (wire_layout W \<longrightarrow> packet_flow f = Some (l, r))"

lemma host_send:
  assumes "ipv4_wire_laws W" "udp_wire_laws W" "udp_host g mtu h" "f_remote g = Some r" "sa_port r \<noteq> 0"
    "socket_send W S reading buf (h_sock h) = (res, sk)"
  defines "cs \<equiv> chunks (max_udp_payload (h_sock h)) buf"
  shows "\<exists>s fs. h\<lparr>h_sock := sk\<rparr> = set_host s (h_kr h) (h_kt h) h \<and> res = Ok (length buf)
    \<and> udp_host g mtu (set_host s (h_kr h) (h_kt h) h) \<and> host_xsk (set_host s (h_kr h) (h_kt h) h) = s
    \<and> rx_wire s = rx_wire (host_xsk h) \<and> tx_wire s = tx_wire (host_xsk h) @ fs
    \<and> list_all2 (carries W (f_local g) r mtu) (take (tx_room (host_xsk h)) cs) fs"
proof -
  obtain u where u: "sk_plane (h_sock h) = Plane_Udp u" "up_framing u = g" "host_xsk h = up_xsk u"
    "sk_remote (h_sock h) = Some r" "sk_connected (h_sock h)" "sock_ok (h_kr h) (h_kt h) (h_sock h)"
    "sk_mtu (h_sock h) = mtu" "mtu < 65536" "28 < mtu" "14 + mtu \<le> unat (x_frame_size (up_xsk u))"
    "framing_ok g" "owns (up_xsk u) (h_kr h) (h_kt h) {#} {#}" "tx_fits (up_xsk u)"
    using assms(3,4) by (auto elim!: udp_hostE)
  show ?thesis
  proof (cases "buf = []")
    case True
    then have sk: "res = Ok 0" "sk = h_sock h" using assms(6) u(5) by (auto simp: socket_send_def)
    then show ?thesis using True u(3) assms(3) set_host_same [OF u(1)]
      by (intro exI [of _ "up_xsk u"] exI [of _ "[]"]) (simp add: cs_def)
  next
    case False
    obtain s fs where s: "socket_send W S reading buf (h_sock h) =
        (Ok (length buf), (h_sock h)\<lparr>sk_plane := Plane_Udp (u\<lparr>up_xsk := s\<rparr>)\<rparr>)"
      "sock_ok (h_kr h) (h_kt h) ((h_sock h)\<lparr>sk_plane := Plane_Udp (u\<lparr>up_xsk := s\<rparr>)\<rparr>)"
      "tx_wire s = tx_wire (up_xsk u) @ fs" "rx_wire s = rx_wire (up_xsk u)"
      "list_all2 (\<lambda>c f. c \<noteq> [] \<and> UDP_OVERHEAD + length c \<le> mtu
          \<and> frame_for W g (unat (x_frame_size (up_xsk u))) c f) (take (tx_room (up_xsk u)) cs) fs"
      using socket_send_frames [OF assms(1,2) _ u(6,1,4) False, of S reading] u(2,7,8) unfolding cs_def by auto
    have sk: "res = Ok (length buf)" "h\<lparr>h_sock := sk\<rparr> = set_host s (h_kr h) (h_kt h) h"
      using assms(6) s(1) set_host_udp [OF u(1), of s] by simp_all
    have "carries W (f_local g) r mtu c f" if "c \<noteq> []" "UDP_OVERHEAD + length c \<le> mtu"
        "frame_for W g (unat (x_frame_size (up_xsk u))) c f" for c f
    proof -
      have fit: "UDP_OVERHEAD + length c < 65536" "ETH_HDR_LEN + UDP_OVERHEAD + length c \<le> unat (x_frame_size (up_xsk u))"
        using that(2) u(8,10) by (simp_all add: header_len_defs)
      show ?thesis
        using frame_for_peer [OF assms(1,2) u(11) assms(4,5) fit that(3)]
          frame_for_flow [OF assms(1,2) _ u(11) assms(4) fit that(3)] that(1,2)
        by (simp add: carries_def header_len_defs)
    qed
    then have "list_all2 (carries W (f_local g) r mtu) (take (tx_room (up_xsk u)) cs) fs"
      using s(5) by (auto elim: list_all2_mono)
    moreover have "udp_host g mtu (set_host s (h_kr h) (h_kt h) h)" "host_xsk (set_host s (h_kr h) (h_kt h) h) = s"
      using s(2) assms(3) u(1,2,7,8)
      by (auto simp: udp_host_def set_host_def set_plane_xsk_def host_xsk_def plane_xsk_def)
    ultimately show ?thesis using sk s(3,4) u(3) by auto
  qed
qed

lemma recv_into_fd: "recv_into W buf u = (r, buf', u') \<Longrightarrow> x_fd (up_xsk u') = x_fd (up_xsk u)"
  by (auto simp: recv_into_def Let_def kick_rx_def rx_peek_def recycle_def split: if_splits prod.splits option.splits)

lemma host_recv:
  assumes "udp_host g mtu h" "socket_recv pr W S reading buf (h_sock h) = (res, buf', sk)"
  shows "\<exists>s. h\<lparr>h_sock := sk\<rparr> = set_host s (h_kr h) (h_kt h) h
    \<and> udp_host g mtu (set_host s (h_kr h) (h_kt h) h) \<and> host_xsk (set_host s (h_kr h) (h_kt h) h) = s
    \<and> tx_wire s = tx_wire (host_xsk h) \<and> x_fd s = x_fd (host_xsk h)
    \<and> (buf \<noteq> [] \<longrightarrow> (case rx_wire (host_xsk h) of
         [] \<Rightarrow> rx_wire s = [] \<and> res = Ok None
       | f # fs \<Rightarrow> rx_wire s = fs \<and> ring_items (x_fill s) \<noteq> []
           \<and> (case parse W g f of
                None \<Rightarrow> res = Ok None
              | Some p \<Rightarrow> if p = [] then res = Ok None
                          else res = Ok (Some (min (length p) (length buf)))
                            \<and> buf' = take (length buf) p @ drop (length p) buf)))"
proof -
  obtain u r where u: "sk_plane (h_sock h) = Plane_Udp u" "up_framing u = g" "f_remote g = Some r"
    "host_xsk h = up_xsk u" "sk_connected (h_sock h)" "owns (up_xsk u) (h_kr h) (h_kt h) {#} {#}" "tx_fits (up_xsk u)"
    using assms(1) by (auto elim!: udp_hostE)
  show ?thesis
  proof (cases "buf = []")
    case True
    then have "sk = h_sock h" using assms(2) u(5) by (auto simp: socket_recv_def)
    then show ?thesis using True assms(1) u(4) set_host_same [OF u(1)] by (intro exI [of _ "up_xsk u"]) simp
  next
    case False
    have recv: "(res, buf', sk) =
        (case recv_into W buf u of (r, buf, u') \<Rightarrow> (Ok r, buf, (h_sock h)\<lparr>sk_plane := Plane_Udp u'\<rparr>))"
      using assms(2) u(1,5) False by (simp add: socket_recv_def)
    note q = recv_into_queues [OF u(6), of r W buf]
    note upd = udp_host_update [OF assms(1)]
    show ?thesis
    proof (cases "rx_wire (up_xsk u)")
      case Nil
      let ?s = "kick_rx (up_xsk u)"
      have "recv_into W buf u = (None, buf, u\<lparr>up_xsk := ?s\<rparr>)" using q Nil u(2,3) by simp
      then show ?thesis
        using recv upd(1,2) [OF owns_kick_rx [OF u(6)]] recv_into_fd [of W buf u] set_host_udp [OF u(1), of ?s] u(4,7) Nil
        by (intro exI [of _ ?s]) simp
    next
      case (Cons f fs)
      then obtain s a where s: "recv_into W buf u =
          (case parse W g f of
             None \<Rightarrow> (None, buf, u\<lparr>up_xsk := s\<rparr>)
           | Some p \<Rightarrow> (if p = [] \<or> buf = [] then None else Some (min (length p) (length buf)),
                       take (length buf) p @ drop (length p) buf, u\<lparr>up_xsk := s\<rparr>))"
        "owns s (h_kr h) (h_kt h) {#} {#}" "rx_wire s = fs" "ring_items (x_fill s) = ring_items (x_fill (up_xsk u)) @ [a]"
        "tx_wire s = tx_wire (up_xsk u)" "tx_fits s" "x_frame_size s = x_frame_size (up_xsk u)"
        using q u(2,3,7) by auto
      then show ?thesis
        using recv upd(1,2) [OF s(2,6)] recv_into_fd [of W buf u] set_host_udp [OF u(1), of s] u(4) Cons False
        by (intro exI [of _ s]) (auto split: option.splits)
    qed
  qed
qed


section \<open>The link\<close>

text \<open>
  \<open>lk_sent\<close> records the pieces handed to \<^verbatim>\<open>send\<close> at one end, \<open>lk_got\<close> what the calls of \<^verbatim>\<open>recv\<close> at the other end returned.
\<close>

record ('i, 't) link =
  lk_a :: "('i, 't) host"
  lk_b :: "('i, 't) host"
  lk_air :: "bytes list"
  lk_sent :: "bytes list"
  lk_got :: "bytes list"

definition recv_result :: "nat option outcome \<Rightarrow> bytes \<Rightarrow> bytes list" where
  "recv_result res buf = (case res of Ok (Some n) \<Rightarrow> [take n buf] | _ \<Rightarrow> [])"

text \<open>
  The kernel of the sender puts the oldest frame of the transmit ring on the wire; a frame that arrives goes
  to the receive ring if the XDP program redirects it to the socket; any frame may be lost instead, and frames
  that do not belong to the flow may be anywhere between.  Both programs may also use the other direction.  The
  receiver's buffer holds a datagram of the sender's MTU.
\<close>

inductive link_step ::
  "profile \<Rightarrow> wire \<Rightarrow> ('i, 't) smoltcp \<Rightarrow> bpf_maps \<Rightarrow> u32 \<Rightarrow> ('i, 't) link \<Rightarrow> ('i, 't) link \<Rightarrow> bool"
  for pr W S maps q where
  a_send:
    "socket_send W S reading buf (h_sock (lk_a L)) = (Ok n, sk) \<Longrightarrow>
     link_step pr W S maps q L
       (L\<lparr>lk_a := (lk_a L)\<lparr>h_sock := sk\<rparr>,
          lk_sent := lk_sent L @ chunks (max_udp_payload (h_sock (lk_a L))) buf\<rparr>)"
| a_recv:
    "socket_recv pr W S reading buf (h_sock (lk_a L)) = (res, buf', sk) \<Longrightarrow>
     link_step pr W S maps q L (L\<lparr>lk_a := (lk_a L)\<lparr>h_sock := sk\<rparr>\<rparr>)"
| a_kernel:
    "kernel_step (host_xsk (lk_a L), h_kr (lk_a L), h_kt (lk_a L)) (s, kr, kt) \<Longrightarrow>
     tx_wire s = tx_wire (host_xsk (lk_a L)) \<Longrightarrow>
     link_step pr W S maps q L (L\<lparr>lk_a := set_host s kr kt (lk_a L)\<rparr>)"
| transmit:
    "kernel_step (host_xsk (lk_a L), h_kr (lk_a L), h_kt (lk_a L)) (s, kr, kt) \<Longrightarrow>
     tx_wire (host_xsk (lk_a L)) = f # tx_wire s \<Longrightarrow>
     link_step pr W S maps q L (L\<lparr>lk_a := set_host s kr kt (lk_a L), lk_air := lk_air L @ [f]\<rparr>)"
| lose:
    "lk_air L = xs @ f # ys \<Longrightarrow> link_step pr W S maps q L (L\<lparr>lk_air := xs @ ys\<rparr>)"
| noise:
    "lk_air L = xs @ ys \<Longrightarrow> sk_plane (h_sock (lk_b L)) = Plane_Udp u \<Longrightarrow> parse W (up_framing u) f = None \<Longrightarrow>
     link_step pr W S maps q L (L\<lparr>lk_air := xs @ f # ys\<rparr>)"
| arrive:
    "lk_air L = f # fs \<Longrightarrow> xdp_redirect_flow maps q f = XDP_REDIRECT (x_fd (host_xsk (lk_b L))) \<Longrightarrow>
     kernel_step\<^sup>*\<^sup>* (host_xsk (lk_b L), h_kr (lk_b L), h_kt (lk_b L)) (s, kr, kt) \<Longrightarrow>
     rx_wire s = rx_wire (host_xsk (lk_b L)) @ [f] \<Longrightarrow>
     link_step pr W S maps q L (L\<lparr>lk_b := set_host s kr kt (lk_b L), lk_air := fs\<rparr>)"
| b_kernel:
    "kernel_step (host_xsk (lk_b L), h_kr (lk_b L), h_kt (lk_b L)) (s, kr, kt) \<Longrightarrow>
     rx_wire s = rx_wire (host_xsk (lk_b L)) \<Longrightarrow>
     link_step pr W S maps q L (L\<lparr>lk_b := set_host s kr kt (lk_b L)\<rparr>)"
| b_send:
    "socket_send W S reading buf (h_sock (lk_b L)) = (Ok n, sk) \<Longrightarrow>
     link_step pr W S maps q L (L\<lparr>lk_b := (lk_b L)\<lparr>h_sock := sk\<rparr>\<rparr>)"
| b_recv:
    "socket_recv pr W S reading buf (h_sock (lk_b L)) = (res, buf', sk) \<Longrightarrow>
     sk_mtu (h_sock (lk_a L)) \<le> UDP_OVERHEAD + length buf \<Longrightarrow>
     link_step pr W S maps q L
       (L\<lparr>lk_b := (lk_b L)\<lparr>h_sock := sk\<rparr>, lk_got := lk_got L @ recv_result res buf'\<rparr>)"

section \<open>Nothing is changed, repeated or reordered\<close>

definition datagrams :: "wire \<Rightarrow> framing \<Rightarrow> bytes list \<Rightarrow> bytes list" where
  "datagrams W g fs = List.map_filter (parse W g) fs"

definition pipe :: "('i, 't) link \<Rightarrow> bytes list" where
  "pipe L = rx_wire (host_xsk (lk_b L)) @ lk_air L @ tx_wire (host_xsk (lk_a L))"

definition peers :: "framing \<Rightarrow> framing \<Rightarrow> bool" where
  "peers g h \<longleftrightarrow> f_remote g = Some (f_local h) \<and> f_remote h = Some (f_local g)
     \<and> sa_port (f_local g) \<noteq> 0 \<and> sa_port (f_local h) \<noteq> 0"

definition link_inv :: "wire \<Rightarrow> framing \<Rightarrow> nat \<Rightarrow> framing \<Rightarrow> nat \<Rightarrow> ('i, 't) link \<Rightarrow> bool" where
  "link_inv W ga ma gb mb L \<longleftrightarrow>
     udp_host ga ma (lk_a L) \<and> udp_host gb mb (lk_b L)
     \<and> (\<forall>p \<in> set (datagrams W gb (pipe L)). p \<noteq> [] \<and> UDP_OVERHEAD + length p \<le> ma)
     \<and> subseq (lk_got L @ datagrams W gb (pipe L)) (lk_sent L)"

lemma datagrams_simps [simp]:
  "datagrams W g [] = []" "datagrams W g (fs @ gs) = datagrams W g fs @ datagrams W g gs"
  "datagrams W g (f # fs) = (case parse W g f of None \<Rightarrow> [] | Some p \<Rightarrow> [p]) @ datagrams W g fs"
  by (simp_all add: datagrams_def map_filter_def split: option.split)

lemma datagrams_carried:
  "list_all2 (carries W l (f_local g) mtu) cs fs \<Longrightarrow> f_remote g = Some l \<Longrightarrow>
   datagrams W g fs = cs \<and> (\<forall>c \<in> set cs. c \<noteq> [] \<and> UDP_OVERHEAD + length c \<le> mtu)"
  by (induction rule: list_all2_induct) (auto simp: carries_def)

lemma subseq_take: "subseq (take n xs) xs"
  by (metis append_take_drop_id subseq_order.order_refl subseq_rev_drop_many)

lemma subseq_cut: "subseq (xs @ y @ zs) ws \<Longrightarrow> subseq (xs @ zs) ws"
  by (meson list_emb_append_mono subseq_drop_many subseq_order.order_refl subseq_order.order_trans)


text \<open>A step that only removes from what is under way, or moves it along.\<close>

lemma link_inv_less:
  assumes "link_inv W ga ma gb mb L" "udp_host ga ma (lk_a L')" "udp_host gb mb (lk_b L')"
    "subseq (datagrams W gb (pipe L')) (datagrams W gb (pipe L))"
    "lk_got L' = lk_got L" "lk_sent L' = lk_sent L"
  shows "link_inv W ga ma gb mb L'"
proof -
  have "subseq (lk_got L' @ datagrams W gb (pipe L')) (lk_sent L')"
    using assms(1,4-6) unfolding link_inv_def
    by (metis subseq_append' subseq_order.order_trans)
  moreover have "set (datagrams W gb (pipe L')) \<subseteq> set (datagrams W gb (pipe L))"
    using assms(4) by (auto dest: list_emb_set)
  ultimately show ?thesis using assms(1-3) unfolding link_inv_def by blast
qed

lemma link_inv_moved:
  assumes "link_inv W ga ma gb mb L" "udp_host ga ma (lk_a L')" "udp_host gb mb (lk_b L')"
    "pipe L' = pipe L" "lk_got L' = lk_got L" "lk_sent L' = lk_sent L"
  shows "link_inv W ga ma gb mb L'"
  using link_inv_less [OF assms(1-3)] assms(4-6) by simp

lemma link_inv_send:
  assumes "link_inv W ga ma gb mb L" "ipv4_wire_laws W" "udp_wire_laws W" "peers ga gb"
    "socket_send W S reading buf (h_sock (lk_a L)) = (res, sk)"
  shows "link_inv W ga ma gb mb
    (L\<lparr>lk_a := (lk_a L)\<lparr>h_sock := sk\<rparr>, lk_sent := lk_sent L @ chunks (max_udp_payload (h_sock (lk_a L))) buf\<rparr>)"
proof -
  have inv: "udp_host ga ma (lk_a L)" "udp_host gb mb (lk_b L)"
    and p: "f_remote ga = Some (f_local gb)" "sa_port (f_local gb) \<noteq> 0" "f_remote gb = Some (f_local ga)"
    using assms(1,4) by (simp_all add: link_inv_def peers_def)
  let ?cs = "chunks (max_udp_payload (h_sock (lk_a L))) buf" and ?n = "tx_room (host_xsk (lk_a L))"
  obtain s fs where s: "(lk_a L)\<lparr>h_sock := sk\<rparr> = set_host s (h_kr (lk_a L)) (h_kt (lk_a L)) (lk_a L)"
    "udp_host ga ma (set_host s (h_kr (lk_a L)) (h_kt (lk_a L)) (lk_a L))"
    "host_xsk (set_host s (h_kr (lk_a L)) (h_kt (lk_a L)) (lk_a L)) = s"
    "tx_wire s = tx_wire (host_xsk (lk_a L)) @ fs" "list_all2 (carries W (f_local ga) (f_local gb) ma) (take ?n ?cs) fs"
    using host_send [OF assms(2,3) inv(1) p(1,2) assms(5)] by blast
  have "datagrams W gb fs = take ?n ?cs" "\<forall>c \<in> set (take ?n ?cs). c \<noteq> [] \<and> UDP_OVERHEAD + length c \<le> ma"
    using datagrams_carried [OF s(5) p(3)] by simp_all
  moreover have "subseq ((lk_got L @ datagrams W gb (pipe L)) @ take ?n ?cs) (lk_sent L @ ?cs)"
    using assms(1) by (intro list_emb_append_mono subseq_take) (simp add: link_inv_def)
  ultimately show ?thesis
    using assms(1) inv(2) s by (auto simp: link_inv_def pipe_def)
qed

lemma link_inv_recv:
  assumes "link_inv W ga ma gb mb L" "socket_recv pr W S reading buf (h_sock (lk_b L)) = (res, buf', sk)"
    "sk_mtu (h_sock (lk_a L)) \<le> UDP_OVERHEAD + length buf"
  shows "link_inv W ga ma gb mb (L\<lparr>lk_b := (lk_b L)\<lparr>h_sock := sk\<rparr>, lk_got := lk_got L @ recv_result res buf'\<rparr>)"
    (is "link_inv W ga ma gb mb ?L")
proof -
  have inv: "udp_host ga ma (lk_a L)" "udp_host gb mb (lk_b L)" "subseq (lk_got L @ datagrams W gb (pipe L)) (lk_sent L)"
    "\<forall>p \<in> set (datagrams W gb (pipe L)). p \<noteq> [] \<and> UDP_OVERHEAD + length p \<le> ma"
    using assms(1) by (simp_all add: link_inv_def)
  have "28 < ma" "sk_mtu (h_sock (lk_a L)) = ma" using inv(1) by (auto elim!: udp_hostE)
  then have buf: "ma \<le> 28 + length buf" "buf \<noteq> []" using assms(3) by (auto simp: header_len_defs)
  obtain s where s: "(lk_b L)\<lparr>h_sock := sk\<rparr> = set_host s (h_kr (lk_b L)) (h_kt (lk_b L)) (lk_b L)"
    "udp_host gb mb ((lk_b L)\<lparr>h_sock := sk\<rparr>)" "host_xsk ((lk_b L)\<lparr>h_sock := sk\<rparr>) = s"
    "case rx_wire (host_xsk (lk_b L)) of
         [] \<Rightarrow> rx_wire s = [] \<and> res = Ok None
       | f # fs \<Rightarrow> rx_wire s = fs \<and> ring_items (x_fill s) \<noteq> []
           \<and> (case parse W gb f of
                None \<Rightarrow> res = Ok None
              | Some p \<Rightarrow> if p = [] then res = Ok None
                          else res = Ok (Some (min (length p) (length buf)))
                            \<and> buf' = take (length buf) p @ drop (length p) buf)"
    using host_recv [OF inv(2) assms(2)] buf(2) by auto
  have "recv_result res buf' @ datagrams W gb (pipe ?L) = datagrams W gb (pipe L)"
  proof (cases "rx_wire (host_xsk (lk_b L))")
    case Nil
    then show ?thesis using s(3,4) by (simp add: pipe_def recv_result_def)
  next
    case (Cons f fs)
    then have "parse W gb f = Some p \<Longrightarrow> p \<noteq> [] \<and> length p \<le> length buf" for p
      using inv(4) buf(1) by (fastforce simp: pipe_def header_len_defs)
    then show ?thesis
      using s(3,4) Cons by (fastforce simp: pipe_def recv_result_def min_def split: option.splits)
  qed
  moreover from this have "set (datagrams W gb (pipe ?L)) \<subseteq> set (datagrams W gb (pipe L))"
    by (metis Un_iff set_append subsetI)
  ultimately show ?thesis
    using inv s(2) unfolding link_inv_def by (simp del: append_assoc add: append_assoc) blast
qed


lemma link_inv_step:
  assumes "link_step pr W S maps q L L'" "link_inv W ga ma gb mb L" "ipv4_wire_laws W" "udp_wire_laws W" "peers ga gb"
  shows "link_inv W ga ma gb mb L'"
proof -
  have inv: "udp_host ga ma (lk_a L)" "udp_host gb mb (lk_b L)" and p: "f_remote gb = Some (f_local ga)" "sa_port (f_local ga) \<noteq> 0"
    using assms(2,5) by (simp_all add: link_inv_def peers_def)
  note less = link_inv_less [OF assms(2)] and moved = link_inv_moved [OF assms(2)]
  note ka = udp_host_kernels [OF inv(1), OF r_into_rtranclp] and kb = udp_host_kernels [OF inv(2)]
  show ?thesis
    using assms(1)
  proof (cases rule: link_step.cases)
    case a_send
    then show ?thesis using link_inv_send [OF assms(2-5)] by simp
  next
    case (a_recv reading buf res buf' sk)
    then show ?thesis
      using host_recv [OF inv(1) a_recv(2)] inv(2) by (intro moved) (auto simp: pipe_def)
  next
    case (a_kernel s kr kt)
    then show ?thesis using ka inv(2) by (intro moved) (auto simp: pipe_def)
  next
    case (transmit s kr kt f)
    then show ?thesis using ka inv(2) by (intro moved) (auto simp: pipe_def)
  next
    case (lose xs f ys)
    then show ?thesis using inv by (intro less) (auto simp: pipe_def intro: list_emb_append_mono)
  next
    case (noise xs ys u f)
    then have "parse W gb f = None" using inv(2) by (auto elim!: udp_hostE)
    then show ?thesis using noise inv by (intro less) (auto simp: pipe_def)
  next
    case (arrive f fs s kr kt)
    then show ?thesis using kb inv(1) by (intro moved) (auto simp: pipe_def)
  next
    case (b_kernel s kr kt)
    then show ?thesis using kb [OF r_into_rtranclp] inv(1) by (intro moved) (auto simp: pipe_def)
  next
    case (b_send reading buf n sk)
    then show ?thesis
      using host_send [OF assms(3,4) inv(2) p b_send(2)] inv(1) by (intro moved) (auto simp: pipe_def)
  next
    case b_recv
    then show ?thesis using link_inv_recv [OF assms(2)] by simp
  qed
qed

text \<open>Both sockets connected to each other, and nothing under way.\<close>

definition link_idle :: "framing \<Rightarrow> nat \<Rightarrow> framing \<Rightarrow> nat \<Rightarrow> ('i, 't) link \<Rightarrow> bool" where
  "link_idle ga ma gb mb L \<longleftrightarrow> udp_host ga ma (lk_a L) \<and> udp_host gb mb (lk_b L) \<and> pipe L = []"

lemma link_inv_idle: "link_idle ga ma gb mb L \<Longrightarrow> lk_got L = [] \<Longrightarrow> link_inv W ga ma gb mb L"
  by (simp add: link_idle_def link_inv_def)

interpretation links: invariant_system
  "\<lambda>L. link_idle ga ma gb mb L \<and> lk_got L = [] \<and> lk_sent L = [] \<and> ipv4_wire_laws W \<and> udp_wire_laws W \<and> peers ga gb"
  "link_step pr W S maps q"
  "\<lambda>L. link_inv W ga ma gb mb L \<and> ipv4_wire_laws W \<and> udp_wire_laws W \<and> peers ga gb"
  for pr W S maps q ga ma gb mb
  by unfold_locales (auto intro: link_inv_step link_inv_idle)

text \<open>
  C6.  End to end, over UDP, nothing is changed, repeated or reordered.  Two sockets are connected to each
  other; both programs, both kernels and the wire run in any order, frames are lost and frames of others are
  mixed in.  What the receiver's calls of \<^verbatim>\<open>recv\<close> have returned is a subsequence of the pieces of the buffers the
  sender gave to \<^verbatim>\<open>send\<close>, and together with the datagrams still in the receive ring, on the wire and in
  the transmit ring it still is.
\<close>

theorem udp_link_faithful:
  assumes "ipv4_wire_laws W" and "udp_wire_laws W" and "peers ga gb"
    and "link_idle ga ma gb mb L0" and "lk_got L0 = []" and "lk_sent L0 = []"
    and "(link_step pr W S maps q)\<^sup>*\<^sup>* L0 L"
  shows "subseq (lk_got L) (lk_sent L) \<and> subseq (lk_got L @ datagrams W gb (pipe L)) (lk_sent L)"
proof -
  have "link_inv W ga ma gb mb L" using links.inv_reachable [OF _ assms(7)] assms(1-6) by blast
  then have s: "subseq (lk_got L @ datagrams W gb (pipe L)) (lk_sent L)" by (simp add: link_inv_def)
  then show ?thesis using subseq_cut [of "lk_got L" _ "[]"] by simp
qed


section \<open>What is sent can arrive\<close>

lemma two_steps: "r x y \<Longrightarrow> r y z \<Longrightarrow> r\<^sup>*\<^sup>* x z"
  by (meson converse_rtranclp_into_rtranclp r_into_rtranclp)

text \<open>The sender's kernel puts one frame on the wire and returns its buffer.\<close>

lemma link_transmits:
  assumes "udp_host ga ma (lk_a L)" "tx_wire (host_xsk (lk_a L)) = f # fs"
  shows "\<exists>s. (link_step pr W S maps q)\<^sup>*\<^sup>* L
      (L\<lparr>lk_air := lk_air L @ [f], lk_a := set_host s (h_kr (lk_a L)) (h_kt (lk_a L)) (lk_a L)\<rparr>)
    \<and> udp_host ga ma (set_host s (h_kr (lk_a L)) (h_kt (lk_a L)) (lk_a L))
    \<and> host_xsk (set_host s (h_kr (lk_a L)) (h_kt (lk_a L)) (lk_a L)) = s
    \<and> tx_wire s = fs \<and> tx_room s = Suc (tx_room (host_xsk (lk_a L)))"
proof -
  let ?h = "lk_a L" and ?s = "host_xsk (lk_a L)"
  have o: "owns ?s (h_kr ?h) (h_kt ?h) {#} {#}" using assms(1) by (auto elim!: udp_hostE)
  obtain d r where d: "ring_consume (x_tx ?s) = Some (d, r)"
    using assms(2) ring_consume_None [of "x_tx ?s"] by (fastforce simp: tx_wire_def)
  note k = kernel_transmits [OF o d]
  let ?t = "?s\<lparr>x_tx := r\<rparr>" and ?c = "?s\<lparr>x_tx := r, x_comp := peer_produce (d_addr d) (x_comp ?s)\<rparr>"
  have w: "tx_wire ?t = fs" "tx_wire ?c = fs" using tx_wire_take [OF d] assms(2) by (simp_all add: tx_wire_def frame_def)
  let ?h1 = "set_host ?t (h_kr ?h) (add_mset (d_addr d) (h_kt ?h)) ?h" and ?h2 = "set_host ?c (h_kr ?h) (h_kt ?h) ?h"
  let ?L1 = "L\<lparr>lk_a := ?h1, lk_air := lk_air L @ [f]\<rparr>"
  have h1: "host_xsk ?h1 = ?t" "h_kr ?h1 = h_kr ?h" "h_kt ?h1 = add_mset (d_addr d) (h_kt ?h)"
    "set_host ?c (h_kr ?h) (h_kt ?h) ?h1 = ?h2"
    using assms(1)
    by (auto simp: host_xsk_def set_host_def plane_xsk_def set_plane_xsk_def elim!: udp_hostE)
  have step1: "link_step pr W S maps q L ?L1"
    using link_step.transmit [OF k(1), where f = f] assms(2) w(1) by simp
  have step2: "link_step pr W S maps q ?L1 (L\<lparr>lk_air := lk_air L @ [f], lk_a := ?h2\<rparr>)"
    using link_step.a_kernel [of ?L1 ?c "h_kr ?h" "h_kt ?h"] k(2) w h1 by simp
  note h2 = udp_host_kernels [OF assms(1) two_steps [of kernel_step, OF k(1,2)]]
  show ?thesis
    using two_steps [of "link_step pr W S maps q", OF step1 step2] h2 w(2) k(3)
    by blast
qed

text \<open>A frame of the flow reaches the receiver, is read, and its buffer is given back.\<close>

lemma link_receives:
  assumes "udp_host gb mb (lk_b L)" "sk_mtu (h_sock (lk_a L)) \<le> mb" "peers ga gb" "wire_layout W"
    "lk_air L = [f]" "carries W (f_local ga) (f_local gb) mb c f"
    "rx_wire (host_xsk (lk_b L)) = []" "ring_items (x_fill (host_xsk (lk_b L))) \<noteq> []"
    "map_of (config_map maps) (flow_key (f_local gb) (f_local ga)) \<noteq> None"
    "map_of (xsks_map maps) q = Some (x_fd (host_xsk (lk_b L)))"
  shows "\<exists>h. (link_step pr W S maps q)\<^sup>*\<^sup>* L (L\<lparr>lk_air := [], lk_b := h, lk_got := lk_got L @ [c]\<rparr>)
    \<and> udp_host gb mb h \<and> rx_wire (host_xsk h) = [] \<and> ring_items (x_fill (host_xsk h)) \<noteq> []
    \<and> x_fd (host_xsk h) = x_fd (host_xsk (lk_b L))"
proof -
  let ?h = "lk_b L" and ?s = "host_xsk (lk_b L)"
  have o: "owns ?s (h_kr ?h) (h_kt ?h) {#} {#}" "tx_fits ?s" "14 + mb \<le> unat (x_frame_size ?s)" "28 < mb"
    using assms(1) by (auto elim!: udp_hostE)
  have f: "length f \<le> unat (x_frame_size ?s)" "parse W gb f = Some c" "c \<noteq> []" "length c \<le> mb"
    "packet_flow f = Some (f_local ga, f_local gb)"
    using assms(3,4,6) o(3) by (auto simp: carries_def peers_def header_len_defs)
  obtain s1 where s1: "kernel_step\<^sup>*\<^sup>* (?s, h_kr ?h, h_kt ?h) (s1, h_kr ?h, h_kt ?h)" "rx_wire s1 = [f]" "x_fd s1 = x_fd ?s"
    using kernel_delivers [OF o(1,2) assms(8) f(1)] assms(7) by auto
  let ?h1 = "set_host s1 (h_kr ?h) (h_kt ?h) ?h"
  let ?L1 = "L\<lparr>lk_b := ?h1, lk_air := []\<rparr>" and ?buf = "replicate mb 0 :: bytes"
  note h1 = udp_host_kernels [OF assms(1) s1(1)]
  have "xdp_redirect_flow maps q f = XDP_REDIRECT (x_fd ?s)"
    using f(5) assms(9,10) by (simp add: xdp_redirect_eq redirect_map_def)
  then have arrive: "link_step pr W S maps q L ?L1"
    using link_step.arrive [OF assms(5) _ s1(1)] s1(2) assms(7) by simp
  obtain res buf' sk where recv: "socket_recv pr W S 0 ?buf (h_sock ?h1) = (res, buf', sk)" by (metis prod.collapse)
  let ?h2 = "?h1\<lparr>h_sock := sk\<rparr>"
  have h2: "udp_host gb mb ?h2" "rx_wire (host_xsk ?h2) = []" "ring_items (x_fill (host_xsk ?h2)) \<noteq> []"
    "x_fd (host_xsk ?h2) = x_fd ?s" "res = Ok (Some (min (length c) mb))" "buf' = take mb c @ drop (length c) ?buf"
    using host_recv [OF h1(1) recv] h1(2) s1(2,3) f(2,3) o(4) by auto
  have "link_step pr W S maps q ?L1 (L\<lparr>lk_air := [], lk_b := ?h2, lk_got := lk_got L @ [c]\<rparr>)"
    using link_step.b_recv [of pr W S 0 ?buf ?L1 res buf' sk maps q] recv assms(2) h2(5,6) f(4)
    by (simp add: recv_result_def)
  with arrive have "(link_step pr W S maps q)\<^sup>*\<^sup>* L (L\<lparr>lk_air := [], lk_b := ?h2, lk_got := lk_got L @ [c]\<rparr>)"
    by (rule two_steps [of "link_step pr W S maps q"])
  then show ?thesis using h2 by blast
qed


text \<open>The receiver has a buffer with the kernel, and its flow and socket are in the maps.\<close>

definition link_open :: "bpf_maps \<Rightarrow> u32 \<Rightarrow> framing \<Rightarrow> framing \<Rightarrow> ('i, 't) link \<Rightarrow> bool" where
  "link_open maps q ga gb L \<longleftrightarrow>
     ring_items (x_fill (host_xsk (lk_b L))) \<noteq> []
     \<and> map_of (config_map maps) (flow_key (f_local gb) (f_local ga)) \<noteq> None
     \<and> map_of (xsks_map maps) q = Some (x_fd (host_xsk (lk_b L)))"

lemma link_drains:
  assumes "list_all2 (carries W (f_local ga) (f_local gb) ma) cs fs" "ma \<le> mb" "peers ga gb" "wire_layout W"
  shows "udp_host ga ma (lk_a L) \<Longrightarrow> udp_host gb mb (lk_b L) \<Longrightarrow> link_open maps q ga gb L \<Longrightarrow>
    rx_wire (host_xsk (lk_b L)) = [] \<Longrightarrow> lk_air L = [] \<Longrightarrow> tx_wire (host_xsk (lk_a L)) = fs \<Longrightarrow>
    \<exists>L'. (link_step pr W S maps q)\<^sup>*\<^sup>* L L' \<and> link_idle ga ma gb mb L' \<and> link_open maps q ga gb L'
      \<and> lk_sent L' = lk_sent L \<and> lk_got L' = lk_got L @ cs \<and> h_kt (lk_a L') = h_kt (lk_a L)"
  using assms(1)
proof (induction arbitrary: L rule: list_all2_induct)
  case Nil
  then show ?case by (intro exI [of _ L]) (simp add: link_idle_def pipe_def)
next
  case (Cons c cs f fs)
  let ?a = "\<lambda>s. set_host s (h_kr (lk_a L)) (h_kt (lk_a L)) (lk_a L)"
  obtain s where s: "(link_step pr W S maps q)\<^sup>*\<^sup>* L (L\<lparr>lk_air := [f], lk_a := ?a s\<rparr>)"
    "udp_host ga ma (?a s)" "host_xsk (?a s) = s" "tx_wire s = fs"
    using link_transmits [OF Cons.prems(1,6), of pr W S maps q] Cons.prems(5) by auto
  let ?L = "L\<lparr>lk_air := [f], lk_a := ?a s\<rparr>"
  have c: "carries W (f_local ga) (f_local gb) mb c f" "sk_mtu (h_sock (lk_a ?L)) \<le> mb"
    using Cons.hyps(1) s(2) assms(2) by (auto simp: carries_def elim!: udp_hostE)
  obtain h where h: "(link_step pr W S maps q)\<^sup>*\<^sup>* ?L (?L\<lparr>lk_air := [], lk_b := h, lk_got := lk_got L @ [c]\<rparr>)"
    "udp_host gb mb h" "rx_wire (host_xsk h) = []" "ring_items (x_fill (host_xsk h)) \<noteq> []"
    "x_fd (host_xsk h) = x_fd (host_xsk (lk_b L))"
    using link_receives [of gb mb ?L ga W f c maps q pr S] Cons.prems(2-4) c assms(3,4)
    by (auto simp: link_open_def)
  let ?M = "?L\<lparr>lk_air := [], lk_b := h, lk_got := lk_got L @ [c]\<rparr>"
  have "link_open maps q ga gb ?M" using Cons.prems(3) h(4,5) by (simp add: link_open_def)
  then obtain L' where L': "(link_step pr W S maps q)\<^sup>*\<^sup>* ?M L'" "link_idle ga ma gb mb L'" "link_open maps q ga gb L'"
    "lk_sent L' = lk_sent L" "lk_got L' = lk_got L @ c # cs" "h_kt (lk_a L') = h_kt (lk_a L)"
    using Cons.IH [of ?M] s(2-4) h(2,3) by (auto simp: set_host_def)
  have "(link_step pr W S maps q)\<^sup>*\<^sup>* L L'" using s(1) h(1) L'(1) by (meson rtranclp_trans)
  then show ?case using L'(2-6) by blast
qed

lemma idle_room:
  assumes "link_idle ga ma gb mb L"
  shows "tx_room (host_xsk (lk_a L)) + size (h_kt (lk_a L)) = 2048"
proof -
  have o: "owns (host_xsk (lk_a L)) (h_kr (lk_a L)) (h_kt (lk_a L)) {#} {#}" "ring_items (x_tx (host_xsk (lk_a L))) = []"
    using assms by (auto simp: link_idle_def pipe_def tx_wire_def elim!: udp_hostE)
  then show ?thesis using owns_counts(2) [OF o(1)] by (simp add: tx_room_def flip: length_ring_items)
qed

text \<open>
  C7.  What is sent over UDP can arrive whole.  Nothing is under way, the sender has a free transmit frame for
  each piece of the buffer, the receiver's MTU is not smaller, it has given a frame to its kernel and
  its flow and socket are in the maps.  Then from the call of \<^verbatim>\<open>send\<close> there is a run, through the transmit ring, the wire, the XDP program
  and the receive ring, after which the calls of \<^verbatim>\<open>recv\<close> have returned exactly the pieces of the buffer, in order,
  and everything is as before: nothing under way and as many transmit frames free.
\<close>

theorem udp_link_delivers:
  assumes "ipv4_wire_laws W" and "udp_wire_laws W" and "wire_layout W" and "peers ga gb" and "ma \<le> mb"
    and "link_idle ga ma gb mb L" and "link_open maps q ga gb L"
    and "socket_send W S reading buf (h_sock (lk_a L)) = (res, sk)"
  defines "cs \<equiv> chunks (max_udp_payload (h_sock (lk_a L))) buf"
  assumes "length cs \<le> tx_room (host_xsk (lk_a L))"
  shows "res = Ok (length buf) \<and> concat cs = buf
    \<and> (\<exists>L'. (link_step pr W S maps q)\<^sup>*\<^sup>* (L\<lparr>lk_a := (lk_a L)\<lparr>h_sock := sk\<rparr>, lk_sent := lk_sent L @ cs\<rparr>) L'
         \<and> lk_sent L' = lk_sent L @ cs \<and> lk_got L' = lk_got L @ cs
         \<and> link_idle ga ma gb mb L' \<and> link_open maps q ga gb L'
         \<and> tx_room (host_xsk (lk_a L')) = tx_room (host_xsk (lk_a L)))"
proof -
  have L: "udp_host ga ma (lk_a L)" "udp_host gb mb (lk_b L)" "rx_wire (host_xsk (lk_b L)) = []" "lk_air L = []"
    "tx_wire (host_xsk (lk_a L)) = []"
    using assms(6) by (simp_all add: link_idle_def pipe_def)
  have p: "f_remote ga = Some (f_local gb)" "sa_port (f_local gb) \<noteq> 0" using assms(4) by (simp_all add: peers_def)
  let ?h = "(lk_a L)\<lparr>h_sock := sk\<rparr>"
  obtain s fs where s: "?h = set_host s (h_kr (lk_a L)) (h_kt (lk_a L)) (lk_a L)" "res = Ok (length buf)"
    "udp_host ga ma ?h" "tx_wire (host_xsk ?h) = fs" "list_all2 (carries W (f_local ga) (f_local gb) ma) cs fs"
    using host_send [OF assms(1,2) L(1) p assms(8)] assms(10) L(5) unfolding cs_def by auto
  have "0 < max_udp_payload (h_sock (lk_a L))"
    using L(1) by (auto simp: max_udp_payload_def header_len_defs elim!: udp_hostE)
  then have "concat cs = buf" by (simp add: cs_def chunks_concat)
  moreover let ?L = "L\<lparr>lk_a := ?h, lk_sent := lk_sent L @ cs\<rparr>"
  have "link_open maps q ga gb ?L" using assms(7) by (simp add: link_open_def)
  then obtain L' where L': "(link_step pr W S maps q)\<^sup>*\<^sup>* ?L L'" "link_idle ga ma gb mb L'" "link_open maps q ga gb L'"
      "lk_sent L' = lk_sent L @ cs" "lk_got L' = lk_got L @ cs" "h_kt (lk_a L') = h_kt (lk_a L)"
    using link_drains [OF s(5) assms(5,4,3), of ?L maps q pr S] L s(3,4) by auto
  moreover have "tx_room (host_xsk (lk_a L')) = tx_room (host_xsk (lk_a L))"
    using idle_room [OF assms(6)] idle_room [OF L'(2)] L'(6) by simp
  ultimately show ?thesis using s(2) by blast
qed

end
