(* ===== verification/Link_Sample.thy ===== *)
theory Link_Sample
  imports Link Socket_Sample
begin

text \<open>Two sample sockets connected to each other, and one byte sent between them.\<close>

definition sample_framing_a :: framing where
  "sample_framing_a =
     \<lparr>f_src_mac = [0x02, 0, 0, 0, 0, 1], f_dst_mac = [0x02, 0, 0, 0, 0, 2],
      f_local = sample_local, f_remote = Some sample_remote\<rparr>"

definition sample_framing_b :: framing where
  "sample_framing_b =
     \<lparr>f_src_mac = [0x02, 0, 0, 0, 0, 2], f_dst_mac = [0x02, 0, 0, 0, 0, 1],
      f_local = sample_remote, f_remote = Some sample_local\<rparr>"

definition sample_peer :: "(unit, bytes \<times> bytes) sock" where
  "sample_peer =
     sample_connected\<lparr>sk_our_ip := 0x0a630002, sk_port := \<lparr>pr_fd = 7, pr_port = 6667\<rparr>,
       sk_remote := Some sample_local,
       sk_plane := Plane_Udp \<lparr>up_xsk = sample_sk, up_framing = sample_framing_b\<rparr>\<rparr>"

definition sample_link :: "(unit, bytes \<times> bytes) link" where
  "sample_link =
     \<lparr>lk_a = \<lparr>h_sock = sample_connected, h_kr = {#}, h_kt = {#}\<rparr>,
      lk_b = \<lparr>h_sock = sample_peer, h_kr = {#}, h_kt = {#}\<rparr>, lk_air = [], lk_sent = [], lk_got = []\<rparr>"

definition sample_peer_maps :: bpf_maps where
  "sample_peer_maps = \<lparr>config_map = [(flow_key sample_remote sample_local, 1)], xsks_map = [(0, x_fd sample_sk)]\<rparr>"

lemma sample_peer_ok: "sock_ok {#} {#} sample_peer"
  by (simp add: sock_ok_def sample_peer_def sample_connected_def sample_udp_sock_def header_len_defs sample_owns
      tx_fits_def sample_queues sample_fields framing_ok_def local_addr_def sample_remote_def sample_framing_b_def)

lemma sample_peers: "peers sample_framing_a sample_framing_b"
  by (simp add: peers_def sample_framing_a_def sample_framing_b_def sample_local_def sample_remote_def)

lemma sample_rx_empty: "ring_items (x_rx sample_sk) = []"
  using sample_queues(2) by (metis length_0_conv length_ring_items)

lemma sample_link_idle: "link_idle sample_framing_a 1500 sample_framing_b 1500 sample_link"
  using sample_connected_ok sample_peer_ok
  by (simp add: link_idle_def udp_host_def pipe_def host_xsk_def plane_xsk_def sample_link_def sample_framing_a_def
      sample_framing_b_def rx_wire_def tx_wire_def)
     (simp add: sample_peer_def sample_connected_def sample_udp_sock_def sample_framing_b_def sample_queues sample_rx_empty)

lemma sample_link_open: "link_open sample_peer_maps 0 sample_framing_a sample_framing_b sample_link"
  using sample_queues
  by (simp add: link_open_def sample_link_def host_xsk_def plane_xsk_def sample_peer_def sample_peer_maps_def
      sample_framing_a_def sample_framing_b_def)

lemma sample_link_chunks: "chunks (max_udp_payload (h_sock (lk_a sample_link))) [0x78] = [[0x78]]"
  by (simp add: sample_link_def max_udp_payload_def sample_connected_def sample_udp_sock_def header_len_defs
      chunks.simps)

lemma sample_link_room: "1 \<le> tx_room (host_xsk (lk_a sample_link))"
  using idle_room [OF sample_link_idle] by (simp add: sample_link_def)

theorem udp_link_delivers_witness:
  "\<exists>L L'. (link_step Release rfc_wire sample_stack sample_peer_maps 0)\<^sup>*\<^sup>* L L'
     \<and> lk_sent L = [[0x78]] \<and> lk_got L = [] \<and> lk_got L' = [[0x78]]"
proof -
  obtain res sk where s: "socket_send rfc_wire sample_stack 0 [0x78] (h_sock (lk_a sample_link)) = (res, sk)"
    by fastforce
  let ?L = "sample_link\<lparr>lk_a := (lk_a sample_link)\<lparr>h_sock := sk\<rparr>, lk_sent := [[0x78]]\<rparr>"
  have empty: "lk_sent sample_link = []" "lk_got sample_link = []" by (simp_all add: sample_link_def)
  obtain L' where "(link_step Release rfc_wire sample_stack sample_peer_maps 0)\<^sup>*\<^sup>* ?L L'" "lk_got L' = [[0x78]]"
    using udp_link_delivers [OF rfc_ipv4_laws rfc_udp_laws rfc_layout sample_peers order_refl sample_link_idle
        sample_link_open s, of Release] sample_link_room
    by (auto simp: sample_link_chunks empty)
  then show ?thesis using empty by (intro exI [of _ ?L] exI [of _ L']) simp
qed

theorem udp_link_faithful_witness:
  "\<exists>L. (link_step Release rfc_wire sample_stack sample_peer_maps 0)\<^sup>*\<^sup>* sample_link L
     \<and> lk_sent L = [[0x78]] \<and> subseq (datagrams rfc_wire sample_framing_b (pipe L)) [[0x78]]"
proof -
  obtain res sk where s: "socket_send rfc_wire sample_stack 0 [0x78] (h_sock (lk_a sample_link)) = (res, sk)"
    by fastforce
  have h: "udp_host sample_framing_a 1500 (lk_a sample_link)" "f_remote sample_framing_a = Some sample_remote"
    "sa_port sample_remote \<noteq> 0"
    using sample_link_idle by (simp_all add: link_idle_def sample_framing_a_def sample_remote_def)
  let ?L = "sample_link\<lparr>lk_a := (lk_a sample_link)\<lparr>h_sock := sk\<rparr>,
         lk_sent := lk_sent sample_link @ chunks (max_udp_payload (h_sock (lk_a sample_link))) [0x78]\<rparr>"
  have "res = Ok 1" using host_send [OF rfc_ipv4_laws rfc_udp_laws h s] by auto
  then have steps: "(link_step Release rfc_wire sample_stack sample_peer_maps 0)\<^sup>*\<^sup>* sample_link ?L"
    using s by (intro r_into_rtranclp link_step.a_send [where n = 1 and reading = 0]) simp
  have empty: "lk_got sample_link = []" "lk_sent sample_link = []" by (simp_all add: sample_link_def)
  have "subseq (lk_got ?L @ datagrams rfc_wire sample_framing_b (pipe ?L)) (lk_sent ?L)"
    using udp_link_faithful [OF rfc_ipv4_laws rfc_udp_laws sample_peers sample_link_idle empty steps] by blast
  then show ?thesis using steps by (intro exI [of _ ?L]) (simp add: sample_link_chunks empty)
qed

end
