(* ===== verification/Parsing.thy ===== *)
theory Parsing
  imports Xskip_Prelude "HOL-Library.Char_ord"
begin

text \<open>
  Reading numbers and addresses from text (\<^verbatim>\<open>parse_mac\<close>, \<^verbatim>\<open>read_mac\<close> and \<^verbatim>\<open>read_mtu\<close> of
  \<^verbatim>\<open>src/socket.rs\<close>), with the parts of Rust's standard library they use.  Text is a list of bytes; the
  sysfs files read here are ASCII.
\<close>

section \<open>Text\<close>

text \<open>\<^verbatim>\<open>str::split\<close> on one character: always at least one piece.\<close>

fun split_on :: "char \<Rightarrow> string \<Rightarrow> string list" where
  "split_on c [] = [[]]"
| "split_on c (x # xs) =
     (if x = c then [] # split_on c xs
      else case split_on c xs of [] \<Rightarrow> [[x]] | p # ps \<Rightarrow> (x # p) # ps)"

text \<open>\<^verbatim>\<open>str::trim\<close>, on the ASCII white space of \<^verbatim>\<open>char::is_whitespace\<close>.\<close>

definition is_space :: "char \<Rightarrow> bool" where
  "is_space c \<longleftrightarrow> c \<in> {CHR 0x09, CHR 0x0A, CHR 0x0B, CHR 0x0C, CHR 0x0D, CHR '' ''}"

definition trim :: "string \<Rightarrow> string" where
  "trim s = rev (dropWhile is_space (rev (dropWhile is_space s)))"

text \<open>\<^verbatim>\<open>char::to_digit\<close> for a radix up to 36.\<close>

definition to_digit :: "nat \<Rightarrow> char \<Rightarrow> nat option" where
  "to_digit radix c =
     (let n = of_char c :: nat;
          d = (if 48 \<le> n \<and> n \<le> 57 then n - 48
               else if 97 \<le> n \<and> n \<le> 122 then n - 87
               else if 65 \<le> n \<and> n \<le> 90 then n - 55 else radix)
      in if d < radix then Some d else None)"

text \<open>
  \<^verbatim>\<open>from_str_radix\<close> of an unsigned type with \<open>bound\<close> values: an optional plus sign, at least one digit,
  and no overflow on the way.
\<close>

fun parse_digits :: "nat \<Rightarrow> nat \<Rightarrow> string \<Rightarrow> nat \<Rightarrow> nat option" where
  "parse_digits radix bound [] acc = Some acc"
| "parse_digits radix bound (c # cs) acc =
     (case to_digit radix c of
        None \<Rightarrow> None
      | Some d \<Rightarrow>
          if bound \<le> acc * radix + d then None else parse_digits radix bound cs (acc * radix + d))"

definition from_str_radix :: "nat \<Rightarrow> nat \<Rightarrow> string \<Rightarrow> nat option" where
  "from_str_radix radix bound s =
     (case s of
        [] \<Rightarrow> None
      | c # cs \<Rightarrow>
          let digits = (if c = CHR ''+'' then cs else s)
          in if digits = [] then None else parse_digits radix bound digits 0)"

section \<open>Addresses and the MTU\<close>

text \<open>\<^verbatim>\<open>parse_mac\<close>: the loop over the fields, with the array and the number of fields seen.\<close>

primrec parse_mac_loop :: "string \<Rightarrow> string list \<Rightarrow> bytes \<Rightarrow> nat \<Rightarrow> error_msg + bytes" where
  "parse_mac_loop s [] out n = (if n \<noteq> 6 then Inl (Bad_Mac s) else Inr out)"
| "parse_mac_loop s (part # parts) out n =
     (if n = 6 then Inl (Bad_Mac s)
      else case from_str_radix 16 256 part of
        None \<Rightarrow> Inl (Bad_Mac s)
      | Some v \<Rightarrow> parse_mac_loop s parts (out[n := of_nat v]) (n + 1))"

definition parse_mac :: "string \<Rightarrow> error_msg + bytes" where
  "parse_mac s = parse_mac_loop s (split_on CHR '':'' s) (replicate 6 0) 0"

text \<open>\<open>file\<close> is what reading the sysfs file gives.\<close>

definition read_mac :: "io_error + string \<Rightarrow> bytes outcome" where
  "read_mac file =
     (case file of
        Inl e \<Rightarrow> Err e
      | Inr s \<Rightarrow> (case parse_mac (trim s) of Inl m \<Rightarrow> Err (Custom InvalidData m) | Inr mac \<Rightarrow> Ok mac))"

definition read_mtu :: "string \<Rightarrow> io_error + string \<Rightarrow> nat outcome" where
  "read_mtu ifname file =
     (case file of
        Inl e \<Rightarrow> Err e
      | Inr s \<Rightarrow>
          (case from_str_radix 10 usize_modulus (trim s) of
             None \<Rightarrow> Err (Custom InvalidData (Bad_Mtu ifname))
           | Some n \<Rightarrow> Ok n))"

section \<open>Numbers\<close>

definition digits_value :: "nat \<Rightarrow> nat list \<Rightarrow> nat \<Rightarrow> nat" where
  "digits_value radix ds acc = foldl (\<lambda>a d. a * radix + d) acc ds"

lemma digits_value_ge: "0 < radix \<Longrightarrow> acc \<le> digits_value radix ds acc"
proof (induction ds arbitrary: acc)
  case Nil
  then show ?case by (simp add: digits_value_def)
next
  case (Cons d ds)
  have "acc \<le> acc * radix" using Cons.prems by simp
  also have "\<dots> \<le> acc * radix + d" by simp
  also have "\<dots> \<le> digits_value radix ds (acc * radix + d)" using Cons by blast
  finally show ?case by (simp add: digits_value_def)
qed

text \<open>The overflow checks on the way are one check at the end.\<close>

lemma parse_digits_eq:
  assumes "0 < radix" "acc < bound"
  shows "parse_digits radix bound s acc = Some v \<longleftrightarrow>
    (\<exists>ds. map (to_digit radix) s = map Some ds \<and> v = digits_value radix ds acc \<and> v < bound)"
  using assms(2)
proof (induction s arbitrary: acc)
  case Nil
  then show ?case by (auto simp: digits_value_def)
next
  case (Cons c cs)
  show ?case
  proof (cases "to_digit radix c")
    case None
    then show ?thesis by auto
  next
    case (Some d)
    have "bound \<le> acc * radix + d \<Longrightarrow> \<not> digits_value radix ds (acc * radix + d) < bound" for ds
      using digits_value_ge [OF assms(1), of "acc * radix + d" ds] by simp
    with Some Cons.IH [of "acc * radix + d"] show ?thesis
      by (auto simp: digits_value_def Cons_eq_map_conv not_le)
  qed
qed

text \<open>How a digit is printed.\<close>

definition digit_char :: "nat \<Rightarrow> char" where
  "digit_char d = char_of (if d < 10 then 48 + d else 87 + d)"

function dec_string :: "nat \<Rightarrow> string" where
  "dec_string n = (if n < 10 then [digit_char n] else dec_string (n div 10) @ [digit_char (n mod 10)])"
  by pat_completeness auto
termination
  by (relation "measure id") auto

declare dec_string.simps [simp del]

definition hex_byte :: "u8 \<Rightarrow> string" where
  "hex_byte b = [digit_char (unat b div 16), digit_char (unat b mod 16)]"

lemma of_digit_char: "d < 36 \<Longrightarrow> of_char (digit_char d) = (if d < 10 then 48 + d else 87 + d)"
  by (simp add: digit_char_def)

lemma to_digit_char: "d < radix \<Longrightarrow> radix \<le> 36 \<Longrightarrow> to_digit radix (digit_char d) = Some d"
  by (simp add: to_digit_def of_digit_char Let_def)

lemma digit_char_plain:
  assumes "d < 36"
  shows "digit_char d \<noteq> CHR ''+''" "digit_char d \<noteq> CHR '':''" "\<not> is_space (digit_char d)"
    "digit_char d \<noteq> CHR ''.''"
proof -
  have ne: "digit_char d \<noteq> c" if "of_char c < (48 :: nat) \<or> of_char c = (58 :: nat)" for c
  proof
    assume "digit_char d = c"
    then have "of_char c = (if d < 10 then 48 + d else 87 + d)" using of_digit_char [OF assms] by simp
    then show False using that by (auto split: if_splits)
  qed
  show "digit_char d \<noteq> CHR ''+''" "digit_char d \<noteq> CHR '':''" "digit_char d \<noteq> CHR ''.''" by (rule ne; simp)+
  show "\<not> is_space (digit_char d)"
    unfolding is_space_def by (auto dest!: ne [THEN notE, rotated])
qed

lemma digits_value_snoc: "digits_value r (ds @ [d]) a = digits_value r ds a * r + d"
  by (simp add: digits_value_def)

lemma dec_string_digits:
  "\<exists>ds. map (to_digit 10) (dec_string n) = map Some ds \<and> digits_value 10 ds 0 = n \<and> dec_string n \<noteq> []
     \<and> dec_string n = map digit_char ds \<and> (\<forall>d \<in> set ds. d < 10)"
proof (induction n rule: dec_string.induct)
  case (1 n)
  show ?case
  proof (cases "n < 10")
    case True
    then show ?thesis
      by (intro exI [of _ "[n]"]) (simp add: dec_string.simps [of n] to_digit_char digits_value_def)
  next
    case False
    then obtain ds where ds: "map (to_digit 10) (dec_string (n div 10)) = map Some ds"
      "digits_value 10 ds 0 = n div 10" "dec_string (n div 10) = map digit_char ds" "\<forall>d \<in> set ds. d < 10"
      using 1 by auto
    have "dec_string n = map digit_char (ds @ [n mod 10])"
      using False ds(3) by (simp add: dec_string.simps [of n])
    moreover have "map (to_digit 10) (map digit_char (ds @ [n mod 10])) = map Some (ds @ [n mod 10])"
      using ds(1,3) by (simp add: to_digit_char)
    moreover have "digits_value 10 (ds @ [n mod 10]) 0 = n"
      using ds(2) by (simp add: digits_value_snoc)
    ultimately show ?thesis using ds(4) by (intro exI [of _ "ds @ [n mod 10]"]) auto
  qed
qed

lemma from_str_radix_plain:
  assumes "s \<noteq> []" "hd s \<noteq> CHR ''+''"
  shows "from_str_radix radix bound s = parse_digits radix bound s 0"
  using assms by (cases s) (simp_all add: from_str_radix_def)

lemma from_dec_string:
  assumes "n < bound"
  shows "from_str_radix 10 bound (dec_string n) = Some n"
proof -
  obtain ds where ds: "map (to_digit 10) (dec_string n) = map Some ds" "digits_value 10 ds 0 = n"
    "dec_string n \<noteq> []" "dec_string n = map digit_char ds" "\<forall>d \<in> set ds. d < 10"
    using dec_string_digits [of n] by blast
  have "hd (dec_string n) \<noteq> CHR ''+''"
    using ds(3-5) digit_char_plain(1) by (cases ds) auto
  moreover have "parse_digits 10 bound (dec_string n) 0 = Some n"
    using ds(1,2) assms by (subst parse_digits_eq) auto
  ultimately show ?thesis using from_str_radix_plain ds(3) by simp
qed

lemma trim_line:
  assumes "\<forall>c \<in> set s. \<not> is_space c"
  shows "trim (s @ [CHR 0x0A]) = s"
proof (cases s)
  case Nil
  then show ?thesis by (simp add: trim_def is_space_def)
next
  case (Cons c cs)
  have "dropWhile is_space (s @ [CHR 0x0A]) = s @ [CHR 0x0A]" using assms Cons by simp
  moreover have "dropWhile is_space (rev s) = rev s"
    using assms by (cases "rev s") (auto simp: rev_swap)
  ultimately show ?thesis by (simp add: trim_def is_space_def)
qed

text \<open>
  \<^verbatim>\<open>read_mtu\<close> reads what the kernel prints: for every 64-bit MTU, the decimal number followed by
  a newline is read as that number.
\<close>

lemma read_mtu_roundtrip:
  assumes "n < usize_modulus"
  shows "read_mtu ifname (Inr (dec_string n @ [CHR 0x0A])) = Ok n"
proof -
  have "\<forall>c \<in> set (dec_string n). \<not> is_space c"
    using dec_string_digits [of n] digit_char_plain(3) by fastforce
  then show ?thesis
    using from_dec_string [OF assms] by (simp add: read_mtu_def trim_line)
qed

section \<open>MAC addresses\<close>

lemma from_hex_byte: "from_str_radix 16 256 (hex_byte b) = Some (unat b)"
proof -
  have b: "unat b < 256" using unsigned_less [of b] by simp
  then have d: "unat b div 16 < 16" "unat b mod 16 < 16" by simp_all
  then have "from_str_radix 16 256 (hex_byte b) = parse_digits 16 256 (hex_byte b) 0"
    by (simp add: from_str_radix_plain hex_byte_def digit_char_plain)
  also have "\<dots> = Some (unat b)"
    using d b by (simp add: hex_byte_def to_digit_char)
  finally show ?thesis .
qed

lemma parse_mac_loop_eq:
  assumes "length out = 6" "n \<le> 6"
  shows "parse_mac_loop s parts out n =
    (if n + length parts = 6 \<and> list_all (\<lambda>p. from_str_radix 16 256 p \<noteq> None) parts
     then Inr (take n out @ map (\<lambda>p. of_nat (the (from_str_radix 16 256 p))) parts)
     else Inl (Bad_Mac s))"
  using assms
proof (induction parts arbitrary: out n)
  case Nil
  then show ?case by simp
next
  case (Cons p ps)
  show ?case
  proof (cases "n = 6")
    case True
    then show ?thesis by simp
  next
    case False
    then have "n < 6" using Cons.prems by simp
    then show ?thesis
      using Cons.IH [of "out[n := of_nat (the (from_str_radix 16 256 p))]" "Suc n"] Cons.prems
      by (auto simp: take_Suc_conv_app_nth split: option.split)
  qed
qed

lemma split_on_plain: "c \<notin> set p \<Longrightarrow> split_on c p = [p]"
  by (induction p) auto

lemma split_on_append: "c \<notin> set p \<Longrightarrow> split_on c (p @ c # rest) = p # split_on c rest"
  by (induction p) auto

fun join :: "char \<Rightarrow> string list \<Rightarrow> string" where
  "join c [] = []"
| "join c [p] = p"
| "join c (p # q # ps) = p @ c # join c (q # ps)"

lemma split_join:
  "ps \<noteq> [] \<Longrightarrow> \<forall>p \<in> set ps. c \<notin> set p \<Longrightarrow> split_on c (join c ps) = ps"
  by (induction c ps rule: join.induct) (simp_all add: split_on_plain split_on_append)

lemma set_join: "set (join c ps) \<subseteq> insert c (\<Union> (set ` set ps))"
  by (induction c ps rule: join.induct) auto

lemma parse_mac_eq:
  "parse_mac s =
     (let parts = split_on CHR '':'' s in
      if length parts = 6 \<and> list_all (\<lambda>p. from_str_radix 16 256 p \<noteq> None) parts
      then Inr (map (\<lambda>p. of_nat (the (from_str_radix 16 256 p))) parts)
      else Inl (Bad_Mac s))"
  by (simp add: parse_mac_def parse_mac_loop_eq Let_def)

text \<open>
  C28.  \<^verbatim>\<open>parse_mac\<close> accepts exactly six fields separated by colons, each a number of at most 255 in
  hexadecimal, and returns them in order; everything else is refused with the text in the message.
\<close>

theorem parse_mac_spec:
  "parse_mac s =
     (let parts = split_on CHR '':'' s in
      if length parts = 6 \<and> list_all (\<lambda>p. from_str_radix 16 256 p \<noteq> None) parts
      then Inr (map (\<lambda>p. of_nat (the (from_str_radix 16 256 p))) parts)
      else Inl (Bad_Mac s))"
  by (rule parse_mac_eq)

text \<open>
  \<^verbatim>\<open>read_mac\<close> reads what the kernel prints: six bytes as two hexadecimal digits each, with colons
  between them and a newline behind, are read as those bytes.
\<close>

lemma read_mac_roundtrip:
  assumes "length mac = 6"
  shows "read_mac (Inr (join CHR '':'' (map hex_byte mac) @ [CHR 0x0A])) = Ok mac"
proof -
  let ?ps = "map hex_byte mac"
  have d: "unat b div 16 < 36" "unat b mod 16 < 36" for b :: u8
  proof -
    have "unat b < 256" using unsigned_less [of b] by simp
    then have "unat b div 16 < 16" "unat b mod 16 < 16" by simp_all
    then show "unat b div 16 < 36" "unat b mod 16 < 36" by linarith+
  qed
  have plain: "\<forall>p \<in> set ?ps. CHR '':'' \<notin> set p \<and> (\<forall>c \<in> set p. \<not> is_space c)"
    using digit_char_plain(2,3) [OF d(1)] digit_char_plain(2,3) [OF d(2)]
    by (simp add: hex_byte_def) metis
  have "\<not> is_space CHR '':''" by (simp add: is_space_def)
  then have "\<forall>c \<in> set (join CHR '':'' ?ps). \<not> is_space c"
    using set_join [of "CHR '':''" ?ps] plain by auto
  then have trim: "trim (join CHR '':'' ?ps @ [CHR 0x0A]) = join CHR '':'' ?ps" by (rule trim_line)
  have "mac \<noteq> []" using assms by auto
  then have "split_on CHR '':'' (join CHR '':'' ?ps) = ?ps"
    using split_join [of ?ps "CHR '':''"] plain by simp
  then have "parse_mac (join CHR '':'' ?ps) = Inr mac"
    using assms by (simp add: parse_mac_eq Let_def list_all_iff from_hex_byte comp_def)
  then show ?thesis by (simp add: read_mac_def trim)
qed

end
