(* ===== verification/Unit_Tests.thy ===== *)
theory Unit_Tests
  imports Wire_Sample Parsing
begin

text \<open>
  The unit tests of \<^verbatim>\<open>src/socket.rs\<close> (\<^verbatim>\<open>mod tests\<close>), as predicates over the model: an assertion is a conjunct,
  \<^verbatim>\<open>unwrap\<close> of an error or a panic is failure.  The header library is a parameter, so a test that frames
  packets is a predicate of it, and passes with every library that obeys the laws.  The test of the
  port reservation asks the operating system which ports are taken and is not here.
\<close>

section \<open>The tests\<close>

definition TEST_FRAME_SIZE :: u32 where "TEST_FRAME_SIZE = 2048"

definition frame_size_follows_the_mtu :: "profile \<Rightarrow> bool" where
  "frame_size_follows_the_mtu p \<longleftrightarrow>
     frame_size_for p 1500 4096 = Ok 2048 \<and> frame_size_for p 1400 4096 = Ok 2048
     \<and> frame_size_for p 576 4096 = Ok 2048
     \<and> frame_size_for p 3000 4096 = Ok 4096
     \<and> (case frame_size_for p 4096 4096 of Err _ \<Rightarrow> True | _ \<Rightarrow> False)
     \<and> (case frame_size_for p 9000 4096 of Err _ \<Rightarrow> True | _ \<Rightarrow> False)
     \<and> frame_size_for p 9000 65536 = Ok 16384"

text \<open>10.0.0.1:49321 and 10.0.0.2:6667.\<close>

definition test_remote :: sock_addr where
  "test_remote = \<lparr>sa_ip = 0x0a000002, sa_port = 6667\<rparr>"

definition test_framing :: framing where
  "test_framing =
     \<lparr>f_src_mac = [0x02, 0, 0, 0, 0, 1], f_dst_mac = [0x02, 0, 0, 0, 0, 2],
      f_local = \<lparr>sa_ip = 0x0a000001, sa_port = 49321\<rparr>, f_remote = Some test_remote\<rparr>"

definition udp_frame_round_trip :: "wire \<Rightarrow> bool" where
  "udp_frame_round_trip W \<longleftrightarrow>
     (let f = test_framing;
          payload = map (of_nat \<circ> of_char) (''payload over udp'' @ [CHR 0x0D, CHR 0x0A]);
          frame = replicate (unat TEST_FRAME_SIZE) 0
      in case build W f frame payload of
           Ok (n, frame) \<Rightarrow>
             n = ETH_HDR_LEN + UDP_OVERHEAD + length payload
             \<and> slice 0 6 frame = f_dst_mac f \<and> slice 6 12 frame = f_src_mac f
             \<and> parse W (mirror f test_remote) (take n frame) = Some payload
         | _ \<Rightarrow> False)"

definition udp_frame_at_max_payload :: "wire \<Rightarrow> bool" where
  "udp_frame_at_max_payload W \<longleftrightarrow>
     (let mtu = 1500;
          f = test_framing;
          payload = replicate (mtu - UDP_OVERHEAD) 0xab;
          frame = replicate (unat TEST_FRAME_SIZE) 0
      in case build W f frame payload of
           Ok (n, frame) \<Rightarrow>
             n = ETH_HDR_LEN + mtu \<and> parse W (mirror f test_remote) (take n frame) = Some payload
         | _ \<Rightarrow> False)"

definition udp_frame_rejects_other_flows :: "wire \<Rightarrow> bool" where
  "udp_frame_rejects_other_flows W \<longleftrightarrow>
     (let f = test_framing;
          frame = replicate (unat TEST_FRAME_SIZE) 0
      in case build W f frame [0x78] of
           Ok (n, frame) \<Rightarrow>
             let peer = mirror f test_remote
             in parse W (peer\<lparr>f_remote := Some \<lparr>sa_ip = 0x0a000001, sa_port = 1234\<rparr>\<rparr>) (take n frame) = None
                \<and> parse W (peer\<lparr>f_remote := Some \<lparr>sa_ip = 0x0a000009, sa_port = 49321\<rparr>\<rparr>) (take n frame) = None
                \<and> parse W (peer\<lparr>f_remote := None\<rparr>) (take n frame) = None
         | _ \<Rightarrow> False)"

definition udp_frame_rejects_non_ipv4_ethertype :: "wire \<Rightarrow> bool" where
  "udp_frame_rejects_non_ipv4_ethertype W \<longleftrightarrow>
     (let f = test_framing;
          frame = replicate (unat TEST_FRAME_SIZE) 0
      in case build W f frame [0x78] of
           Ok (n, frame) \<Rightarrow>
             parse W (mirror f test_remote) (take n (copy_at 12 (to_be_bytes16 0x86dd) frame)) = None
         | _ \<Rightarrow> False)"

definition mac_parsing :: bool where
  "mac_parsing \<longleftrightarrow>
     parse_mac ''00:11:22:33:44:55'' = Inr [0x00, 0x11, 0x22, 0x33, 0x44, 0x55]
     \<and> isl (parse_mac ''00:11:22:33:44'')
     \<and> isl (parse_mac ''00:11:22:33:44:55:66'')
     \<and> isl (parse_mac ''zz:11:22:33:44:55'')"

definition flow_key_matches_the_bpf_struct_layout :: bool where
  "flow_key_matches_the_bpf_struct_layout \<longleftrightarrow>
     (let local = \<lparr>sa_ip = 0x0a630001, sa_port = 49160\<rparr>;
          remote = \<lparr>sa_ip = 0x0a630002, sa_port = 6667\<rparr>
      in flow_key local remote = [10, 99, 0, 2, 0x1a, 0x0b, 10, 99, 0, 1, 0xc0, 0x08]
         \<and> flow_key local remote \<noteq> flow_key remote local)"

section \<open>They pass\<close>

lemma test_framing_ok: "framing_ok test_framing" "f_remote test_framing = Some test_remote" "sa_port test_remote \<noteq> 0"
  by (simp_all add: framing_ok_def test_framing_def test_remote_def)

text \<open>What the framing tests build, in one place.\<close>

lemma test_build:
  assumes "ipv4_wire_laws W" "udp_wire_laws W" "length payload \<le> 1472"
  shows "\<exists>frame. build W test_framing (replicate 2048 0) payload = Ok (42 + length payload, frame)
    \<and> length frame = 2048 \<and> take 14 frame = [0x02, 0, 0, 0, 0, 2, 0x02, 0, 0, 0, 0, 1, 0x08, 0x00]
    \<and> (\<forall>g. parse W g (take (42 + length payload) frame) =
         (if f_remote g = Some (f_local test_framing) \<and> f_local g = test_remote then Some payload else None))"
proof -
  have len: "28 + length payload < 65536" "42 + length payload \<le> length (replicate 2048 (0 :: u8))"
    using assms(3) by simp_all
  obtain frame where frame: "build W test_framing (replicate 2048 0) payload = Ok (42 + length payload, frame)"
    "length frame = 2048"
    "\<forall>g. parse W g (take (42 + length payload) frame) =
         (if f_remote g = Some (f_local test_framing) \<and> f_local g = test_remote then Some payload else None)"
    using build_parse_frame [OF assms(1,2) test_framing_ok, of payload "replicate 2048 0"] len
    by (auto simp: header_len_defs)
  moreover have "take 14 frame = [0x02, 0, 0, 0, 0, 2, 0x02, 0, 0, 0, 0, 1, 0x08, 0x00]"
    using build_shape [OF assms(1,2) test_framing_ok(1,2) len] frame(1) by (auto simp: test_framing_def)
  ultimately show ?thesis by blast
qed

lemma frame_size_test: "frame_size_follows_the_mtu p"
  by (simp add: frame_size_follows_the_mtu_def frame_size_for_def add_usize_def ETH_HDR_LEN_def MIN_CHUNK_SIZE_def
      next_power_of_two_def pow2_above.simps)

lemma mac_test: "mac_parsing"
  by (simp add: mac_parsing_def parse_mac_eq from_str_radix_def to_digit_def Let_def)

lemma flow_key_test: "flow_key_matches_the_bpf_struct_layout"
  by (simp add: flow_key_matches_the_bpf_struct_layout_def flow_key_inj)
     (simp add: flow_key_eq to_be_bytes32_def to_be_bytes16_def drop_bit_eq_div)


lemma round_trip_test:
  assumes "ipv4_wire_laws W" "udp_wire_laws W"
  shows "udp_frame_round_trip W"
proof -
  let ?p = "map (of_nat \<circ> of_char) (''payload over udp'' @ [CHR 0x0D, CHR 0x0A]) :: bytes"
  obtain frame where f: "build W test_framing (replicate 2048 0) ?p = Ok (42 + length ?p, frame)"
    "take 14 frame = [0x02, 0, 0, 0, 0, 2, 0x02, 0, 0, 0, 0, 1, 0x08, 0x00]"
    "parse W (mirror test_framing test_remote) (take (42 + length ?p) frame) = Some ?p"
    using test_build [OF assms, of ?p] by (auto simp: mirror_def)
  have "slice 0 6 frame = take 6 (take 14 frame)" "slice 6 12 frame = drop 6 (take 12 (take 14 frame))"
    by (simp_all add: slice_def drop_take)
  then have "slice 0 6 frame = f_dst_mac test_framing" "slice 6 12 frame = f_src_mac test_framing"
    unfolding f(2) by (simp_all add: test_framing_def)
  then show ?thesis
    using f(1,3) unfolding udp_frame_round_trip_def Let_def TEST_FRAME_SIZE_def by (simp add: header_len_defs)
qed

lemma max_payload_test:
  assumes "ipv4_wire_laws W" "udp_wire_laws W"
  shows "udp_frame_at_max_payload W"
proof -
  let ?p = "replicate 1472 0xab :: bytes"
  obtain frame where "build W test_framing (replicate 2048 0) ?p = Ok (1514, frame)"
    "parse W (mirror test_framing test_remote) (take 1514 frame) = Some ?p"
    using test_build [OF assms, of ?p] by (auto simp: mirror_def)
  then show ?thesis
    unfolding udp_frame_at_max_payload_def Let_def TEST_FRAME_SIZE_def by (simp add: header_len_defs)
qed

lemma rejects_tests:
  assumes "ipv4_wire_laws W" "udp_wire_laws W"
  shows "udp_frame_rejects_other_flows W" "udp_frame_rejects_non_ipv4_ethertype W"
proof -
  obtain frame where f: "build W test_framing (replicate 2048 0) [0x78] = Ok (43, frame)" "length frame = 2048"
    "\<forall>g. parse W g (take 43 frame) =
         (if f_remote g = Some (f_local test_framing) \<and> f_local g = test_remote then Some [0x78] else None)"
    using test_build [OF assms, of "[0x78]"] by auto
  show "udp_frame_rejects_other_flows W"
    using f(1,3) unfolding udp_frame_rejects_other_flows_def Let_def TEST_FRAME_SIZE_def
    by (simp add: mirror_def test_framing_def)
  have "slice 12 14 (take 43 (copy_at 12 (to_be_bytes16 0x86dd) frame)) = [0x86, 0xdd]"
    using f(2) by (simp add: slice_def copy_at_def to_be_bytes16_def drop_bit_eq_div)
  then have "parse W g (take 43 (copy_at 12 (to_be_bytes16 0x86dd) frame)) = None" for g
    by (simp add: parse_def split: option.split)
  then show "udp_frame_rejects_non_ipv4_ethertype W"
    using f(1) unfolding udp_frame_rejects_non_ipv4_ethertype_def Let_def TEST_FRAME_SIZE_def by simp
qed

text \<open>
  The unit tests of the source pass on the model, in both build profiles and with every header library that
  obeys the laws: the frame sizes, the round trip of a datagram, the largest datagram, the frames
  of other flows and of other ethertypes, the MAC addresses, and the layout of the flow key.
\<close>

lemma unit_tests_pass:
  assumes "ipv4_wire_laws W" and "udp_wire_laws W"
  shows "frame_size_follows_the_mtu p \<and> udp_frame_round_trip W \<and> udp_frame_at_max_payload W
    \<and> udp_frame_rejects_other_flows W \<and> udp_frame_rejects_non_ipv4_ethertype W
    \<and> mac_parsing \<and> flow_key_matches_the_bpf_struct_layout"
  using frame_size_test round_trip_test [OF assms] max_payload_test [OF assms] rejects_tests [OF assms]
    mac_test flow_key_test by blast

end
