(* ===== verification/Bench_Args.thy ===== *)
theory Bench_Args
  imports Socket Parsing
begin

text \<open>
  The command line of the benchmark tool (\<^verbatim>\<open>parse_args\<close>, \<^verbatim>\<open>arg\<close>, \<^verbatim>\<open>parse\<close> and the head of \<^verbatim>\<open>main\<close> in
  \<^verbatim>\<open>src/bin/bench.rs\<close>).  A map of strings is read into typed options; every refusal is a value.  The
  lemmas characterise which argument vectors, addresses and options are accepted.
\<close>

section \<open>The command line\<close>

text \<open>An \<^verbatim>\<open>anyhow\<close> error: the message with what is interpolated into it, or a context around a cause.\<close>

datatype bench_error =
    Unexpected_Argument string
  | Usage_Requested
  | Missing_Value string
  | Missing_Argument string
  | Bad_Value string string
  | Bad_Peer_Mac error_msg
  | Unknown_Protocol string
  | Unknown_Xdp_Mode string
  | Zero_Count_Or_Size
  | Unknown_Stack string
  | Handshake_Timed_Out
  | Context string io_error

definition strip_prefix :: "string \<Rightarrow> string \<Rightarrow> string option" where
  "strip_prefix p s = (if take (length p) s = p then Some (drop (length p) s) else None)"

text \<open>\<^verbatim>\<open>parse_args\<close> over the arguments after the program name; a repeated flag overwrites.\<close>

fun parse_args_loop :: "string list \<Rightarrow> (string \<rightharpoonup> string) \<Rightarrow> bench_error + (string \<rightharpoonup> string)" where
  "parse_args_loop [] m = Inr m"
| "parse_args_loop (flag # rest) m =
     (case strip_prefix ''--'' flag of
        None \<Rightarrow> Inl (Unexpected_Argument flag)
      | Some key \<Rightarrow>
          if key = ''help'' then Inl Usage_Requested
          else case rest of
            [] \<Rightarrow> Inl (Missing_Value key)
          | val # rest' \<Rightarrow> parse_args_loop rest' (m(key \<mapsto> val)))"

definition parse_args :: "string list \<Rightarrow> bench_error + (string \<rightharpoonup> string)" where
  "parse_args args = parse_args_loop args Map.empty"

definition arg :: "(string \<rightharpoonup> string) \<Rightarrow> string \<Rightarrow> bench_error + string" where
  "arg m key = (case m key of None \<Rightarrow> Inl (Missing_Argument key) | Some v \<Rightarrow> Inr v)"

primrec bind_sum :: "'e + 'a \<Rightarrow> ('a \<Rightarrow> 'e + 'b) \<Rightarrow> 'e + 'b" where
  "bind_sum (Inl e) f = Inl e"
| "bind_sum (Inr x) f = f x"

definition parse_with :: "(string \<Rightarrow> 'a option) \<Rightarrow> (string \<rightharpoonup> string) \<Rightarrow> string \<Rightarrow> bench_error + 'a" where
  "parse_with f m key =
     bind_sum (arg m key) (\<lambda>raw. case f raw of None \<Rightarrow> Inl (Bad_Value key raw) | Some v \<Rightarrow> Inr v)"

definition parse_uint :: "nat \<Rightarrow> string \<Rightarrow> nat option" where
  "parse_uint bits s = from_str_radix 10 (2 ^ bits) s"

text \<open>
  \<^verbatim>\<open>Ipv4Addr::from_str\<close>: four decimal octets of one to three digits, without sign or leading zero.
\<close>

definition parse_octet :: "string \<Rightarrow> nat option" where
  "parse_octet s =
     (if s = [] \<or> 3 < length s \<or> (1 < length s \<and> hd s = CHR ''0'') then None
      else parse_digits 10 256 s 0)"

definition parse_ipv4 :: "string \<Rightarrow> u32 option" where
  "parse_ipv4 s =
     (case map parse_octet (split_on CHR ''.'' s) of
        [Some a, Some b, Some c, Some d] \<Rightarrow>
          Some (from_be_bytes32 [of_nat a, of_nat b, of_nat c, of_nat d])
      | _ \<Rightarrow> None)"

record bench_options =
  bo_stack :: string
  bo_proto :: protocol
  bo_ifname :: string
  bo_local_ip :: u32
  bo_peer :: sock_addr
  bo_peer_mac :: bytes
  bo_cpu :: nat
  bo_queue :: u32
  bo_count :: u64
  bo_size :: nat
  bo_xdp_mode :: xdp_mode
  bo_mode :: string

definition parse_proto :: "string \<Rightarrow> bench_error + protocol" where
  "parse_proto s =
     (if s = ''udp'' then Inr Protocol_Udp else if s = ''tcp'' then Inr Protocol_Tcp
      else Inl (Unknown_Protocol s))"

definition parse_xdp_mode :: "string \<Rightarrow> bench_error + xdp_mode" where
  "parse_xdp_mode s =
     (if s = ''copy'' then Inr Copy else if s = ''zerocopy'' then Inr ZeroCopy
      else if s = ''auto'' then Inr Auto else Inl (Unknown_Xdp_Mode s))"

text \<open>The options \<^verbatim>\<open>main\<close> reads, in the order it reads them.\<close>

definition bench_options_of :: "(string \<rightharpoonup> string) \<Rightarrow> bench_error + bench_options" where
  "bench_options_of m =
     bind_sum (arg m ''stack'') (\<lambda>stack.
     bind_sum (arg m ''proto'') (\<lambda>proto_name.
     bind_sum (parse_proto proto_name) (\<lambda>proto.
     bind_sum (arg m ''if'') (\<lambda>ifname.
     bind_sum (parse_with parse_ipv4 m ''local-ip'') (\<lambda>local_ip.
     bind_sum (parse_with parse_ipv4 m ''peer-ip'') (\<lambda>peer_ip.
     bind_sum (parse_with (parse_uint 16) m ''port'') (\<lambda>port.
     bind_sum (bind_sum (arg m ''peer-mac'')
                 (\<lambda>s. case parse_mac s of Inl e \<Rightarrow> Inl (Bad_Peer_Mac e) | Inr mac \<Rightarrow> Inr mac)) (\<lambda>peer_mac.
     bind_sum (parse_with (parse_uint 64) m ''cpu'') (\<lambda>cpu.
     bind_sum (parse_with (parse_uint 32) m ''queue'') (\<lambda>queue.
     bind_sum (parse_with (parse_uint 64) m ''count'') (\<lambda>count.
     bind_sum (parse_with (parse_uint 64) m ''size'') (\<lambda>sz.
     bind_sum (parse_xdp_mode (case m ''xdp-mode'' of None \<Rightarrow> ''auto'' | Some s \<Rightarrow> s)) (\<lambda>xdp_mode.
       if count = 0 \<or> sz = 0 then Inl Zero_Count_Or_Size
       else Inr \<lparr>bo_stack = stack, bo_proto = proto, bo_ifname = ifname, bo_local_ip = local_ip,
                 bo_peer = \<lparr>sa_ip = peer_ip, sa_port = of_nat port\<rparr>, bo_peer_mac = peer_mac,
                 bo_cpu = cpu, bo_queue = of_nat queue, bo_count = of_nat count, bo_size = sz,
                 bo_xdp_mode = xdp_mode,
                 bo_mode = (case m ''mode'' of None \<Rightarrow> ''consume'' | Some s \<Rightarrow> s)\<rparr>)))))))))))))"

section \<open>Which argument vectors are read\<close>

definition flags :: "(string \<times> string) list \<Rightarrow> string list" where
  "flags kvs = concat (map (\<lambda>(k, v). [''--'' @ k, v]) kvs)"

lemma flags_simps [simp]:
  "flags [] = []" "flags ((k, v) # kvs) = (''--'' @ k) # v # flags kvs"
  "[] = flags kvs \<longleftrightarrow> kvs = []"
  by (auto simp: flags_def) (cases kvs; auto)

lemma flags_ConsE:
  assumes "a # as = flags kvs"
  obtains k v kvs' where "kvs = (k, v) # kvs'" "a = ''--'' @ k" "as = v # flags kvs'"
  using assms by (cases kvs) auto

lemma strip_prefix_append [simp]: "strip_prefix p (p @ s) = Some s"
  by (simp add: strip_prefix_def)

lemma strip_prefix_Some: "strip_prefix p s = Some k \<longleftrightarrow> s = p @ k"
  by (auto simp: strip_prefix_def split: if_splits) (metis append_take_drop_id)

lemma parse_args_loop_eq:
  "parse_args_loop args m = Inr m' \<longleftrightarrow>
     (\<exists>kvs. args = flags kvs \<and> ''help'' \<notin> fst ` set kvs \<and> m' = m ++ map_of (rev kvs))"
proof (induction args m rule: parse_args_loop.induct)
  case (1 m)
  then show ?case by auto
next
  case (2 flag rest m)
  show ?case
  proof (cases "strip_prefix ''--'' flag")
    case None
    then have "flag \<noteq> ''--'' @ k" for k by (auto simp: strip_prefix_def split: if_splits)
    then have "flag # rest \<noteq> flags kvs" for kvs by (blast elim: flags_ConsE)
    then show ?thesis using None by simp
  next
    case (Some key)
    then have flag: "flag = ''--'' @ key" by (simp add: strip_prefix_Some)
    show ?thesis
    proof (cases "key = ''help'' \<or> rest = []")
      case True
      then show ?thesis
        using Some flag by (auto elim!: flags_ConsE)
    next
      case False
      then obtain val rest' where rest: "rest = val # rest'" by (cases rest) auto
      have split: "flag # rest = flags kvs \<longleftrightarrow> (\<exists>kvs'. kvs = (key, val) # kvs' \<and> rest' = flags kvs')" for kvs
        by (cases kvs) (auto simp: flag rest)
      have later: "m ++ map_of (rev ((key, val) # kvs)) = m(key \<mapsto> val) ++ map_of (rev kvs)" for kvs
        by simp
      have "parse_args_loop (flag # rest) m = parse_args_loop rest' (m(key \<mapsto> val))"
        using False Some rest by simp
      then have "parse_args_loop (flag # rest) m = Inr m' \<longleftrightarrow>
          (\<exists>kvs'. rest' = flags kvs' \<and> ''help'' \<notin> fst ` set kvs' \<and> m' = m(key \<mapsto> val) ++ map_of (rev kvs'))"
        using 2 [OF Some _ rest] False by (simp add: fun_upd_def)
      then show ?thesis unfolding split using False later by fastforce
    qed
  qed
qed

text \<open>
  C38.  \<^verbatim>\<open>parse_args\<close> reads exactly the argument vectors that are a sequence of \<^verbatim>\<open>--key value\<close> pairs without
  the key \<^verbatim>\<open>help\<close>, whatever the values look like, and of a repeated key the last value counts.
\<close>

theorem parse_args_spec:
  "parse_args args = Inr m \<longleftrightarrow>
     (\<exists>kvs. args = flags kvs \<and> ''help'' \<notin> fst ` set kvs \<and> m = map_of (rev kvs))"
  by (simp add: parse_args_def parse_args_loop_eq)

section \<open>Which addresses are read\<close>

lemma to_digit_10_char:
  assumes "to_digit 10 c = Some d"
  shows "c = digit_char d" "d < 10"
proof -
  have d: "48 \<le> (of_char c :: nat)" "(of_char c :: nat) \<le> 57" "d = of_char c - 48"
    using assms by (auto simp: to_digit_def Let_def split: if_splits)
  then show "d < 10" by simp
  with d have "digit_char d = char_of (of_char c :: nat)" by (simp add: digit_char_def)
  then show "c = digit_char d" by simp
qed

lemma digit_char_zero: "d < 10 \<Longrightarrow> digit_char d = CHR ''0'' \<longleftrightarrow> d = 0"
proof
  assume "d < 10" "digit_char d = CHR ''0''"
  then have "of_char CHR ''0'' = 48 + d" using of_digit_char [of d] by simp
  then show "d = 0" by simp
next
  assume "d = 0"
  have "char_of (of_char CHR ''0'' :: nat) = CHR ''0''" by (rule char_of_char)
  then show "digit_char d = CHR ''0''" using \<open>d = 0\<close> by (simp add: digit_char_def del: char_of_char)
qed

text \<open>The digits of a number without a leading zero are the ones it is printed with.\<close>

lemma dec_string_unique:
  assumes "s \<noteq> []" "map (to_digit 10) s = map Some ds" "1 < length s \<Longrightarrow> hd s \<noteq> CHR ''0''"
  shows "s = dec_string (digits_value 10 ds 0)"
  using assms
proof (induction s arbitrary: ds rule: rev_induct)
  case Nil
  then show ?case by simp
next
  case (snoc c s)
  obtain ds' d where ds: "ds = ds' @ [d]" "map (to_digit 10) s = map Some ds'" "to_digit 10 c = Some d"
    using snoc.prems(2) by (cases ds rule: rev_cases) auto
  note c = to_digit_10_char [OF ds(3)]
  show ?case
  proof (cases "s = []")
    case True
    then show ?thesis using ds c by (simp add: digits_value_def dec_string.simps [of d])
  next
    case False
    have hd: "hd s \<noteq> CHR ''0''" using snoc.prems(3) False by (cases s) auto
    have s: "s = dec_string (digits_value 10 ds' 0)"
      using snoc.IH [OF False ds(2)] hd by blast
    have "digits_value 10 ds' 0 \<noteq> 0"
    proof
      assume "digits_value 10 ds' 0 = 0"
      then have "s = [digit_char 0]" using s by (simp add: dec_string.simps)
      then show False using hd digit_char_zero [of 0] by simp
    qed
    then show ?thesis
      using s ds(1) c by (simp add: digits_value_snoc dec_string.simps [of "digits_value 10 ds' 0 * 10 + d"])
  qed
qed

lemma length_dec_string: "n < 10 ^ Suc k \<Longrightarrow> length (dec_string n) \<le> Suc k"
proof (induction k arbitrary: n)
  case 0
  then show ?case by (simp add: dec_string.simps)
next
  case (Suc k)
  then have "n div 10 < 10 ^ Suc k" by (simp add: less_mult_imp_div_less)
  then show ?case using Suc.IH [of "n div 10"] by (simp add: dec_string.simps [of n])
qed

lemma dec_string_hd: "1 < length (dec_string n) \<Longrightarrow> hd (dec_string n) \<noteq> CHR ''0''"
proof (induction n rule: dec_string.induct)
  case (1 n)
  then have n: "\<not> n < 10" by (auto simp: dec_string.simps [of n] split: if_splits)
  show ?case
  proof (cases "n div 10 < 10")
    case True
    have "digit_char (n div 10) \<noteq> CHR ''0''" using digit_char_zero [OF True] n by simp
    then show ?thesis using n True by (simp add: dec_string.simps [of n] dec_string.simps [of "n div 10"])
  next
    case False
    then have "1 < length (dec_string (n div 10))" "dec_string (n div 10) \<noteq> []"
      by (simp_all add: dec_string.simps [of "n div 10"] dec_string.simps [of "n div 10 div 10"])
    then show ?thesis using 1 n by (simp add: dec_string.simps [of n])
  qed
qed

lemma parse_octet_eq: "parse_octet s = Some n \<longleftrightarrow> n < 256 \<and> s = dec_string n"
proof
  assume p: "parse_octet s = Some n"
  then have "s \<noteq> []" "1 < length s \<Longrightarrow> hd s \<noteq> CHR ''0''" "parse_digits 10 256 s 0 = Some n"
    by (auto simp: parse_octet_def split: if_splits)
  then show "n < 256 \<and> s = dec_string n"
    using dec_string_unique [of s] by (auto simp: parse_digits_eq)
next
  assume n: "n < 256 \<and> s = dec_string n"
  then have "length s \<le> 3" using length_dec_string [of n 2] by (simp add: numeral_3_eq_3)
  moreover have "parse_digits 10 256 (dec_string n) 0 = Some n" "dec_string n \<noteq> []"
    using dec_string_digits [of n] n by (auto simp: parse_digits_eq)
  ultimately show "parse_octet s = Some n"
    using n dec_string_hd [of n] by (auto simp: parse_octet_def)
qed

lemma split_on_nonempty: "split_on c s \<noteq> []"
  by (induction s) (auto split: list.split)

lemma join_split_on: "join c (split_on c s) = s"
proof (induction s)
  case (Cons x xs)
  obtain p ps where "split_on c xs = p # ps" using split_on_nonempty by (cases "split_on c xs") auto
  then show ?case using Cons by (cases ps) simp_all
qed simp

definition show_ipv4 :: "u32 \<Rightarrow> string" where
  "show_ipv4 ip = join CHR ''.'' (map (\<lambda>b. dec_string (unat b)) (to_be_bytes32 ip))"

lemma dec_string_no_dot: "CHR ''.'' \<notin> set (dec_string n)"
proof -
  obtain ds where ds: "dec_string n = map digit_char ds" "\<forall>d \<in> set ds. d < 10"
    using dec_string_digits [of n] by blast
  have "digit_char d \<noteq> CHR ''.''" if "d < 10" for d using digit_char_plain(4) [of d] that by simp
  with ds(2) show ?thesis unfolding ds(1) set_map by (metis imageE)
qed

lemma show_ipv4_octets: "split_on CHR ''.'' (show_ipv4 ip) = map (\<lambda>b. dec_string (unat b)) (to_be_bytes32 ip)"
  unfolding show_ipv4_def by (rule split_join) (auto simp: to_be_bytes32_def dec_string_no_dot)

lemma of_nat_octet: "n < 256 \<Longrightarrow> unat (of_nat n :: u8) = n"
  by (simp add: unat_of_nat)

lemma parse_octets_eq:
  "map parse_octet ps = map Some ns \<longleftrightarrow> (\<forall>n \<in> set ns. n < 256) \<and> ps = map dec_string ns"
  by (induction ps arbitrary: ns) (auto simp: Cons_eq_map_conv parse_octet_eq)

lemma parse_ipv4_eq:
  "parse_ipv4 s = Some ip \<longleftrightarrow>
     (\<exists>ns. length ns = 4 \<and> map parse_octet (split_on CHR ''.'' s) = map Some ns
        \<and> ip = from_be_bytes32 (map of_nat ns))" (is "?l \<longleftrightarrow> ?r")
proof
  assume ?l
  then obtain a b c d where "map parse_octet (split_on CHR ''.'' s) = [Some a, Some b, Some c, Some d]"
    "ip = from_be_bytes32 [of_nat a, of_nat b, of_nat c, of_nat d]"
    by (auto simp: parse_ipv4_def split: list.splits option.splits)
  then show ?r by (intro exI [of _ "[a, b, c, d]"]) simp
next
  assume ?r
  then show ?l by (auto simp: parse_ipv4_def elim!: length_4E)
qed

text \<open>
  An address is read exactly if it is written the way it is printed: four decimal octets without
  leading zeros or signs, joined by dots, read in network byte order.
\<close>

lemma parse_ipv4_iff: "parse_ipv4 s = Some ip \<longleftrightarrow> s = show_ipv4 ip"
proof
  assume "parse_ipv4 s = Some ip"
  then obtain ns where ns: "length ns = 4" "\<forall>n \<in> set ns. n < 256" "split_on CHR ''.'' s = map dec_string ns"
    "ip = from_be_bytes32 (map of_nat ns)"
    by (auto simp: parse_ipv4_eq parse_octets_eq)
  have "to_be_bytes32 ip = map of_nat ns" using ns(1,4) by (simp add: be32.enc_dec)
  moreover have "map (\<lambda>n. dec_string (unat (of_nat n :: u8))) ns = map dec_string ns"
    using ns(2) by (simp add: of_nat_octet)
  ultimately have "show_ipv4 ip = join CHR ''.'' (split_on CHR ''.'' s)"
    using ns(3) by (simp add: show_ipv4_def comp_def del: map_eq_conv)
  then show "s = show_ipv4 ip" by (simp add: join_split_on)
next
  assume s: "s = show_ipv4 ip"
  let ?ns = "map unat (to_be_bytes32 ip)"
  have "unat b < 256" for b :: u8 using unsigned_less [of b] by simp
  then have "\<forall>n \<in> set ?ns. n < 256" by auto
  then have "map parse_octet (split_on CHR ''.'' s) = map Some ?ns"
    by (simp add: s show_ipv4_octets parse_octet_eq)
  moreover have "length ?ns = 4" by (simp add: to_be_bytes32_def)
  moreover have "from_be_bytes32 (map of_nat ?ns) = ip" by (simp add: comp_def be32.dec_enc)
  ultimately show "parse_ipv4 s = Some ip" unfolding parse_ipv4_eq by metis
qed

section \<open>Which options are accepted\<close>

lemma bind_sum_Inr: "bind_sum r f = Inr y \<longleftrightarrow> (\<exists>x. r = Inr x \<and> f x = Inr y)"
  by (cases r) auto

lemma arg_Inr: "arg m key = Inr v \<longleftrightarrow> m key = Some v"
  by (simp add: arg_def split: option.split)

lemma parse_with_Inr: "parse_with f m key = Inr v \<longleftrightarrow> Option.bind (m key) f = Some v"
  by (cases "m key") (auto simp: parse_with_def arg_def split: option.split)

lemma parse_uint_bound: "parse_uint bits s = Some n \<Longrightarrow> n < 2 ^ bits"
  by (auto simp: parse_uint_def from_str_radix_def Let_def parse_digits_eq split: list.splits if_splits)

lemma parse_uint_word:
  assumes "Option.bind r (parse_uint LENGTH('a::len)) = Some n"
  shows "unat (of_nat n :: 'a word) = n"
  using assms parse_uint_bound [of "LENGTH('a)"]
  by (cases r) (auto simp: unat_of_nat)

definition protocol_name :: "protocol \<Rightarrow> string" where
  "protocol_name p = (case p of Protocol_Udp \<Rightarrow> ''udp'' | Protocol_Tcp \<Rightarrow> ''tcp'')"

definition xdp_mode_name :: "xdp_mode \<Rightarrow> string" where
  "xdp_mode_name x = (case x of Copy \<Rightarrow> ''copy'' | ZeroCopy \<Rightarrow> ''zerocopy'' | Auto \<Rightarrow> ''auto'')"

lemma protocol_name_inject [simp]: "protocol_name p = protocol_name q \<longleftrightarrow> p = q"
  by (cases p; cases q) (simp_all add: protocol_name_def)

lemma parse_proto_Inr: "parse_proto s = Inr p \<longleftrightarrow> s = protocol_name p"
  by (cases p) (auto simp: parse_proto_def protocol_name_def)

lemma parse_xdp_mode_Inr: "parse_xdp_mode s = Inr x \<longleftrightarrow> s = xdp_mode_name x"
  by (cases x) (auto simp: parse_xdp_mode_def xdp_mode_name_def)

lemma map_Inl_Inr: "(case r of Inl e \<Rightarrow> Inl (g e) | Inr x \<Rightarrow> Inr x) = Inr y \<longleftrightarrow> r = Inr y"
  by (cases r) auto

lemma bind_parse_ipv4: "Option.bind r parse_ipv4 = Some ip \<longleftrightarrow> r = Some (show_ipv4 ip)"
  by (cases r) (auto simp: parse_ipv4_iff)

lemmas option_reads =
  bind_sum_Inr arg_Inr parse_with_Inr parse_proto_Inr parse_xdp_mode_Inr map_Inl_Inr bind_parse_ipv4

text \<open>
  C27.  \<^verbatim>\<open>main\<close> accepts exactly the option maps in which every required flag is present and reads as its
  type, including the interface, the peer's MAC and the queue, which the kernel stack has no use for;
  the options are then what the flags say, no number having been cut to its width, and the count and
  the size are not zero.
\<close>

theorem bench_options_spec:
  "bench_options_of m = Inr b \<longleftrightarrow>
     m ''stack'' = Some (bo_stack b) \<and> m ''proto'' = Some (protocol_name (bo_proto b))
     \<and> m ''if'' = Some (bo_ifname b)
     \<and> m ''local-ip'' = Some (show_ipv4 (bo_local_ip b))
     \<and> m ''peer-ip'' = Some (show_ipv4 (sa_ip (bo_peer b)))
     \<and> Option.bind (m ''port'') (parse_uint 16) = Some (unat (sa_port (bo_peer b)))
     \<and> (\<exists>s. m ''peer-mac'' = Some s \<and> parse_mac s = Inr (bo_peer_mac b))
     \<and> Option.bind (m ''cpu'') (parse_uint 64) = Some (bo_cpu b)
     \<and> Option.bind (m ''queue'') (parse_uint 32) = Some (unat (bo_queue b))
     \<and> Option.bind (m ''count'') (parse_uint 64) = Some (unat (bo_count b)) \<and> bo_count b \<noteq> 0
     \<and> Option.bind (m ''size'') (parse_uint 64) = Some (bo_size b) \<and> bo_size b \<noteq> 0
     \<and> xdp_mode_name (bo_xdp_mode b) = (case m ''xdp-mode'' of None \<Rightarrow> ''auto'' | Some s \<Rightarrow> s)
     \<and> bo_mode b = (case m ''mode'' of None \<Rightarrow> ''consume'' | Some s \<Rightarrow> s)"
  (is "?l \<longleftrightarrow> ?r")
proof
  assume ?l
  then obtain port queue cnt where
    port: "Option.bind (m ''port'') (parse_uint LENGTH(16)) = Some port"
    and queue: "Option.bind (m ''queue'') (parse_uint LENGTH(32)) = Some queue"
    and cnt: "Option.bind (m ''count'') (parse_uint LENGTH(64)) = Some cnt" "cnt \<noteq> 0"
    and b: "sa_port (bo_peer b) = of_nat port" "bo_queue b = of_nat queue" "bo_count b = of_nat cnt"
    by (auto simp: bench_options_of_def option_reads split: if_splits)
  note words = parse_uint_word [OF port] parse_uint_word [OF queue] parse_uint_word [OF cnt(1)]
  then have nz: "(of_nat cnt :: u64) \<noteq> 0" using cnt(2) by fastforce
  show ?r
    using \<open>?l\<close> port queue cnt b words nz
    by (auto simp: bench_options_of_def option_reads split: if_splits)
next
  assume r: ?r
  then have "unat (bo_count b) \<noteq> 0" by (simp add: unat_eq_0)
  with r show ?l
    by (cases b; cases "bo_peer b") (auto simp: bench_options_of_def option_reads parse_ipv4_iff)
qed

end
