(* ===== verification/Bench.thy ===== *)
theory Bench
  imports Bench_Args
begin

text \<open>
  The benchmark tool (\<^verbatim>\<open>src/bin/bench.rs\<close>): the four kinds of socket behind one interface, the setup of
  either stack, the handshake loop, \<^verbatim>\<open>send_all\<close>, the consume loop with its idle cutoff, and what is
  counted for the report; \<open>Bench_Report\<close> has what is computed from the counts and printed.

  The kernel's own sockets are parameters.  What happens while the tool runs is indexed by a tick that
  every call on a socket advances: \<open>be_kernel E i\<close> is what the kernel did to the rings before call \<open>i\<close>, and
  \<open>be_clock E i\<close> what the clock says there.  A loop that may not end takes fuel, and \<^const>\<open>None\<close> means that
  it is still running.
\<close>

section \<open>Either transport on either stack\<close>

record 'k kernel_net =
  kn_bind :: "sock_addr \<Rightarrow> io_error + 'k"
  kn_connect :: "sock_addr \<Rightarrow> 'k \<Rightarrow> (io_error + unit) \<times> 'k"
  kn_tcp_connect :: "sock_addr \<Rightarrow> io_error + 'k"
  kn_set_nodelay :: "'k \<Rightarrow> (io_error + unit) \<times> 'k"
  kn_setsockopt :: "int \<Rightarrow> int \<Rightarrow> int \<Rightarrow> 'k \<Rightarrow> int option \<times> 'k"
  kn_set_read_timeout :: "int \<Rightarrow> 'k \<Rightarrow> (io_error + unit) \<times> 'k"
  kn_send :: "bytes \<Rightarrow> 'k \<Rightarrow> (io_error + nat) \<times> 'k"
  kn_write_all :: "bytes \<Rightarrow> 'k \<Rightarrow> (io_error + unit) \<times> 'k"
  kn_recv :: "nat \<Rightarrow> 'k \<Rightarrow> (io_error + bytes) \<times> 'k"
  kn_read :: "nat \<Rightarrow> 'k \<Rightarrow> (io_error + bytes) \<times> 'k"

record ('k, 'i, 't) bench_env =
  be_profile :: profile
  be_wire :: wire
  be_stack :: "('i, 't) smoltcp"
  be_net :: "'k kernel_net"
  be_kernel :: "nat \<Rightarrow> ('i, 't) sock \<Rightarrow> ('i, 't) sock"
  be_clock :: "nat \<Rightarrow> int"

datatype ('k, 'i, 't) bench_sock = Sock_Udp 'k | Sock_Tcp 'k | Sock_Xskip "('i, 't) sock"

text \<open>\<^verbatim>\<open>Sock::send_all\<close>: what it returns, the tick, and the socket.\<close>

fun send_all_loop ::
  "nat \<Rightarrow> ('k, 'i, 't) bench_env \<Rightarrow> bytes \<Rightarrow> nat \<Rightarrow> nat \<Rightarrow> ('i, 't) sock \<Rightarrow>
     (unit outcome \<times> nat \<times> ('i, 't) sock) option"
where
  "send_all_loop 0 E buf off i sk = None"
| "send_all_loop (Suc fuel) E buf off i sk =
     (if off < length buf then
        (case socket_send (be_wire E) (be_stack E) (be_clock E i) (drop off buf) (be_kernel E i sk) of
           (Ok n, sk') \<Rightarrow> send_all_loop fuel E buf (off + n) (Suc i) sk'
         | (Err e, sk') \<Rightarrow> Some (Err e, Suc i, sk')
         | (Panic q, sk') \<Rightarrow> Some (Panic q, Suc i, sk'))
      else Some (Ok (), i, sk))"

definition io_result :: "io_error + 'a \<Rightarrow> 'a outcome" where
  "io_result r = (case r of Inl e \<Rightarrow> Err e | Inr x \<Rightarrow> Ok x)"

definition bench_send_all ::
  "nat \<Rightarrow> ('k, 'i, 't) bench_env \<Rightarrow> bytes \<Rightarrow> nat \<Rightarrow> ('k, 'i, 't) bench_sock \<Rightarrow>
     (unit outcome \<times> nat \<times> ('k, 'i, 't) bench_sock) option"
where
  "bench_send_all fuel E buf i s =
     (case s of
        Sock_Udp k \<Rightarrow>
          (case kn_send (be_net E) buf k of
             (r, k') \<Rightarrow> Some (bind_outcome (io_result r) (\<lambda>_. Ok ()), Suc i, Sock_Udp k'))
      | Sock_Tcp k \<Rightarrow>
          (case kn_write_all (be_net E) buf k of (r, k') \<Rightarrow> Some (io_result r, Suc i, Sock_Tcp k'))
      | Sock_Xskip sk \<Rightarrow>
          (case send_all_loop fuel E buf 0 i sk of
             None \<Rightarrow> None | Some (r, j, sk') \<Rightarrow> Some (r, j, Sock_Xskip sk')))"

text \<open>\<^verbatim>\<open>ErrorKind\<close> of what a kernel socket answers: \<^verbatim>\<open>EAGAIN\<close> and \<^verbatim>\<open>ETIMEDOUT\<close> by their numbers.\<close>

definition error_kind_of :: "io_error \<Rightarrow> error_kind" where
  "error_kind_of e =
     (case e of
        Custom k _ \<Rightarrow> k
      | Os_Error n \<Rightarrow> if n = 11 then WouldBlock else if n = 110 then TimedOut else Other)"

definition kernel_recv :: "io_error + bytes \<Rightarrow> bytes \<Rightarrow> nat option outcome \<times> bytes" where
  "kernel_recv r buf =
     (case r of
        Inr bs \<Rightarrow> (Ok (Some (length bs)), copy_at 0 bs buf)
      | Inl e \<Rightarrow>
          (if error_kind_of e = TimedOut \<or> error_kind_of e = WouldBlock then Ok None else Err e, buf))"

definition bench_recv ::
  "('k, 'i, 't) bench_env \<Rightarrow> bytes \<Rightarrow> nat \<Rightarrow> ('k, 'i, 't) bench_sock \<Rightarrow>
     nat option outcome \<times> bytes \<times> ('k, 'i, 't) bench_sock"
where
  "bench_recv E buf i s =
     (case s of
        Sock_Udp k \<Rightarrow>
          (case kn_recv (be_net E) (length buf) k of
             (r, k') \<Rightarrow> (case kernel_recv r buf of (r, buf) \<Rightarrow> (r, buf, Sock_Udp k')))
      | Sock_Tcp k \<Rightarrow>
          (case kn_read (be_net E) (length buf) k of
             (r, k') \<Rightarrow> (case kernel_recv r buf of (r, buf) \<Rightarrow> (r, buf, Sock_Tcp k')))
      | Sock_Xskip sk \<Rightarrow>
          (case socket_recv (be_profile E) (be_wire E) (be_stack E) (be_clock E i) buf (be_kernel E i sk) of
             (r, buf, sk') \<Rightarrow> (r, buf, Sock_Xskip sk')))"

section \<open>Setting up\<close>

datatype bench_stop = Bailed bench_error | Unwound panic

definition stop_context :: "string \<Rightarrow> 'a outcome \<Rightarrow> bench_stop + 'a" where
  "stop_context ctx r =
     (case r of Ok x \<Rightarrow> Inr x | Err e \<Rightarrow> Inl (Bailed (Context ctx e)) | Panic q \<Rightarrow> Inl (Unwound q))"

definition RCVBUF :: int where "RCVBUF = 16777216"

text \<open>An interval of the clock in nanoseconds, as everywhere here.\<close>

definition IDLE :: int where "IDLE = 500000000"
definition CONNECT_TIMEOUT :: int where "CONNECT_TIMEOUT = 10000000000"

text \<open>\<^verbatim>\<open>set_rcvbuf\<close>: the answer of \<^verbatim>\<open>setsockopt\<close> is ignored.\<close>

definition SOL_SOCKET :: int where "SOL_SOCKET = 1"
definition SO_RCVBUF :: int where "SO_RCVBUF = 8"

definition set_rcvbuf :: "'k kernel_net \<Rightarrow> 'k \<Rightarrow> 'k" where
  "set_rcvbuf N s = snd (kn_setsockopt N SOL_SOCKET SO_RCVBUF RCVBUF s)"

definition kernel_setup ::
  "'k kernel_net \<Rightarrow> protocol \<Rightarrow> u32 \<Rightarrow> sock_addr \<Rightarrow> bench_stop + ('k, 'i, 't) bench_sock"
where
  "kernel_setup N proto local_ip peer =
     (case proto of
        Protocol_Udp \<Rightarrow>
          bind_sum (stop_context ''bind udp'' (io_result (kn_bind N \<lparr>sa_ip = local_ip, sa_port = 0\<rparr>))) (\<lambda>s.
          case kn_connect N peer s of (r, s) \<Rightarrow>
          bind_sum (stop_context ''connect udp'' (io_result r)) (\<lambda>_.
          let s = set_rcvbuf N s in
          case kn_set_read_timeout N IDLE s of (r, s) \<Rightarrow>
          bind_sum (stop_context [] (io_result r)) (\<lambda>_. Inr (Sock_Udp s))))
      | Protocol_Tcp \<Rightarrow>
          bind_sum (stop_context ''connect tcp'' (io_result (kn_tcp_connect N peer))) (\<lambda>s.
          case kn_set_nodelay N s of (r, s) \<Rightarrow>
          bind_sum (stop_context [] (io_result r)) (\<lambda>_.
          case kn_set_read_timeout N IDLE s of (r, s) \<Rightarrow>
          bind_sum (stop_context [] (io_result r)) (\<lambda>_. Inr (Sock_Tcp s)))))"

text \<open>\<^verbatim>\<open>while !s.poll_connect()? { if Instant::now() >= deadline { bail } }\<close>.\<close>

fun connect_loop ::
  "nat \<Rightarrow> ('k, 'i, 't) bench_env \<Rightarrow> int \<Rightarrow> nat \<Rightarrow> ('i, 't) sock \<Rightarrow>
     ((bench_stop + unit) \<times> nat \<times> ('i, 't) sock) option"
where
  "connect_loop 0 E deadline i sk = None"
| "connect_loop (Suc fuel) E deadline i sk =
     (case socket_poll_connect (be_stack E) (be_clock E i) (be_kernel E i sk) of
        (r, sk') \<Rightarrow>
          (case stop_context ''connect'' r of
             Inl e \<Rightarrow> Some (Inl e, Suc i, sk')
           | Inr True \<Rightarrow> Some (Inr (), Suc i, sk')
           | Inr False \<Rightarrow>
               if deadline \<le> be_clock E (Suc i) then Some (Inl (Bailed Handshake_Timed_Out), Suc i, sk')
               else connect_loop fuel E deadline (Suc i) sk'))"

text \<open>What the system answers while the xskip stack is set up; loading the skeleton creates the BPF maps.\<close>

record setup_answers =
  su_cpu :: cpu_calls
  su_nametoindex :: "string \<Rightarrow> u32"
  su_mac_file :: "string \<Rightarrow> io_error + string"
  su_mtu_file :: "string \<Rightarrow> io_error + string"
  su_open_skel :: "int + unit"
  su_load_skel :: "int + bpf_maps"
  su_attach :: "bool \<Rightarrow> int option"
  su_detach :: "bool \<Rightarrow> int option"
  su_world :: world
  su_flow_err :: "int option"

definition xskip_probe :: "setup_answers \<Rightarrow> string \<Rightarrow> bench_stop + u32 \<times> bytes \<times> nat \<times> bpf_maps" where
  "xskip_probe A ifname =
     bind_sum (stop_context (''interface '' @ ifname) (ifindex (su_nametoindex A) ifname)) (\<lambda>idx.
     bind_sum (stop_context (''MAC of '' @ ifname) (read_mac (su_mac_file A ifname))) (\<lambda>our_mac.
     bind_sum (stop_context (''MTU of '' @ ifname) (read_mtu ifname (su_mtu_file A ifname))) (\<lambda>mtu.
     bind_sum (stop_context ''load bpf skeleton'' (load_skel (su_open_skel A) (\<lambda>_. su_load_skel A))) (\<lambda>maps.
       Inr (idx, our_mac, mtu, maps)))))"

definition bench_config :: "bench_options \<Rightarrow> u32 \<Rightarrow> bytes \<Rightarrow> nat \<Rightarrow> config" where
  "bench_config b idx our_mac mtu =
     \<lparr>cfg_ifindex = idx, cfg_our_ip = bo_local_ip b, cfg_our_mac = our_mac, cfg_peer_mac = bo_peer_mac b,
      cfg_queue_id = bo_queue b, cfg_mtu = mtu, cfg_hugepage = Mb2, cfg_xdp_mode = bo_xdp_mode b\<rparr>"

text \<open>
  From the attachment on, whatever stops the setup drops what it has built, the socket before the
  attachment.
\<close>

definition xskip_connect ::
  "nat \<Rightarrow> ('k, 'i, 't) bench_env \<Rightarrow> setup_answers \<Rightarrow> sock_addr \<Rightarrow> bpf_maps \<Rightarrow> ('i, 't) sock \<Rightarrow>
     ((bench_stop + ('i, 't) sock \<times> nat) \<times> bpf_maps \<times> os_event list) option"
where
  "xskip_connect fuel E A peer maps sk =
     (case socket_connect (be_stack E) (be_clock E 0) (su_flow_err A) peer maps sk of
        (r, maps, sk) \<Rightarrow>
          (case stop_context ''connect'' r of
             Inl e \<Rightarrow> Some (Inl e, socket_drop maps sk)
           | Inr _ \<Rightarrow>
               (case connect_loop fuel E (be_clock E 1 + CONNECT_TIMEOUT) 1 sk of
                  None \<Rightarrow> None
                | Some (Inl e, i, sk) \<Rightarrow> Some (Inl e, socket_drop maps sk)
                | Some (Inr _, i, sk) \<Rightarrow> Some (Inr (sk, i), maps, []))))"

definition xskip_setup ::
  "nat \<Rightarrow> ('k, 'i, 't) bench_env \<Rightarrow> setup_answers \<Rightarrow> bench_options \<Rightarrow>
     ((bench_stop + ('i, 't) sock \<times> xdp_attachment \<times> nat \<times> bpf_maps) \<times> os_event list) option"
where
  "xskip_setup fuel E A b =
     (case xskip_probe A (bo_ifname b) of
        Inl e \<Rightarrow> Some (Inl e, [])
      | Inr (idx, our_mac, mtu, maps) \<Rightarrow>
          (case attach_xdp (su_attach A) idx of
             (r, l) \<Rightarrow>
               (case stop_context ''attach xdp'' r of
                  Inl e \<Rightarrow> Some (Inl e, l)
                | Inr xdp \<Rightarrow>
                    (case socket_new (be_profile E) (be_stack E) (su_world A) (bo_proto b)
                            (bench_config b idx our_mac mtu) maps of
                       (r, maps, l') \<Rightarrow>
                         (case stop_context ''create xskip socket'' r of
                            Inl e \<Rightarrow> Some (Inl e, l @ l' @ attachment_drop (su_detach A) xdp)
                          | Inr sk \<Rightarrow>
                              (case xskip_connect fuel E A (bo_peer b) maps sk of
                                 None \<Rightarrow> None
                               | Some (Inl e, maps, l'') \<Rightarrow> Some (Inl e, l @ l' @ l'' @ attachment_drop (su_detach A) xdp)
                               | Some (Inr (sk, i), maps, l'') \<Rightarrow>
                                   Some (Inr (sk, xdp, i, maps), l @ l' @ l'')))))))"

section \<open>The consume loop\<close>

record loop_config =
  lc_proto :: protocol
  lc_count :: u64
  lc_want_bytes :: u64
  lc_echo :: bool
  lc_blocking :: bool

record ('k, 'i, 't) bench_loop =
  bl_sock :: "('k, 'i, 't) bench_sock"
  bl_buf :: bytes
  bl_tick :: nat
  bl_last :: int
  bl_msgs :: u64
  bl_bytes :: u64
  bl_spins :: u64

datatype exit_reason = Target_Reached | End_Of_Stream | Idle_Cutoff | Stopped bench_stop

definition add_u64 :: "profile \<Rightarrow> u64 \<Rightarrow> u64 \<Rightarrow> u64 outcome" where
  "add_u64 p a b =
     (if p = Debug \<and> 2 ^ 64 \<le> unat a + unat b then Panic Arithmetic_Overflow else Ok (a + b))"

definition consume_done :: "loop_config \<Rightarrow> ('k, 'i, 't) bench_loop \<Rightarrow> bool" where
  "consume_done cfg st =
     (case lc_proto cfg of
        Protocol_Udp \<Rightarrow> lc_count cfg \<le> bl_msgs st
      | Protocol_Tcp \<Rightarrow> lc_want_bytes cfg \<le> bl_bytes st)"

text \<open>The echo of the \<open>n\<close> bytes just received, in echo mode.\<close>

definition echo_back ::
  "nat \<Rightarrow> ('k, 'i, 't) bench_env \<Rightarrow> loop_config \<Rightarrow> nat \<Rightarrow> ('k, 'i, 't) bench_loop \<Rightarrow>
     (unit outcome \<times> ('k, 'i, 't) bench_loop) option"
where
  "echo_back fuel E cfg n st =
     (if \<not> lc_echo cfg then Some (Ok (), st)
      else if length (bl_buf st) < n then Some (Panic Slice_Out_Of_Range, st)
      else case bench_send_all fuel E (take n (bl_buf st)) (bl_tick st) (bl_sock st) of
        None \<Rightarrow> None
      | Some (r, i, s) \<Rightarrow> Some (r, st\<lparr>bl_tick := i, bl_sock := s\<rparr>))"

definition count_message ::
  "('k, 'i, 't) bench_env \<Rightarrow> nat \<Rightarrow> ('k, 'i, 't) bench_loop \<Rightarrow> exit_reason option \<times> ('k, 'i, 't) bench_loop"
where
  "count_message E n st =
     (case bind_outcome (add_u64 (be_profile E) (bl_msgs st) 1) (\<lambda>msgs.
           bind_outcome (add_u64 (be_profile E) (bl_bytes st) (of_nat n)) (\<lambda>bytes. Ok (msgs, bytes))) of
        Ok (msgs, bytes) \<Rightarrow>
          let st = st\<lparr>bl_msgs := msgs, bl_bytes := bytes\<rparr>
          in (None, if msgs AND 63 = 0 then st\<lparr>bl_last := be_clock E (bl_tick st)\<rparr> else st)
      | Err e \<Rightarrow> (Some (Stopped (Bailed (Context [] e))), st)
      | Panic q \<Rightarrow> (Some (Stopped (Unwound q)), st))"

definition count_spin ::
  "('k, 'i, 't) bench_env \<Rightarrow> loop_config \<Rightarrow> ('k, 'i, 't) bench_loop \<Rightarrow>
     exit_reason option \<times> ('k, 'i, 't) bench_loop"
where
  "count_spin E cfg st =
     (case add_u64 (be_profile E) (bl_spins st) 1 of
        Ok spins \<Rightarrow>
          let st = st\<lparr>bl_spins := spins\<rparr>
          in (if (lc_blocking cfg \<or> spins AND 1023 = 0) \<and> IDLE < be_clock E (bl_tick st) - bl_last st
              then Some Idle_Cutoff else None, st)
      | Err e \<Rightarrow> (Some (Stopped (Bailed (Context [] e))), st)
      | Panic q \<Rightarrow> (Some (Stopped (Unwound q)), st))"

text \<open>One turn of the loop: why it was the last, if it was, and the state after it.\<close>

definition consume_turn ::
  "nat \<Rightarrow> ('k, 'i, 't) bench_env \<Rightarrow> loop_config \<Rightarrow> ('k, 'i, 't) bench_loop \<Rightarrow>
     (exit_reason option \<times> ('k, 'i, 't) bench_loop) option"
where
  "consume_turn fuel E cfg st =
     (case bench_recv E (bl_buf st) (bl_tick st) (bl_sock st) of
        (r, buf, s) \<Rightarrow>
          let st = st\<lparr>bl_buf := buf, bl_sock := s, bl_tick := Suc (bl_tick st)\<rparr>
          in (case stop_context ''recv'' r of
                Inl e \<Rightarrow> Some (Some (Stopped e), st)
              | Inr None \<Rightarrow> Some (count_spin E cfg st)
              | Inr (Some n) \<Rightarrow>
                  if n = 0 then Some (Some End_Of_Stream, st)
                  else (case echo_back fuel E cfg n st of
                          None \<Rightarrow> None
                        | Some (r, st) \<Rightarrow>
                            (case stop_context ''echo'' r of
                               Inl e \<Rightarrow> Some (Some (Stopped e), st)
                             | Inr _ \<Rightarrow> Some (count_message E n st)))))"

primrec consume_loop ::
  "nat \<Rightarrow> ('k, 'i, 't) bench_env \<Rightarrow> loop_config \<Rightarrow> ('k, 'i, 't) bench_loop \<Rightarrow>
     (exit_reason \<times> ('k, 'i, 't) bench_loop) option"
where
  "consume_loop 0 E cfg st = None"
| "consume_loop (Suc fuel) E cfg st =
     (if consume_done cfg st then Some (Target_Reached, st)
      else case consume_turn fuel E cfg st of
        None \<Rightarrow> None
      | Some (Some r, st') \<Rightarrow> Some (r, st')
      | Some (None, st') \<Rightarrow> consume_loop fuel E cfg st')"

definition consume_start :: "('k, 'i, 't) bench_env \<Rightarrow> nat \<Rightarrow> ('k, 'i, 't) bench_sock \<Rightarrow> ('k, 'i, 't) bench_loop" where
  "consume_start E i s =
     \<lparr>bl_sock = s, bl_buf = replicate 65536 0, bl_tick = i, bl_last = be_clock E i, bl_msgs = 0,
      bl_bytes = 0, bl_spins = 0\<rparr>"

section \<open>The run\<close>

text \<open>\<^verbatim>\<open>count * size as u64\<close>.\<close>

definition want_bytes :: "profile \<Rightarrow> u64 \<Rightarrow> nat \<Rightarrow> u64 outcome" where
  "want_bytes p cnt sz =
     (if p = Debug \<and> 2 ^ 64 \<le> unat cnt * unat (of_nat sz :: u64) then Panic Arithmetic_Overflow
      else Ok (cnt * of_nat sz))"

definition control_message :: "string \<Rightarrow> u64 \<Rightarrow> nat \<Rightarrow> string" where
  "control_message mode cnt sz =
     ''RUSTSSI ''
     @ (if mode = ''echo'' then ''ECHO '' else if mode = ''chunk'' then ''CHUNK '' else [])
     @ dec_string (unat cnt) @ '' '' @ dec_string sz @ [CHR 0x0A]"

definition as_bytes :: "string \<Rightarrow> bytes" where
  "as_bytes s = map of_char s"

definition chunk_payload :: "nat \<Rightarrow> bytes" where
  "chunk_payload sz = map of_nat [0..<sz]"

text \<open>\<^verbatim>\<open>received\<close>, and the messages \<^verbatim>\<open>loss\<close> counts as missing.\<close>

definition received :: "protocol \<Rightarrow> nat \<Rightarrow> ('k, 'i, 't) bench_loop \<Rightarrow> u64" where
  "received proto sz st =
     (case proto of Protocol_Udp \<Rightarrow> bl_msgs st | Protocol_Tcp \<Rightarrow> bl_bytes st div of_nat sz)"

definition missing :: "u64 \<Rightarrow> u64 \<Rightarrow> u64" where
  "missing cnt rcvd = (if rcvd \<le> cnt then cnt - rcvd else 0)"

record bench_report =
  rp_received :: u64
  rp_bytes :: u64
  rp_missing :: u64
  rp_elapsed :: int

definition bench_report_of ::
  "('k, 'i, 't) bench_env \<Rightarrow> loop_config \<Rightarrow> nat \<Rightarrow> int \<Rightarrow> ('k, 'i, 't) bench_loop \<Rightarrow> bench_report"
where
  "bench_report_of E cfg sz start st =
     (let end_time = (if lc_count cfg \<le> bl_msgs st \<or> lc_want_bytes cfg \<le> bl_bytes st
                      then be_clock E (bl_tick st) else bl_last st);
          rcvd = received (lc_proto cfg) sz st
      in \<lparr>rp_received = rcvd, rp_bytes = bl_bytes st, rp_missing = missing (lc_count cfg) rcvd,
          rp_elapsed = end_time - start\<rparr>)"

datatype bench_output = Chunk_Sent nat | Consumed bench_report

text \<open>The part of \<^verbatim>\<open>main\<close> behind the setup, on any socket.\<close>

definition bench_exchange ::
  "nat \<Rightarrow> ('k, 'i, 't) bench_env \<Rightarrow> bench_options \<Rightarrow> nat \<Rightarrow> ('k, 'i, 't) bench_sock \<Rightarrow>
     ((bench_stop + bench_output) \<times> ('k, 'i, 't) bench_sock) option"
where
  "bench_exchange fuel E b i s =
     (case want_bytes (be_profile E) (bo_count b) (bo_size b) of
        Err e \<Rightarrow> Some (Inl (Bailed (Context [] e)), s)
      | Panic q \<Rightarrow> Some (Inl (Unwound q), s)
      | Ok want \<Rightarrow>
          (case bench_send_all fuel E (as_bytes (control_message (bo_mode b) (bo_count b) (bo_size b))) i s of
             None \<Rightarrow> None
           | Some (r, i, s) \<Rightarrow>
               (case stop_context ''send control message'' r of
                  Inl e \<Rightarrow> Some (Inl e, s)
                | Inr _ \<Rightarrow>
                    if bo_mode b = ''chunk'' then
                      (case bench_send_all fuel E (chunk_payload (bo_size b)) i s of
                         None \<Rightarrow> None
                       | Some (r, i, s) \<Rightarrow>
                           Some (bind_sum (stop_context ''chunk send'' r) (\<lambda>_. Inr (Chunk_Sent (bo_size b))), s))
                    else
                      let cfg = \<lparr>lc_proto = bo_proto b, lc_count = bo_count b, lc_want_bytes = want,
                                 lc_echo = (bo_mode b = ''echo''),
                                 lc_blocking = (case s of Sock_Xskip _ \<Rightarrow> False | _ \<Rightarrow> True)\<rparr>
                      in (case consume_loop fuel E cfg (consume_start E i s) of
                            None \<Rightarrow> None
                          | Some (Stopped e, st) \<Rightarrow> Some (Inl e, bl_sock st)
                          | Some (_, st) \<Rightarrow>
                              Some (Inr (Consumed (bench_report_of E cfg (bo_size b) (be_clock E i) st)), bl_sock st)))))"

text \<open>
  \<^verbatim>\<open>main\<close> from the choice of the stack on: what it returns, and the system calls that acquire and release; at its
  end the socket is dropped before the attachment.
\<close>

definition bench_run ::
  "nat \<Rightarrow> ('k, 'i, 't) bench_env \<Rightarrow> setup_answers \<Rightarrow> bench_options \<Rightarrow>
     ((bench_stop + bench_output) \<times> os_event list) option"
where
  "bench_run fuel E A b =
     (if bo_stack b = ''kernel'' then
        (case kernel_setup (be_net E) (bo_proto b) (bo_local_ip b) (bo_peer b) of
           Inl e \<Rightarrow> Some (Inl e, [])
         | Inr s \<Rightarrow>
             (case bench_exchange fuel E b 0 s of
                None \<Rightarrow> None | Some (r, s) \<Rightarrow> Some (r, [])))
      else if bo_stack b = ''xskip'' then
        (case xskip_setup fuel E A b of
           None \<Rightarrow> None
         | Some (Inl e, l) \<Rightarrow> Some (Inl e, l)
         | Some (Inr (sk, xdp, i, maps), l) \<Rightarrow>
             (case bench_exchange fuel E b i (Sock_Xskip sk) of
                Some (r, Sock_Xskip sk) \<Rightarrow>
                  Some (r, l @ snd (socket_drop maps sk) @ attachment_drop (su_detach A) xdp)
              | _ \<Rightarrow> None))
      else Some (Inl (Bailed (Unknown_Stack (bo_stack b))), []))"

text \<open>The whole of \<^verbatim>\<open>main\<close>: the arguments, the pinning, the run.\<close>

definition bench_main ::
  "nat \<Rightarrow> ('k, 'i, 't) bench_env \<Rightarrow> setup_answers \<Rightarrow> string list \<Rightarrow>
     ((bench_stop + bench_output) \<times> os_event list) option"
where
  "bench_main fuel E A args =
     (case bind_sum (parse_args args) bench_options_of of
        Inl e \<Rightarrow> Some (Inl (Bailed e), [])
      | Inr b \<Rightarrow>
          (case stop_context [] (pin_cpu (su_cpu A) (bo_cpu b)) of
             Inl e \<Rightarrow> Some (Inl e, [])
           | Inr _ \<Rightarrow> bench_run fuel E A b))"

end
