(* ===== verification/Bench_Spec.thy ===== *)
theory Bench_Spec
  imports Bench Socket_Life
begin

text \<open>
  What the benchmark tool promises: its loops end, what it reports adds up, it counts exactly the
  messages the socket delivers, and a run leaves no attachment, descriptor or mapping behind.
\<close>

section \<open>The handshake ends\<close>

lemma connect_loop_ends:
  assumes "deadline \<le> be_clock E T"
  shows "i < T \<Longrightarrow> T - i \<le> fuel \<Longrightarrow>
    \<exists>r j sk'. connect_loop fuel E deadline i sk = Some (r, j, sk') \<and> i < j \<and> j \<le> T
      \<and> (r = Inl (Bailed Handshake_Timed_Out) \<longrightarrow> deadline \<le> be_clock E j)
      \<and> (r = Inr () \<longrightarrow>
           (\<exists>sk0. socket_poll_connect (be_stack E) (be_clock E (j - 1)) (be_kernel E (j - 1) sk0) = (Ok True, sk')))"
proof (induction fuel arbitrary: i sk)
  case 0
  then show ?case by simp
next
  case (Suc fuel)
  obtain r sk1 where poll: "socket_poll_connect (be_stack E) (be_clock E i) (be_kernel E i sk) = (r, sk1)"
    by fastforce
  have again: "r = Ok False \<Longrightarrow> \<not> deadline \<le> be_clock E (Suc i) \<Longrightarrow> Suc i < T"
    using Suc.prems(1) assms by (metis Suc_lessI)
  show ?case
  proof (cases "r = Ok False \<and> \<not> deadline \<le> be_clock E (Suc i)")
    case True
    then have "connect_loop (Suc fuel) E deadline i sk = connect_loop fuel E deadline (Suc i) sk1"
      using poll by (simp add: stop_context_def)
    moreover have "T - Suc i \<le> fuel" using Suc.prems(2) by simp
    ultimately show ?thesis
      using Suc.IH [of "Suc i" sk1] again True by (metis Suc_lessD)
  next
    case False
    then show ?thesis
      using poll Suc.prems by (auto simp: stop_context_def split: outcome.splits bool.splits)
  qed
qed

text \<open>
  C29.  The handshake loop ends.  Once the clock has reached the deadline at tick \<open>T\<close>, the loop has stopped
  by then, for every behaviour of the kernel and of the TCP stack: it reports success only when the
  last poll reported the connection established, and a timeout only at or after the deadline.
\<close>

theorem connect_loop_terminates:
  assumes "deadline \<le> be_clock E T" and "i < T" and "T - i \<le> fuel"
  shows "\<exists>r j sk'. connect_loop fuel E deadline i sk = Some (r, j, sk') \<and> i < j \<and> j \<le> T
    \<and> (r = Inl (Bailed Handshake_Timed_Out) \<longrightarrow> deadline \<le> be_clock E j)
    \<and> (r = Inr () \<longrightarrow>
         (\<exists>sk0. socket_poll_connect (be_stack E) (be_clock E (j - 1)) (be_kernel E (j - 1) sk0) = (Ok True, sk')))"
  using connect_loop_ends [OF assms] .

section \<open>The report adds up\<close>

lemma add_u64_Ok: "add_u64 p a b = Ok c \<Longrightarrow> c = a + b"
  by (simp add: add_u64_def split: if_splits)

lemma add_u64_not_Err [simp]: "add_u64 p a b \<noteq> Err e"
  by (simp add: add_u64_def)

lemma count_message_fields:
  assumes "count_message E n st = (x, st')"
  shows "bl_sock st' = bl_sock st" "bl_buf st' = bl_buf st" "bl_tick st' = bl_tick st"
    "bl_msgs st' = (if x = None then bl_msgs st + 1 else bl_msgs st)"
    "bl_bytes st' = (if x = None then bl_bytes st + of_nat n else bl_bytes st)"
    "x \<noteq> Some Target_Reached" "x \<noteq> Some Idle_Cutoff" "x \<noteq> Some End_Of_Stream"
  using assms
  by (auto simp: count_message_def Let_def bind_outcome_eq_Ok_iff dest!: add_u64_Ok
      split: outcome.splits if_splits)

lemma count_spin_fields:
  assumes "count_spin E cfg st = (x, st')"
  shows "bl_sock st' = bl_sock st" "bl_buf st' = bl_buf st" "bl_tick st' = bl_tick st"
    "bl_msgs st' = bl_msgs st" "bl_bytes st' = bl_bytes st" "bl_last st' = bl_last st"
    "x \<noteq> Some Target_Reached" "x \<noteq> Some End_Of_Stream"
  using assms by (auto simp: count_spin_def Let_def split: outcome.splits if_splits)

lemma echo_back_fields:
  "echo_back fuel E cfg n st = Some (r, st') \<Longrightarrow> bl_msgs st' = bl_msgs st \<and> bl_bytes st' = bl_bytes st"
  by (auto simp: echo_back_def split: if_splits option.splits)

text \<open>A turn counts one message or none.\<close>

lemma consume_turn_counts:
  assumes "consume_turn fuel E cfg st = Some (x, st')"
  shows "(bl_msgs st' = bl_msgs st \<and> bl_bytes st' = bl_bytes st) \<or> (x = None \<and> bl_msgs st' = bl_msgs st + 1)"
    "x \<noteq> Some Target_Reached"
proof -
  have "((bl_msgs st' = bl_msgs st \<and> bl_bytes st' = bl_bytes st) \<or> (x = None \<and> bl_msgs st' = bl_msgs st + 1))
      \<and> x \<noteq> Some Target_Reached"
    using assms
    by (auto simp: consume_turn_def Let_def count_spin_fields count_message_fields
        split: prod.splits sum.splits option.splits if_splits dest!: echo_back_fields)
  then show "(bl_msgs st' = bl_msgs st \<and> bl_bytes st' = bl_bytes st) \<or> (x = None \<and> bl_msgs st' = bl_msgs st + 1)"
    "x \<noteq> Some Target_Reached" by blast+
qed

lemma consume_loop_exit:
  assumes "consume_loop fuel E cfg st = Some (r, st')"
  shows "r = Target_Reached \<Longrightarrow> consume_done cfg st'"
    and "lc_proto cfg = Protocol_Udp \<Longrightarrow> bl_msgs st \<le> lc_count cfg \<Longrightarrow> bl_msgs st' \<le> lc_count cfg"
proof -
  have "(r = Target_Reached \<longrightarrow> consume_done cfg st')
      \<and> (lc_proto cfg = Protocol_Udp \<longrightarrow> bl_msgs st \<le> lc_count cfg \<longrightarrow> bl_msgs st' \<le> lc_count cfg)"
    using assms
  proof (induction fuel arbitrary: st)
    case (Suc fuel)
    show ?case
    proof (cases "consume_done cfg st")
      case True
      then show ?thesis using Suc.prems by auto
    next
      case False
      then obtain x st1 where t: "consume_turn fuel E cfg st = Some (x, st1)"
        using Suc.prems by (auto split: option.splits prod.splits)
      have "lc_proto cfg = Protocol_Udp \<Longrightarrow> bl_msgs st < lc_count cfg"
        using False by (simp add: consume_done_def not_le)
      then have "lc_proto cfg = Protocol_Udp \<Longrightarrow> bl_msgs st1 \<le> lc_count cfg"
        using consume_turn_counts(1) [OF t] by (auto intro: inc_le)
      then show ?thesis
        using Suc False t consume_turn_counts(2) [OF t] by (cases x) auto
    qed
  qed simp
  then show "r = Target_Reached \<Longrightarrow> consume_done cfg st'"
    "lc_proto cfg = Protocol_Udp \<Longrightarrow> bl_msgs st \<le> lc_count cfg \<Longrightarrow> bl_msgs st' \<le> lc_count cfg" by blast+
qed

lemma missing_simps:
  "rcvd \<le> cnt \<Longrightarrow> rcvd + missing cnt rcvd = cnt" "cnt \<le> rcvd \<Longrightarrow> missing cnt rcvd = 0"
  "missing cnt rcvd \<le> cnt"
  by (auto simp: missing_def word_sub_le)

lemma want_bytes_reached:
  fixes cnt bytes :: u64
  assumes "unat cnt * sz < 2 ^ 64" "0 < sz" "cnt * of_nat sz \<le> bytes" "sz < 2 ^ 64"
  shows "cnt \<le> bytes div of_nat sz"
proof -
  have sz: "unat (of_nat sz :: u64) = sz" using assms(4) by (simp add: unat_of_nat)
  have "unat (cnt * of_nat sz) = unat cnt * sz" using assms(1) sz by (simp add: unat_word_ariths)
  then have "unat cnt * sz \<le> unat bytes" using assms(3) by (simp add: word_le_nat_alt)
  then have "unat cnt \<le> unat bytes div sz" using assms(2) by (simp add: less_eq_div_iff_mult_less_eq)
  then show ?thesis using sz by (simp add: word_le_nat_alt unat_div)
qed

text \<open>
  C30.  The report adds up, whatever the peer, the kernel and the clock did.  Over UDP no more messages
  are reported than were asked for, and the received and the missing ones together are those asked for;
  over either protocol nothing is reported missing if the loop ended because it had what it wanted,
  provided the product of count and size fits 64 bits.
\<close>

theorem bench_report_adds_up:
  fixes start :: int
  assumes "consume_loop fuel E cfg (consume_start E i s) = Some (r, st)"
    and "want_bytes Debug (lc_count cfg) sz = Ok (lc_want_bytes cfg)" and "0 < sz" and "sz < 2 ^ 64"
  defines "rep \<equiv> bench_report_of E cfg sz start st"
  shows "(lc_proto cfg = Protocol_Udp \<longrightarrow>
            rp_received rep \<le> lc_count cfg \<and> rp_received rep + rp_missing rep = lc_count cfg)
    \<and> (r = Target_Reached \<longrightarrow> rp_missing rep = 0) \<and> rp_missing rep \<le> lc_count cfg"
proof -
  have want: "unat (lc_count cfg) * sz < 2 ^ 64" "lc_want_bytes cfg = lc_count cfg * of_nat sz"
    using assms(2,4) by (auto simp: want_bytes_def unat_of_nat split: if_splits)
  have udp: "lc_proto cfg = Protocol_Udp \<Longrightarrow> bl_msgs st \<le> lc_count cfg"
    using consume_loop_exit(2) [OF assms(1)] by (simp add: consume_start_def)
  have "r = Target_Reached \<Longrightarrow> lc_count cfg \<le> received (lc_proto cfg) sz st"
    using consume_loop_exit(1) [OF assms(1)] want want_bytes_reached [OF want(1) assms(3) _ assms(4)]
    by (cases "lc_proto cfg") (auto simp: consume_done_def received_def)
  then show ?thesis
    using udp by (auto simp: rep_def bench_report_of_def Let_def missing_simps received_def)
qed

section \<open>Sending everything\<close>

text \<open>
  \<^verbatim>\<open>Sock::send_all\<close> over UDP takes one call of \<^verbatim>\<open>send\<close>.  On a well-formed connected UDP socket, as
  the kernel left it, it returns success at the next tick; the frames that join the transmit queue are the
  first datagrams of the buffer cut at the link's MTU, as many as there is room for, each read by the
  peer as exactly its piece, and the pieces are the buffer.
\<close>

lemma bench_send_all_udp:
  assumes "ipv4_wire_laws (be_wire E)" and "udp_wire_laws (be_wire E)" and "sk_mtu (be_kernel E i sk) < 65536"
    and "sock_ok kr kt (be_kernel E i sk)" and "sk_plane (be_kernel E i sk) = Plane_Udp u"
    and "sk_remote (be_kernel E i sk) = Some r" and "sa_port r \<noteq> 0" and "buf \<noteq> []"
  defines "cs \<equiv> chunks (max_udp_payload (be_kernel E i sk)) buf"
  shows "\<exists>s' fs. bench_send_all (Suc (Suc fuel)) E buf i (Sock_Xskip sk) =
        Some (Ok (), Suc i, Sock_Xskip ((be_kernel E i sk)\<lparr>sk_plane := Plane_Udp (u\<lparr>up_xsk := s'\<rparr>)\<rparr>))
    \<and> concat cs = buf \<and> tx_wire s' = tx_wire (up_xsk u) @ fs
    \<and> list_all2 (\<lambda>c f. length f \<le> 14 + sk_mtu (be_kernel E i sk)
         \<and> (\<forall>g. parse (be_wire E) g f =
              (if f_remote g = Some (local_addr (be_kernel E i sk)) \<and> f_local g = r then Some c else None)))
        (take (tx_room (up_xsk u)) cs) fs"
proof -
  let ?sk = "be_kernel E i sk"
  obtain s' fs where s': "socket_send (be_wire E) (be_stack E) (be_clock E i) buf ?sk =
        (Ok (length buf), ?sk\<lparr>sk_plane := Plane_Udp (u\<lparr>up_xsk := s'\<rparr>)\<rparr>)"
    and q: "concat cs = buf" "tx_wire s' = tx_wire (up_xsk u) @ fs"
    and fs: "list_all2 (\<lambda>c f. length f = 42 + length c \<and> length f \<le> 14 + sk_mtu ?sk
         \<and> (\<forall>g. parse (be_wire E) g f =
              (if f_remote g = Some (local_addr ?sk) \<and> f_local g = r then Some c else None)))
        (take (tx_room (up_xsk u)) cs) fs"
    using socket_send_udp_queues [OF assms(1-8)] unfolding cs_def by blast
  have "bench_send_all (Suc (Suc fuel)) E buf i (Sock_Xskip sk) =
      Some (Ok (), Suc i, Sock_Xskip (?sk\<lparr>sk_plane := Plane_Udp (u\<lparr>up_xsk := s'\<rparr>)\<rparr>))"
    using assms(8) s' by (simp add: bench_send_all_def)
  moreover have "list_all2 (\<lambda>c f. length f \<le> 14 + sk_mtu ?sk
         \<and> (\<forall>g. parse (be_wire E) g f =
              (if f_remote g = Some (local_addr ?sk) \<and> f_local g = r then Some c else None)))
        (take (tx_room (up_xsk u)) cs) fs"
    by (rule list.rel_mono_strong [OF fs]) blast
  ultimately show ?thesis using q by (intro exI [of _ s'] exI [of _ fs]) simp
qed

section \<open>The idle cutoff\<close>

text \<open>
  C39.  The idle cutoff does not look at the last message.  The clock is sampled at every 64th message
  only, so if the sample is older than the limit, the next empty poll that looks at the clock ends the run,
  although a message was received in the turn before it, however recently that was.
\<close>

theorem idle_cutoff_after_message:
  assumes "bench_recv E (bl_buf st) (bl_tick st) (bl_sock st) = (Ok (Some n), buf1, s1)" and "0 < n"
    and "bench_recv E buf1 (Suc (bl_tick st)) s1 = (Ok None, buf2, s2)"
    and "lc_proto cfg = Protocol_Udp" and "\<not> lc_echo cfg" and "\<not> lc_blocking cfg"
    and "unat (bl_msgs st) + 1 < unat (lc_count cfg)" and "unat (bl_bytes st) + n < 2 ^ 64"
    and "(bl_msgs st + 1) AND 63 \<noteq> 0"
    and "unat (bl_spins st) + 1 < 2 ^ 64" and "(bl_spins st + 1) AND 1023 = 0"
    and "bl_last st + IDLE < be_clock E (Suc (Suc (bl_tick st)))"
  shows "\<exists>st'. consume_loop (Suc (Suc fuel)) E cfg st = Some (Idle_Cutoff, st')
    \<and> bl_msgs st' = bl_msgs st + 1 \<and> bl_last st' = bl_last st"
proof -
  let ?st = "st\<lparr>bl_buf := buf1, bl_sock := s1, bl_tick := Suc (bl_tick st), bl_msgs := bl_msgs st + 1,
    bl_bytes := bl_bytes st + of_nat n\<rparr>"
  have small: "unat (bl_msgs st) + 1 < 2 ^ 64" "unat (of_nat n :: u64) = n"
    using assms(7,8) unsigned_less [of "lc_count cfg", where 'a = nat] by (simp_all add: unat_of_nat)
  then have m: "unat (bl_msgs st + 1) = unat (bl_msgs st) + 1" by (simp add: unat_word_ariths)
  have "consume_turn k E cfg st = Some (None, ?st)" for k
    using assms(1,2,5,8,9) small
    by (simp add: consume_turn_def stop_context_def echo_back_def count_message_def add_u64_def Let_def)
  moreover have "\<not> consume_done cfg st" "\<not> consume_done cfg ?st"
    using assms(4,7) m by (simp_all add: consume_done_def word_le_nat_alt)
  moreover have "consume_turn k E cfg ?st = Some (Some Idle_Cutoff,
      ?st\<lparr>bl_buf := buf2, bl_sock := s2, bl_tick := Suc (Suc (bl_tick st)), bl_spins := bl_spins st + 1\<rparr>)" for k
    using assms(3,10-12)
    by (simp add: consume_turn_def stop_context_def count_spin_def add_u64_def Let_def)
  ultimately show ?thesis by simp
qed

end
