(* ===== verification/Bench_Consume.thy ===== *)
theory Bench_Consume
  imports Bench_Spec
begin

text \<open>
  The consume loop against a socket that has messages waiting.  The interface is what the loop relies on
  from \<^verbatim>\<open>Sock::recv\<close>: each call takes the oldest thing that is waiting and reports it.  Over it the
  loop counts exactly what was waiting and then stops.  A UDP socket of the library over its receive
  ring provides the interface.
\<close>

section \<open>A socket with messages waiting\<close>

text \<open>What waits is a list of message sizes; \<^const>\<open>None\<close> in it is something \<^verbatim>\<open>recv\<close> discards.\<close>

locale message_source =
  fixes E :: "('k, 'i, 't) bench_env"
    and good :: "('k, 'i, 't) bench_sock \<Rightarrow> bool"
    and waiting :: "('k, 'i, 't) bench_sock \<Rightarrow> nat option list"
  assumes recv_waiting:
    "good s \<Longrightarrow> length buf = 65536 \<Longrightarrow>
     \<exists>buf' s'. bench_recv E buf i s = (Ok (case waiting s of [] \<Rightarrow> None | m # _ \<Rightarrow> m), buf', s')
       \<and> length buf' = 65536 \<and> good s' \<and> waiting s' = tl (waiting s)"
begin

definition ready :: "('k, 'i, 't) bench_loop \<Rightarrow> bool" where
  "ready st \<longleftrightarrow> good (bl_sock st) \<and> length (bl_buf st) = 65536"

lemma turn_message:
  assumes "ready st" "\<not> lc_echo cfg" "waiting (bl_sock st) = Some n # ws" "0 < n"
    "unat (bl_msgs st) + 1 < 2 ^ 64" "unat (bl_bytes st) + n < 2 ^ 64"
  shows "\<exists>st'. (\<forall>fuel. consume_turn fuel E cfg st = Some (None, st')) \<and> ready st'
    \<and> waiting (bl_sock st') = ws \<and> unat (bl_msgs st') = unat (bl_msgs st) + 1
    \<and> unat (bl_bytes st') = unat (bl_bytes st) + n \<and> bl_spins st' = bl_spins st
    \<and> bl_tick st' = Suc (bl_tick st) \<and> (bl_last st' = bl_last st \<or> bl_last st' = be_clock E (Suc (bl_tick st)))"
proof -
  obtain buf s where r: "bench_recv E (bl_buf st) (bl_tick st) (bl_sock st) = (Ok (Some n), buf, s)"
    "length buf = 65536" "good s" "waiting s = ws"
    using recv_waiting [of "bl_sock st" "bl_buf st" "bl_tick st"] assms(1,3) by (auto simp: ready_def)
  let ?st = "st\<lparr>bl_buf := buf, bl_sock := s, bl_tick := Suc (bl_tick st)\<rparr>"
  let ?c = "?st\<lparr>bl_msgs := bl_msgs st + 1, bl_bytes := bl_bytes st + of_nat n\<rparr>"
  let ?st' = "if (bl_msgs st + 1) AND 63 = 0 then ?c\<lparr>bl_last := be_clock E (Suc (bl_tick st))\<rparr> else ?c"
  have n: "unat (of_nat n :: u64) = n" using assms(6) by (simp add: unat_of_nat)
  have "count_message E n ?st = (None, ?st')"
    using assms(5,6) n by (simp add: count_message_def add_u64_def Let_def)
  then have "consume_turn fuel E cfg st = Some (None, ?st')" for fuel
    using r(1) assms(2,4) by (simp add: consume_turn_def stop_context_def echo_back_def Let_def)
  moreover have "unat (bl_msgs st + 1) = unat (bl_msgs st) + 1" "unat (bl_bytes st + of_nat n) = unat (bl_bytes st) + n"
    using assms(5,6) n by (simp_all add: unat_word_ariths)
  ultimately show ?thesis using r by (intro exI [of _ ?st']) (simp add: ready_def)
qed

lemma take_messages:
  assumes "\<not> lc_echo cfg" "lc_proto cfg = Protocol_Udp"
  shows "ready st \<Longrightarrow> waiting (bl_sock st) = map Some ns @ ws \<Longrightarrow> \<forall>n \<in> set ns. 0 < n \<Longrightarrow>
     unat (bl_msgs st) + length ns \<le> unat (lc_count cfg) \<Longrightarrow> unat (bl_bytes st) + sum_list ns < 2 ^ 64 \<Longrightarrow>
     \<exists>st'. (\<forall>fuel. consume_loop (length ns + fuel) E cfg st = consume_loop fuel E cfg st') \<and> ready st'
       \<and> waiting (bl_sock st') = ws \<and> unat (bl_msgs st') = unat (bl_msgs st) + length ns
       \<and> unat (bl_bytes st') = unat (bl_bytes st) + sum_list ns \<and> bl_spins st' = bl_spins st
       \<and> bl_tick st' = bl_tick st + length ns
       \<and> (bl_last st' = bl_last st \<or> (\<exists>j \<le> bl_tick st'. bl_last st' = be_clock E j))"
proof (induction ns arbitrary: st)
  case Nil
  then show ?case by (intro exI [of _ st]) simp
next
  case (Cons n ns)
  have small: "unat (bl_msgs st) + 1 < 2 ^ 64" "unat (bl_bytes st) + n < 2 ^ 64"
    using Cons.prems(4,5) u64_bound [of "lc_count cfg"] by simp_all
  obtain st1 where t: "\<And>fuel. consume_turn fuel E cfg st = Some (None, st1)"
    and st1: "ready st1" "waiting (bl_sock st1) = map Some ns @ ws" "unat (bl_msgs st1) = unat (bl_msgs st) + 1"
      "unat (bl_bytes st1) = unat (bl_bytes st) + n" "bl_spins st1 = bl_spins st" "bl_tick st1 = Suc (bl_tick st)"
      "bl_last st1 = bl_last st \<or> bl_last st1 = be_clock E (Suc (bl_tick st))"
    using turn_message [OF Cons.prems(1) assms(1) _ _ small, of "map Some ns @ ws"] Cons.prems(2,3) by auto
  have "\<not> consume_done cfg st"
    using Cons.prems(4) assms(2) by (simp add: consume_done_def word_le_nat_alt)
  then have step: "consume_loop (Suc fuel) E cfg st = consume_loop fuel E cfg st1" for fuel
    using t by simp
  have room: "\<forall>n \<in> set ns. 0 < n" "unat (bl_msgs st1) + length ns \<le> unat (lc_count cfg)"
    "unat (bl_bytes st1) + sum_list ns < 2 ^ 64"
    using Cons.prems(3-5) st1(3,4) by simp_all
  obtain st' where st': "\<And>fuel. consume_loop (length ns + fuel) E cfg st1 = consume_loop fuel E cfg st'"
    "ready st'" "waiting (bl_sock st') = ws" "unat (bl_msgs st') = unat (bl_msgs st1) + length ns"
    "unat (bl_bytes st') = unat (bl_bytes st1) + sum_list ns" "bl_spins st' = bl_spins st1"
    "bl_tick st' = bl_tick st1 + length ns"
    "bl_last st' = bl_last st1 \<or> (\<exists>j \<le> bl_tick st'. bl_last st' = be_clock E j)"
    using Cons.IH [OF st1(1,2) room] by blast
  have "bl_last st' = bl_last st \<or> (\<exists>j \<le> bl_tick st'. bl_last st' = be_clock E j)"
    using st'(7,8) st1(6,7) by (metis le_add1)
  then show ?case using step st' st1 by (intro exI [of _ st']) simp
qed

lemma turn_idle:
  assumes "ready st" "waiting (bl_sock st) = []" "unat (bl_spins st) + 1 < 2 ^ 64"
  shows "\<exists>x st'. (\<forall>fuel. consume_turn fuel E cfg st = Some (x, st')) \<and> ready st' \<and> waiting (bl_sock st') = []
    \<and> bl_msgs st' = bl_msgs st \<and> bl_bytes st' = bl_bytes st \<and> bl_last st' = bl_last st
    \<and> unat (bl_spins st') = unat (bl_spins st) + 1 \<and> bl_tick st' = Suc (bl_tick st)
    \<and> x = (if (lc_blocking cfg \<or> unat (bl_spins st') mod 1024 = 0)
               \<and> IDLE < be_clock E (Suc (bl_tick st)) - bl_last st then Some Idle_Cutoff else None)"
proof -
  obtain buf s where r: "bench_recv E (bl_buf st) (bl_tick st) (bl_sock st) = (Ok None, buf, s)"
    "length buf = 65536" "good s" "waiting s = []"
    using recv_waiting [of "bl_sock st" "bl_buf st" "bl_tick st"] assms(1,2) by (auto simp: ready_def)
  let ?st' = "st\<lparr>bl_buf := buf, bl_sock := s, bl_tick := Suc (bl_tick st), bl_spins := bl_spins st + 1\<rparr>"
  have u: "unat (bl_spins st + 1) = unat (bl_spins st) + 1"
    using assms(3) by (simp add: unat_word_ariths)
  have "unat ((bl_spins st + 1) AND 1023) = unat (bl_spins st + 1) mod 1024"
    using unat_and_pow2 [of 10 "bl_spins st + 1"] by simp
  then have m: "(bl_spins st + 1) AND 1023 = 0 \<longleftrightarrow> (unat (bl_spins st) + 1) mod 1024 = 0"
    by (metis u unat_eq_0)
  have "consume_turn fuel E cfg st = Some (if (lc_blocking cfg \<or> (unat (bl_spins st) + 1) mod 1024 = 0)
       \<and> IDLE < be_clock E (Suc (bl_tick st)) - bl_last st then Some Idle_Cutoff else None, ?st')" for fuel
    using r(1) assms(3)
    by (simp add: consume_turn_def stop_context_def count_spin_def add_u64_def Let_def m)
  then show ?thesis
    using r u
    by (intro exI [of _ "if (lc_blocking cfg \<or> (unat (bl_spins st) + 1) mod 1024 = 0)
       \<and> IDLE < be_clock E (Suc (bl_tick st)) - bl_last st then Some Idle_Cutoff else None"] exI [of _ ?st'])
       (simp add: ready_def)
qed

text \<open>With nothing waiting, the loop stops at the latest when the clock is past the cutoff at a counted poll.\<close>

lemma idle_out:
  assumes "\<And>i. T \<le> i \<Longrightarrow> IDLE < be_clock E i - since" "T \<le> M" "M mod 1024 = 0" "M < 2 ^ 64"
  shows "d = M - unat (bl_spins st) \<Longrightarrow> unat (bl_spins st) < M \<Longrightarrow> unat (bl_spins st) \<le> bl_tick st \<Longrightarrow>
     ready st \<Longrightarrow> waiting (bl_sock st) = [] \<Longrightarrow> bl_last st = since \<Longrightarrow> \<not> consume_done cfg st \<Longrightarrow>
     \<exists>fuel st'. consume_loop fuel E cfg st = Some (Idle_Cutoff, st')
       \<and> bl_msgs st' = bl_msgs st \<and> bl_bytes st' = bl_bytes st"
proof (induction d arbitrary: st)
  case 0
  then show ?case by simp
next
  case (Suc d)
  have "unat (bl_spins st) + 1 < 2 ^ 64" using Suc.prems(2) assms(4) by simp
  then obtain x st1 where t: "\<And>fuel. consume_turn fuel E cfg st = Some (x, st1)"
    and st1: "ready st1" "waiting (bl_sock st1) = []" "bl_msgs st1 = bl_msgs st" "bl_bytes st1 = bl_bytes st"
      "bl_last st1 = since" "unat (bl_spins st1) = unat (bl_spins st) + 1" "bl_tick st1 = Suc (bl_tick st)"
      "x = (if (lc_blocking cfg \<or> unat (bl_spins st1) mod 1024 = 0)
               \<and> IDLE < be_clock E (Suc (bl_tick st)) - since then Some Idle_Cutoff else None)"
    using turn_idle [OF Suc.prems(4,5), of cfg] Suc.prems(6) by metis
  show ?case
  proof (cases "x = None")
    case False
    then have "consume_loop (Suc fuel) E cfg st = Some (Idle_Cutoff, st1)" for fuel
      using t st1(8) Suc.prems(7) by (auto split: if_splits)
    then show ?thesis using st1 by blast
  next
    case True
    then have step: "consume_loop (Suc fuel) E cfg st = consume_loop fuel E cfg st1" for fuel
      using t Suc.prems(7) by simp
    have "unat (bl_spins st1) \<noteq> M"
    proof
      assume M: "unat (bl_spins st1) = M"
      then have "T \<le> Suc (bl_tick st)" using assms(2) st1(6) Suc.prems(3) by simp
      then show False using True st1(8) assms(1,3) M by (simp split: if_splits)
    qed
    then have "unat (bl_spins st1) < M" "d = M - unat (bl_spins st1)" "unat (bl_spins st1) \<le> bl_tick st1"
      using st1(6,7) Suc.prems(1-3) by simp_all
    moreover have "\<not> consume_done cfg st1"
      using Suc.prems(7) st1(3,4) by (cases "lc_proto cfg") (simp_all add: consume_done_def)
    ultimately obtain fuel st' where "consume_loop fuel E cfg st1 = Some (Idle_Cutoff, st')"
      "bl_msgs st' = bl_msgs st1" "bl_bytes st' = bl_bytes st1"
      using Suc.IH [of st1] st1(1,2,5) by blast
    then show ?thesis using step [of fuel] st1(3,4) by metis
  qed
qed

lemma consume_all:
  assumes "good s" "waiting s = map Some ns" "\<forall>n \<in> set ns. 0 < n" "sum_list ns < 2 ^ 64"
    "\<not> lc_echo cfg" "lc_proto cfg = Protocol_Udp" "T < 2 ^ 63"
    "\<And>j k. j \<le> i + length ns \<Longrightarrow> T \<le> k \<Longrightarrow> be_clock E j + IDLE < be_clock E k"
  shows "\<exists>fuel st. consume_loop fuel E cfg (consume_start E i s) =
        Some (if unat (lc_count cfg) \<le> length ns then Target_Reached else Idle_Cutoff, st)
    \<and> unat (bl_msgs st) = min (unat (lc_count cfg)) (length ns)
    \<and> unat (bl_bytes st) = sum_list (take (unat (lc_count cfg)) ns)"
proof -
  let ?n = "unat (lc_count cfg)"
  let ?st = "consume_start E i s :: ('k, 'i, 't) bench_loop" and ?ms = "take ?n ns"
  have start: "ready ?st" "waiting (bl_sock ?st) = map Some ?ms @ map Some (drop ?n ns)"
    using assms(1,2) by (simp_all add: consume_start_def ready_def flip: map_append)
  have ms: "\<forall>n \<in> set ?ms. 0 < n" using assms(3) by (meson in_set_takeD)
  have "sum_list ?ms + sum_list (drop ?n ns) = sum_list ns" by (metis append_take_drop_id sum_list_append)
  then have b: "unat (bl_bytes ?st) + sum_list ?ms < 2 ^ 64" using assms(4) by (simp add: consume_start_def)
  have c: "unat (bl_msgs ?st) + length ?ms \<le> ?n" by (simp add: consume_start_def)
  have fields: "unat (bl_msgs ?st) = 0" "unat (bl_bytes ?st) = 0" "bl_spins ?st = 0" "bl_tick ?st = i"
    "bl_last ?st = be_clock E i"
    by (simp_all add: consume_start_def)
  obtain st' where st': "\<And>fuel. consume_loop (length ?ms + fuel) E cfg ?st = consume_loop fuel E cfg st'"
    "ready st'" "waiting (bl_sock st') = map Some (drop ?n ns)" "unat (bl_msgs st') = length ?ms"
    "unat (bl_bytes st') = sum_list ?ms" "bl_spins st' = 0" "bl_tick st' = i + length ?ms"
    "bl_last st' = be_clock E i \<or> (\<exists>j \<le> bl_tick st'. bl_last st' = be_clock E j)"
    using take_messages [OF assms(5,6) start ms c b] unfolding fields add_0 by blast
  show ?thesis
  proof (cases "?n \<le> length ns")
    case True
    then have "consume_done cfg st'"
      using st'(4) assms(6) by (simp add: consume_done_def word_le_nat_alt)
    then have "consume_loop (length ?ms + 1) E cfg ?st = Some (Target_Reached, st')" unfolding st'(1) by simp
    then show ?thesis
      using True st'(4,5)
      by (intro exI [of _ "length ?ms + 1"] exI [of _ st']) (simp del: consume_loop.simps)
  next
    case False
    define M where "M = (T div 1024 + 1) * 1024"
    have M: "T < M" "M mod 1024 = 0" "M < 2 ^ 64"
      using assms(7) by (simp_all add: M_def)
    have "\<not> consume_done cfg st'"
      using st'(4) assms(6) False by (simp add: consume_done_def word_le_nat_alt)
    moreover obtain j where j: "j \<le> i + length ns" "bl_last st' = be_clock E j"
      using st'(7,8) False by (auto intro: that [of i])
    have "IDLE < be_clock E k - bl_last st'" if "T \<le> k" for k
      using assms(8) [OF j(1) that] j(2) by simp
    ultimately obtain fuel st2 where "consume_loop fuel E cfg st' = Some (Idle_Cutoff, st2)"
      "bl_msgs st2 = bl_msgs st'" "bl_bytes st2 = bl_bytes st'"
      using idle_out [OF _ _ M(2,3) refl, of T "bl_last st'" st' cfg] M(1) st'(2,3,6) False by auto
    then show ?thesis using False st'(1) [of fuel] st'(4,5) by fastforce
  qed
qed

end

section \<open>A UDP socket over its receive ring\<close>

text \<open>Everything the peer sent lies in the ring already: the kernel does nothing while the loop runs.\<close>

definition quiet_env ::
  "profile \<Rightarrow> wire \<Rightarrow> ('i, 't) smoltcp \<Rightarrow> 'k kernel_net \<Rightarrow> (nat \<Rightarrow> int) \<Rightarrow> ('k, 'i, 't) bench_env" where
  "quiet_env p W S N clk =
     \<lparr>be_profile = p, be_wire = W, be_stack = S, be_net = N, be_kernel = (\<lambda>_ sk. sk), be_clock = clk\<rparr>"

definition udp_ready :: "('k, 'i, 't) bench_sock \<Rightarrow> bool" where
  "udp_ready s \<longleftrightarrow>
     (\<exists>sk u kr kt. s = Sock_Xskip sk \<and> sk_plane sk = Plane_Udp u \<and> sk_connected sk \<and> sock_ok kr kt sk)"

text \<open>What a frame is to \<^verbatim>\<open>recv\<close>: the size of its payload, or nothing if it is not of this flow or empty.\<close>

definition frame_message :: "wire \<Rightarrow> framing \<Rightarrow> bytes \<Rightarrow> nat option" where
  "frame_message W fr f =
     (case parse W fr f of
        None \<Rightarrow> None | Some p \<Rightarrow> if p = [] then None else Some (min (length p) 65536))"

definition udp_waiting :: "wire \<Rightarrow> ('k, 'i, 't) bench_sock \<Rightarrow> nat option list" where
  "udp_waiting W s =
     (case s of
        Sock_Xskip sk \<Rightarrow>
          (case sk_plane sk of
             Plane_Udp u \<Rightarrow> map (frame_message W (up_framing u)) (rx_wire (up_xsk u))
           | Plane_Tcp _ \<Rightarrow> [])
      | _ \<Rightarrow> [])"

lemma rx_wire_kick_rx: "rx_wire (kick_rx s) = rx_wire s"
  by (simp add: kick_rx_def Let_def rx_wire_def frame_def)

lemma udp_recv_waiting:
  assumes "sk_plane sk = Plane_Udp u" "sk_connected sk" "sock_ok kr kt sk" "length buf = 65536"
  shows "\<exists>buf' s. socket_recv pr W S reading buf sk =
        (Ok (case map (frame_message W (up_framing u)) (rx_wire (up_xsk u)) of [] \<Rightarrow> None | m # _ \<Rightarrow> m), buf',
         sk\<lparr>sk_plane := Plane_Udp (u\<lparr>up_xsk := s\<rparr>)\<rparr>)
    \<and> length buf' = 65536 \<and> sock_ok kr kt (sk\<lparr>sk_plane := Plane_Udp (u\<lparr>up_xsk := s\<rparr>)\<rparr>)
    \<and> rx_wire s = tl (rx_wire (up_xsk u))"
proof -
  obtain r where u: "owns (up_xsk u) kr kt {#} {#}" "f_remote (up_framing u) = Some r" "tx_fits (up_xsk u)"
    using assms(1-3) by (auto simp: sock_ok_def)
  have ok: "sock_ok kr kt (sk\<lparr>sk_plane := Plane_Udp (u\<lparr>up_xsk := s\<rparr>)\<rparr>)"
    if "owns s kr kt {#} {#}" "tx_fits s" "x_frame_size s = x_frame_size (up_xsk u)" for s
    using assms(1,3) that by (simp add: sock_ok_def local_addr_def)
  have recv: "socket_recv pr W S reading buf sk =
      (case recv_into W buf u of (r, buf, u') \<Rightarrow> (Ok r, buf, sk\<lparr>sk_plane := Plane_Udp u'\<rparr>))"
    using assms(1,2,4) by (auto simp: socket_recv_def)
  note q = recv_into_queues [OF u(1,2), of W buf]
  show ?thesis
  proof (cases "rx_wire (up_xsk u)")
    case Nil
    then show ?thesis
      using q ok [OF owns_kick_rx [OF u(1)]] u(3) assms(4) recv
      by (intro exI [of _ buf] exI [of _ "kick_rx (up_xsk u)"]) (simp add: rx_wire_kick_rx)
  next
    case (Cons f fs)
    then obtain s where s: "recv_into W buf u =
          (case parse W (up_framing u) f of
             None \<Rightarrow> (None, buf, u\<lparr>up_xsk := s\<rparr>)
           | Some p \<Rightarrow> (if p = [] \<or> buf = [] then None else Some (min (length p) (length buf)),
                       take (length buf) p @ drop (length p) buf, u\<lparr>up_xsk := s\<rparr>))"
      "owns s kr kt {#} {#}" "rx_wire s = fs" "tx_fits s" "x_frame_size s = x_frame_size (up_xsk u)"
      using q u(3) by auto
    then show ?thesis
      using recv ok [OF s(2,4,5)] Cons assms(4)
      by (cases "parse W (up_framing u) f")
         (auto simp: frame_message_def)
  qed
qed

interpretation udp_source: message_source "quiet_env p W S N clk" udp_ready "udp_waiting W"
  for p W S N clk
proof unfold_locales
  fix s :: "('c, 'a, 'b) bench_sock" and buf :: bytes and i
  assume "udp_ready s" and buf: "length buf = 65536"
  then obtain sk u kr kt where s: "s = Sock_Xskip sk" "sk_plane sk = Plane_Udp u" "sk_connected sk" "sock_ok kr kt sk"
    by (auto simp: udp_ready_def)
  obtain buf' x where r: "socket_recv p W S (clk i) buf sk =
        (Ok (case map (frame_message W (up_framing u)) (rx_wire (up_xsk u)) of [] \<Rightarrow> None | m # _ \<Rightarrow> m), buf',
         sk\<lparr>sk_plane := Plane_Udp (u\<lparr>up_xsk := x\<rparr>)\<rparr>)"
    "length buf' = 65536" "sock_ok kr kt (sk\<lparr>sk_plane := Plane_Udp (u\<lparr>up_xsk := x\<rparr>)\<rparr>)"
    "rx_wire x = tl (rx_wire (up_xsk u))"
    using udp_recv_waiting [OF s(2-4) buf] by blast
  let ?s = "Sock_Xskip (sk\<lparr>sk_plane := Plane_Udp (u\<lparr>up_xsk := x\<rparr>)\<rparr>) :: ('c, 'a, 'b) bench_sock"
  have "udp_ready ?s" using r(3) s(3) by (auto simp: udp_ready_def)
  then show "\<exists>buf' s'. bench_recv (quiet_env p W S N clk) buf i s =
        (Ok (case udp_waiting W s of [] \<Rightarrow> None | m # _ \<Rightarrow> m), buf', s')
      \<and> length buf' = 65536 \<and> udp_ready s' \<and> udp_waiting W s' = tl (udp_waiting W s)"
    using r s by (intro exI [of _ buf'] exI [of _ ?s])
      (simp add: bench_recv_def quiet_env_def udp_waiting_def map_tl)
qed

text \<open>
  C17.  A run over UDP counts what arrived.  The frames of the receive ring are messages of the flow,
  and no more arrive.  Then the consume loop, not echoing, ends: with its target reached if there are
  enough messages, and otherwise by the idle cutoff once the clock allows it; it has counted
  each message once up to the target, and the bytes are those of exactly these messages.
\<close>

theorem bench_consumes_ring:
  assumes "sk_plane sk = Plane_Udp u" and "sk_connected sk" and "sock_ok kr kt sk"
    and "map (parse W (up_framing u)) (rx_wire (up_xsk u)) = map Some ps"
    and "\<forall>p \<in> set ps. p \<noteq> [] \<and> length p \<le> 65536" and "sum_list (map length ps) < 2 ^ 64"
    and "\<not> lc_echo cfg" and "lc_proto cfg = Protocol_Udp" and "T < 2 ^ 63"
    and "\<forall>j k. j \<le> i + length ps \<and> T \<le> k \<longrightarrow> clk j + IDLE < clk k"
  shows "\<exists>fuel st. consume_loop fuel (quiet_env p W S N clk) cfg
          (consume_start (quiet_env p W S N clk) i (Sock_Xskip sk)) =
        Some (if unat (lc_count cfg) \<le> length ps then Target_Reached else Idle_Cutoff, st)
    \<and> unat (bl_msgs st) = min (unat (lc_count cfg)) (length ps)
    \<and> unat (bl_bytes st) = sum_list (map length (take (unat (lc_count cfg)) ps))"
proof -
  let ?s = "Sock_Xskip sk :: ('c, 'a, 'b) bench_sock" and ?E = "quiet_env p W S N clk :: ('c, 'a, 'b) bench_env"
  have ready: "udp_ready ?s" using assms(1-3) by (auto simp: udp_ready_def)
  have each: "map (frame_message W (up_framing u)) fs = map Some (map length qs)"
    if "map (parse W (up_framing u)) fs = map Some qs" "\<forall>q \<in> set qs. q \<noteq> [] \<and> length q \<le> 65536" for fs qs
    using that by (induction fs arbitrary: qs) (auto simp: frame_message_def Cons_eq_map_conv)
  have waiting: "udp_waiting W ?s = map Some (map length ps)"
    using each [OF assms(4,5)] assms(1) by (simp add: udp_waiting_def)
  have pos: "\<forall>n \<in> set (map length ps). 0 < n" using assms(5) by auto
  have clock: "be_clock ?E j + IDLE < be_clock ?E k" if "j \<le> i + length (map length ps)" "T \<le> k" for j k
    using assms(10) that by (simp add: quiet_env_def)
  show ?thesis
    using udp_source.consume_all [OF ready waiting pos assms(6-9) clock] by (simp add: take_map)
qed

end
