(* ===== verification/Bench_Life.thy ===== *)
theory Bench_Life
  imports Bench_Spec
begin

text \<open>
  A run of the benchmark tool from the command line to its end: whatever stops it, the socket it built is
  well-formed to the end, and when \<^verbatim>\<open>main\<close> returns every descriptor is closed, every mapping
  removed, and a detach of the XDP program was asked for.
\<close>

section \<open>Clients of a socket\<close>

text \<open>
  A property of the socket that the kernel and the three operations the tool uses keep is kept by all its
  loops.
\<close>

locale sock_client =
  fixes E :: "('k, 'i, 't) bench_env"
    and P :: "('i, 't) sock \<Rightarrow> bool"
  assumes kernel_keeps: "P sk \<Longrightarrow> P (be_kernel E i sk)"
    and send_keeps: "P sk \<Longrightarrow> socket_send (be_wire E) (be_stack E) t buf sk = (r, sk') \<Longrightarrow> P sk'"
    and recv_keeps: "P sk \<Longrightarrow>
      socket_recv (be_profile E) (be_wire E) (be_stack E) t buf sk = (ro, buf', sk') \<Longrightarrow> P sk'"
    and poll_keeps: "P sk \<Longrightarrow> socket_poll_connect (be_stack E) t sk = (rb, sk') \<Longrightarrow> P sk'"
begin

lemma send_all_loop_keeps:
  "P sk \<Longrightarrow> send_all_loop fuel E buf off i sk = Some (r, j, sk') \<Longrightarrow> P sk'"
proof (induction fuel arbitrary: off i sk)
  case 0
  then show ?case by simp
next
  case (Suc fuel)
  obtain r1 sk1 where s: "socket_send (be_wire E) (be_stack E) (be_clock E i) (drop off buf) (be_kernel E i sk) = (r1, sk1)"
    by fastforce
  then have "P sk1" using send_keeps kernel_keeps Suc.prems(1) by blast
  then show ?case using Suc s by (cases r1) (auto split: if_splits)
qed

lemma connect_loop_keeps:
  "P sk \<Longrightarrow> connect_loop fuel E deadline i sk = Some (r, j, sk') \<Longrightarrow> P sk'"
proof (induction fuel arbitrary: i sk)
  case 0
  then show ?case by simp
next
  case (Suc fuel)
  obtain r1 sk1 where s: "socket_poll_connect (be_stack E) (be_clock E i) (be_kernel E i sk) = (r1, sk1)"
    by fastforce
  then have "P sk1" using poll_keeps kernel_keeps Suc.prems(1) by blast
  then show ?case
    using Suc s by (auto simp: stop_context_def split: outcome.splits bool.splits if_splits)
qed

definition holds :: "('k, 'i, 't) bench_sock \<Rightarrow> bool" where
  "holds s \<longleftrightarrow> (\<exists>sk. s = Sock_Xskip sk \<and> P sk)"

lemma bench_send_all_keeps:
  "holds s \<Longrightarrow> bench_send_all fuel E buf i s = Some (r, j, s') \<Longrightarrow> holds s'"
  by (auto simp: holds_def bench_send_all_def split: option.splits)
     (blast intro: send_all_loop_keeps)

lemma bench_recv_keeps: "holds s \<Longrightarrow> bench_recv E buf i s = (r, buf', s') \<Longrightarrow> holds s'"
  by (auto simp: holds_def bench_recv_def split: prod.splits) (blast intro: recv_keeps kernel_keeps)

lemma consume_turn_keeps:
  assumes "holds (bl_sock st)" "consume_turn fuel E cfg st = Some (x, st')"
  shows "holds (bl_sock st')"
proof -
  obtain r buf s where r: "bench_recv E (bl_buf st) (bl_tick st) (bl_sock st) = (r, buf, s)"
    by (metis prod.collapse)
  let ?st = "st\<lparr>bl_buf := buf, bl_sock := s, bl_tick := Suc (bl_tick st)\<rparr>"
  have s: "holds s" using bench_recv_keeps [OF assms(1) r] .
  have e: "holds (bl_sock st2)" if "echo_back fuel E cfg n ?st = Some (r2, st2)" for n r2 st2
    using that s by (auto simp: echo_back_def split: if_splits option.splits dest: bench_send_all_keeps)
  show ?thesis
    using assms(2) r s
    by (auto simp: consume_turn_def Let_def split: sum.splits option.splits if_splits
        dest!: count_message_fields(1) count_spin_fields(1))
       (blast intro: e)+
qed

lemma consume_loop_keeps:
  "holds (bl_sock st) \<Longrightarrow> consume_loop fuel E cfg st = Some (r, st') \<Longrightarrow> holds (bl_sock st')"
  by (induction fuel arbitrary: st)
     (auto split: if_splits option.splits dest: consume_turn_keeps)

lemma bench_exchange_keeps:
  assumes "holds s" "bench_exchange fuel E b i s = Some (r, s')"
  shows "holds s'"
proof -
  have start: "bl_sock (consume_start E j s1) = s1" for j and s1 :: "('k, 'i, 't) bench_sock"
    by (simp add: consume_start_def)
  have loop: "holds (bl_sock st)" if "holds s1" "consume_loop fuel E cfg (consume_start E j s1) = Some (x, st)"
    for s1 j cfg x st
    using consume_loop_keeps [OF _ that(2)] that(1) start by simp
  show ?thesis
    using assms
    by (auto simp: bench_exchange_def Let_def split: outcome.splits option.splits sum.splits if_splits
        exit_reason.splits)
       (blast intro: bench_send_all_keeps loop)+
qed

end

section \<open>Well-formed to the end\<close>

text \<open>The kernel only ever takes steps of its own between two calls.\<close>

definition kernel_behaves :: "('k, 'i, 't) bench_env \<Rightarrow> bool" where
  "kernel_behaves E \<longleftrightarrow>
     (\<forall>i sk kr kt. sock_ok kr kt sk \<longrightarrow>
        (\<exists>s kr' kt'. kernel_step\<^sup>*\<^sup>* (plane_xsk (sk_plane sk), kr, kt) (s, kr', kt')
           \<and> be_kernel E i sk = sk\<lparr>sk_plane := set_plane_xsk s (sk_plane sk)\<rparr>))"

lemma plane_xsk_set [simp]:
  "plane_xsk (set_plane_xsk s pl) = s" "set_plane_xsk s' (set_plane_xsk s pl) = set_plane_xsk s' pl"
  "set_plane_xsk (plane_xsk pl) pl = pl"
  by (cases pl; simp add: plane_xsk_def set_plane_xsk_def)+

lemma sock_inv_kernel_steps:
  assumes "kernel_step\<^sup>*\<^sup>* (plane_xsk (sk_plane sk), kr, kt) (s, kr', kt')" "sock_inv W S rel kr kt sk"
  shows "sock_inv W S rel kr' kt' (sk\<lparr>sk_plane := set_plane_xsk s (sk_plane sk)\<rparr>)"
  using assms(1)
proof (induction "(s, kr', kt')" arbitrary: s kr' kt' rule: rtranclp_induct)
  case base
  then show ?case using assms(2) by simp
next
  case (step y)
  obtain s1 kr1 kt1 where y: "y = (s1, kr1, kt1)" by (metis prod_cases3)
  have "sock_inv W S rel kr1 kt1 (sk\<lparr>sk_plane := set_plane_xsk s1 (sk_plane sk)\<rparr>)" using step.hyps(3) [OF y] .
  from sock_inv_kernel [OF this] show ?case using step.hyps(2) y by simp
qed

definition alive :: "('k, 'i, 't) bench_env \<Rightarrow> os_event list \<Rightarrow> ('i, 't) sock \<Rightarrow> bool" where
  "alive E rel sk \<longleftrightarrow> (\<exists>kr kt. sock_inv (be_wire E) (be_stack E) rel kr kt sk)"

lemma alive_kernel: "kernel_behaves E \<Longrightarrow> alive E rel sk \<Longrightarrow> alive E rel (be_kernel E i sk)"
proof -
  assume "kernel_behaves E" "alive E rel sk"
  then obtain kr kt s kr' kt' where "sock_inv (be_wire E) (be_stack E) rel kr kt sk"
    "kernel_step\<^sup>*\<^sup>* (plane_xsk (sk_plane sk), kr, kt) (s, kr', kt')"
    "be_kernel E i sk = sk\<lparr>sk_plane := set_plane_xsk s (sk_plane sk)\<rparr>"
    unfolding kernel_behaves_def alive_def sock_inv_def by meson
  then show ?thesis unfolding alive_def using sock_inv_kernel_steps by metis
qed

interpretation bench_client: sock_client E "\<lambda>sk. kernel_behaves E \<longrightarrow> alive E rel sk"
  for E rel
proof unfold_locales
  show "kernel_behaves E \<longrightarrow> alive E rel (be_kernel E i sk)" if "kernel_behaves E \<longrightarrow> alive E rel sk" for sk i
    using that alive_kernel by blast
  show "kernel_behaves E \<longrightarrow> alive E rel sk'"
    if "kernel_behaves E \<longrightarrow> alive E rel sk" "socket_send (be_wire E) (be_stack E) t buf sk = (r, sk')" for sk t buf r sk'
    using that sock_inv_send unfolding alive_def by blast
  show "kernel_behaves E \<longrightarrow> alive E rel sk'"
    if "kernel_behaves E \<longrightarrow> alive E rel sk"
      "socket_recv (be_profile E) (be_wire E) (be_stack E) t buf sk = (ro, buf', sk')" for sk t buf ro buf' sk'
    using that sock_inv_recv unfolding alive_def by blast
  show "kernel_behaves E \<longrightarrow> alive E rel sk'"
    if "kernel_behaves E \<longrightarrow> alive E rel sk" "socket_poll_connect (be_stack E) t sk = (rb, sk')" for sk t rb sk'
    using that sock_inv_poll_connect unfolding alive_def by blast
qed

lemma alive_drop: "alive E rel sk \<Longrightarrow> snd (socket_drop maps sk) = rel"
  by (auto simp: alive_def sock_inv_def sock_releases_def socket_drop_def Let_def)

lemma alive_connect:
  "alive E rel sk \<Longrightarrow> socket_connect (be_stack E) t err remote maps sk = (r, maps', sk') \<Longrightarrow> alive E rel sk'"
  unfolding alive_def using sock_inv_connect by blast

section \<open>What a run leaves behind\<close>

lemma xskip_connect_stops:
  assumes "kernel_behaves E" "alive E rel sk" "xskip_connect fuel E A peer maps sk = Some (r, maps', l)"
  shows "(\<exists>e. r = Inl e \<and> l = rel) \<or> (\<exists>sk' i. r = Inr (sk', i) \<and> l = [] \<and> alive E rel sk')"
proof -
  obtain r1 maps1 sk1 where c: "socket_connect (be_stack E) (be_clock E 0) (su_flow_err A) peer maps sk = (r1, maps1, sk1)"
    by (metis prod_cases3)
  note a1 = alive_connect [OF assms(2) c]
  show ?thesis
  proof (cases "stop_context ''connect'' r1")
    case (Inl e)
    then have "r = Inl e \<and> l = snd (socket_drop maps1 sk1)"
      using assms(3) c by (auto simp: xskip_connect_def)
    then show ?thesis using alive_drop [OF a1] by simp
  next
    case (Inr v)
    obtain r2 i sk2 where l: "connect_loop fuel E (be_clock E 1 + CONNECT_TIMEOUT) 1 sk1 = Some (r2, i, sk2)"
      using assms(3) c Inr by (auto simp: xskip_connect_def split: option.splits)
    have a2: "alive E rel sk2"
      using bench_client.connect_loop_keeps [OF _ l, where rel = rel] a1 assms(1) by blast
    have "(\<exists>e. r = Inl e \<and> l = snd (socket_drop maps1 sk2)) \<or> (r = Inr (sk2, i) \<and> l = [])"
      using assms(3) c Inr l by (auto simp: xskip_connect_def split: sum.splits)
    then show ?thesis using alive_drop [OF a2] a2 by auto
  qed
qed

subsection \<open>The attachment\<close>

text \<open>
  The program on each XDP hook, an interface and a mode: an attachment of \<open>p\<close> replaces what was there, a detach
  that the system accepts empties the hook, and one that it refuses leaves it alone.
\<close>

primrec xdp_hooks :: "'p \<Rightarrow> os_event list \<Rightarrow> (int \<times> bool \<rightharpoonup> 'p) \<Rightarrow> (int \<times> bool \<rightharpoonup> 'p)" where
  "xdp_hooks p [] H = H"
| "xdp_hooks p (e # es) H =
     xdp_hooks p es
       (case e of
          Attached i n \<Rightarrow> H((i, n) \<mapsto> p)
        | Detach i n answer \<Rightarrow> if answer = None then H((i, n) := None) else H
        | _ \<Rightarrow> H)"

lemma xdp_hooks_append [simp]: "xdp_hooks p (xs @ ys) H = xdp_hooks p ys (xdp_hooks p xs H)"
  by (induction xs arbitrary: H) simp_all

definition no_xdp :: "os_event list \<Rightarrow> bool" where
  "no_xdp l \<longleftrightarrow> (\<forall>i n a. Attached i n \<notin> set l \<and> Detach i n a \<notin> set l)"

lemma no_xdp_simps [simp]:
  "no_xdp []" "no_xdp (xs @ ys) \<longleftrightarrow> no_xdp xs \<and> no_xdp ys"
  "no_xdp (e # es) \<longleftrightarrow> (\<forall>i n a. e \<noteq> Attached i n \<and> e \<noteq> Detach i n a) \<and> no_xdp es"
  by (auto simp: no_xdp_def)

lemma xdp_hooks_none: "no_xdp l \<Longrightarrow> xdp_hooks p l H = H"
  by (induction l arbitrary: H) (auto split: os_event.split)

lemma no_xdp_drops [simp]: "no_xdp (ring_drop r)" "no_xdp (xsk_drop s)" "no_xdp (port_drop q)"
  by (simp_all add: ring_drop_def xsk_drop_def port_drop_def)

lemma no_xdp_socket_drop [simp]: "no_xdp (snd (socket_drop maps sk))"
  by (simp add: socket_drop_def Let_def)

lemma no_xdp_map_umem: "map_umem mmap n h = (r, l) \<Longrightarrow> no_xdp l"
  by (auto simp: map_umem_def Let_def split: option.splits if_splits sum.splits)

lemma no_xdp_ring_map: "ring_map os name off sz el z = (r, l) \<Longrightarrow> no_xdp l"
  by (auto simp: ring_map_def Let_def split: sum.splits prod.splits)

lemma no_xdp_map_rings: "map_rings os off = (r, l) \<Longrightarrow> no_xdp l"
  by (auto simp: map_rings_def split: prod.splits outcome.splits dest!: no_xdp_ring_map)

lemma no_xdp_xsk_build: "xsk_build p os ifx q mode s = (r, l) \<Longrightarrow> no_xdp l"
proof -
  have "bind_attempts os ifx q as e s = (r, l) \<Longrightarrow> no_xdp l" for as e s
    by (induction as arbitrary: e) (auto simp: Let_def split: option.splits)
  then show "xsk_build p os ifx q mode s = (r, l) \<Longrightarrow> no_xdp l"
    by (auto simp: xsk_build_def split: outcome.splits)
qed

lemma no_xdp_xsk_new: "xsk_new p os ifx q mtu h mode = (r, l) \<Longrightarrow> no_xdp l"
  by (auto simp: xsk_new_def Let_def split: outcome.splits sum.splits prod.splits
      dest!: no_xdp_map_umem no_xdp_map_rings no_xdp_xsk_build)

lemma no_xdp_port_take: "port_take os proto = (r, l) \<Longrightarrow> no_xdp l"
  by (auto simp: port_take_def split: sum.splits option.splits)

lemma no_xdp_socket_new: "socket_new p S w proto cfg maps = (r, maps', l) \<Longrightarrow> no_xdp l"
  by (auto simp: socket_new_def Let_def split: if_splits outcome.splits sum.splits prod.splits
      dest!: no_xdp_xsk_new no_xdp_port_take)

lemma attach_xdp_Ok:
  "attach_xdp att ifx = (Ok a, l) \<Longrightarrow>
     l = [Attached (sint (xa_ifindex a)) (xa_native a)] \<and> xa_ifindex a = ifx \<and> att (xa_native a) = None"
  by (auto simp: attach_xdp_def split: option.splits)

lemma attach_xdp_not_Ok: "attach_xdp att ifx = (r, l) \<Longrightarrow> \<nexists>a. r = Ok a \<Longrightarrow> l = []"
  by (auto simp: attach_xdp_def split: option.splits)

lemma xskip_connect_no_xdp:
  assumes "xskip_connect fuel E A peer maps sk = Some (r, maps', l)"
  shows "no_xdp l"
  using assms
  by (auto simp: xskip_connect_def split: prod.splits sum.splits option.splits)
     (metis snd_conv no_xdp_socket_drop)+

lemma stop_context_Inr: "stop_context ctx r = Inr x \<longleftrightarrow> r = Ok x"
  by (cases r) (simp_all add: stop_context_def)

lemma stop_context_Inl: "stop_context ctx r = Inl e \<Longrightarrow> \<nexists>x. r = Ok x"
  by (cases r) (simp_all add: stop_context_def)

text \<open>How a setup went, one stage after the other.\<close>

lemma xskip_setup_cases:
  assumes "xskip_setup fuel E A b = Some (r, l)"
  obtains e where "r = Inl e" "l = []"
  | idx our_mac mtu maps xdp la rn maps' ln e where
      "xskip_probe A (bo_ifname b) = Inr (idx, our_mac, mtu, maps)" "attach_xdp (su_attach A) idx = (Ok xdp, la)"
      "socket_new (be_profile E) (be_stack E) (su_world A) (bo_proto b) (bench_config b idx our_mac mtu) maps
         = (rn, maps', ln)" "\<nexists>sk. rn = Ok sk" "r = Inl e" "l = la @ ln @ attachment_drop (su_detach A) xdp"
  | idx our_mac mtu maps xdp la sk maps' ln rc maps'' lc where
      "xskip_probe A (bo_ifname b) = Inr (idx, our_mac, mtu, maps)" "attach_xdp (su_attach A) idx = (Ok xdp, la)"
      "socket_new (be_profile E) (be_stack E) (su_world A) (bo_proto b) (bench_config b idx our_mac mtu) maps
         = (Ok sk, maps', ln)" "xskip_connect fuel E A (bo_peer b) maps' sk = Some (rc, maps'', lc)"
      "(\<exists>e. rc = Inl e \<and> r = Inl e \<and> l = la @ ln @ lc @ attachment_drop (su_detach A) xdp)
       \<or> (\<exists>sk' i. rc = Inr (sk', i) \<and> r = Inr (sk', xdp, i, maps'') \<and> l = la @ ln @ lc)"
proof (cases "xskip_probe A (bo_ifname b)")
  case (Inl e)
  then show thesis using assms by (intro that(1)) (auto simp: xskip_setup_def)
next
  case (Inr probe)
  obtain idx our_mac mtu maps where probe: "probe = (idx, our_mac, mtu, maps)" by (metis prod_cases4)
  obtain ra la where a: "attach_xdp (su_attach A) idx = (ra, la)" by fastforce
  obtain rn maps' ln where n: "socket_new (be_profile E) (be_stack E) (su_world A) (bo_proto b)
      (bench_config b idx our_mac mtu) maps = (rn, maps', ln)" by (metis prod_cases3)
  show thesis
  proof (cases "stop_context ''attach xdp'' ra")
    case (Inl e)
    then have "la = []" using attach_xdp_not_Ok [OF a] stop_context_Inl by blast
    then show thesis
      using assms Inr probe a Inl by (intro that(1)) (auto simp: xskip_setup_def)
  next
    case (Inr xdp)
    note at = Inr
    have ra: "ra = Ok xdp" using at by (simp add: stop_context_Inr)
    show thesis
    proof (cases "stop_context ''create xskip socket'' rn")
      case (Inl e)
      then show thesis
        using assms \<open>xskip_probe A (bo_ifname b) = Inr probe\<close> probe a ra at n stop_context_Inl [OF Inl]
        by (intro that(2)) (auto simp: xskip_setup_def)
    next
      case (Inr sk)
      obtain rc maps'' lc where c: "xskip_connect fuel E A (bo_peer b) maps' sk = Some (rc, maps'', lc)"
        using assms \<open>xskip_probe A (bo_ifname b) = Inr probe\<close> probe a at n Inr
        by (auto simp: xskip_setup_def split: option.splits)
      have "rn = Ok sk" using Inr by (simp add: stop_context_Inr)
      then show thesis
        using assms \<open>xskip_probe A (bo_ifname b) = Inr probe\<close> probe a ra at n Inr c
        by (intro that(3)) (auto simp: xskip_setup_def split: sum.splits)
    qed
  qed
qed

text \<open>
  The calls of a run that concern the attachment: none, or one attach, on the interface asked for and in a mode
  the system accepted, first of all, and one detach on the same hook last of all.
\<close>

definition attached_run :: "setup_answers \<Rightarrow> string \<Rightarrow> int \<Rightarrow> bool \<Rightarrow> os_event list \<Rightarrow> bool" where
  "attached_run A ifname i n l \<longleftrightarrow>
     (\<exists>idx l'. ifindex (su_nametoindex A) ifname = Ok idx \<and> i = sint idx \<and> su_attach A n = None
        \<and> l = Attached i n # l' \<and> no_xdp l')"

lemma probe_ifindex: "xskip_probe A ifname = Inr (idx, our_mac, mtu, maps) \<Longrightarrow> ifindex (su_nametoindex A) ifname = Ok idx"
  by (auto simp: xskip_probe_def bind_sum_Inr stop_context_Inr)

lemma attached_runI:
  assumes "xskip_probe A ifname = Inr (idx, our_mac, mtu, maps)" "attach_xdp (su_attach A) idx = (Ok xdp, la)" "no_xdp l"
  shows "attached_run A ifname (sint (xa_ifindex xdp)) (xa_native xdp) (la @ l)"
  using probe_ifindex [OF assms(1)] attach_xdp_Ok [OF assms(2)] assms(3) by (auto simp: attached_run_def)

lemma xskip_setup_xdp:
  assumes "xskip_setup fuel E A b = Some (r, l)"
  shows "(l = [] \<and> isl r)
    \<or> (\<exists>xdp l'. let i = sint (xa_ifindex xdp); n = xa_native xdp
         in attached_run A (bo_ifname b) i n l'
            \<and> (case r of Inl _ \<Rightarrow> l = l' @ [Detach i n (su_detach A n)] | Inr (_, a, _) \<Rightarrow> a = xdp \<and> l = l'))"
  using assms
proof (cases rule: xskip_setup_cases)
  case (2 idx our_mac mtu maps xdp la rn maps' ln e)
  then show ?thesis
    using attached_runI [OF 2(1,2) no_xdp_socket_new [OF 2(3)]]
    by (intro disjI2 exI [of _ xdp] exI [of _ "la @ ln"]) (simp add: attachment_drop_def Let_def)
next
  case (3 idx our_mac mtu maps xdp la sk maps' ln rc maps'' lc)
  then show ?thesis
    using attached_runI [OF 3(1,2), of "ln @ lc"] no_xdp_socket_new [OF 3(3)] xskip_connect_no_xdp [OF 3(4)]
    by (intro disjI2 exI [of _ xdp] exI [of _ "la @ ln @ lc"]) (auto simp: attachment_drop_def Let_def)
qed simp

lemma bench_run_detaches:
  assumes "bench_run fuel E A b = Some (r, log)"
  shows "log = [] \<or> (\<exists>i n l. attached_run A (bo_ifname b) i n l \<and> log = l @ [Detach i n (su_detach A n)])"
proof (cases "bo_stack b = ''xskip''")
  case False
  then show ?thesis
    using assms by (auto simp: bench_run_def split: if_splits sum.splits option.splits)
next
  case True
  obtain rs l where s: "xskip_setup fuel E A b = Some (rs, l)"
    using assms True by (auto simp: bench_run_def split: option.splits)
  from xskip_setup_xdp [OF s] show ?thesis
  proof (elim disjE conjE exE)
    assume "l = []" "isl rs"
    then show ?thesis using assms True s by (auto simp: bench_run_def isl_def)
  next
    fix xdp :: xdp_attachment and l'
    let ?i = "sint (xa_ifindex xdp)" and ?n = "xa_native xdp"
    assume "let i = ?i; n = ?n in attached_run A (bo_ifname b) i n l'
      \<and> (case rs of Inl _ \<Rightarrow> l = l' @ [Detach i n (su_detach A n)] | Inr (_, a, _) \<Rightarrow> a = xdp \<and> l = l')"
    then have a: "attached_run A (bo_ifname b) ?i ?n l'"
      and l: "case rs of Inl _ \<Rightarrow> l = l' @ [Detach ?i ?n (su_detach A ?n)] | Inr (_, a, _) \<Rightarrow> a = xdp \<and> l = l'"
      by (simp_all add: Let_def)
    have more: "attached_run A (bo_ifname b) ?i ?n (l' @ l2)" if "no_xdp l2" for l2
      using a that by (auto simp: attached_run_def)
    have "\<exists>l2. no_xdp l2 \<and> log = (l' @ l2) @ [Detach ?i ?n (su_detach A ?n)]"
    proof (cases rs)
      case (Inl e)
      then show ?thesis using assms True s l by (intro exI [of _ "[]"]) (simp add: bench_run_def)
    next
      case (Inr x)
      obtain sk i maps where x: "x = (sk, xdp, i, maps)" "l = l'" using l Inr by (auto split: prod.splits)
      then show ?thesis
        using assms True s Inr
        by (auto simp: bench_run_def attachment_drop_def split: option.splits bench_sock.splits)
    qed
    then show ?thesis using more by blast
  qed
qed

text \<open>A call of \<^verbatim>\<open>main\<close> acquires nothing before its run.\<close>

lemma bench_main_cases:
  assumes "bench_main fuel E A args = Some (r, log)"
  shows "log = [] \<or> (\<exists>b. bind_sum (parse_args args) bench_options_of = Inr b \<and> bench_run fuel E A b = Some (r, log))"
  using assms by (auto simp: bench_main_def split: sum.splits)

text \<open>What the scheduler answers changes nothing: pinning is best effort.\<close>

lemma pinning_best_effort:
  "bench_main fuel E (A\<lparr>su_cpu := C\<lparr>cp_setaffinity := f\<rparr>\<rparr>) args =
   bench_main fuel E (A\<lparr>su_cpu := C\<lparr>cp_setaffinity := g\<rparr>\<rparr>) args"
proof -
  have xs: "xskip_setup fuel E (A\<lparr>su_cpu := c\<rparr>) = xskip_setup fuel E A" for c
    by (rule ext, cases A)
       (simp only: xskip_setup_def xskip_probe_def xskip_connect_def setup_answers.select_convs
         setup_answers.update_convs)
  have detach: "su_detach (A\<lparr>su_cpu := c\<rparr>) = su_detach A" for c by simp
  have run: "bench_run fuel E (A\<lparr>su_cpu := c\<rparr>) = bench_run fuel E A" for c
    by (rule ext) (simp only: bench_run_def xs detach)
  show ?thesis
  proof (cases "bind_sum (parse_args args) bench_options_of")
    case (Inr b)
    then show ?thesis
      by (cases "cp_set C (bo_cpu b) (cp_zero C (replicate 16 0))")
         (simp_all add: bench_main_def pin_cpu_def Let_def stop_context_def run)
  qed (simp add: bench_main_def)
qed

text \<open>
  C35.  The tool gives back the hook it attached to, as far as the system lets it.  Whatever the arguments are and
  whatever the system answers, when \<^verbatim>\<open>main\<close> returns, with a report or an error, either it has touched no XDP hook,
  or it attached once, first of all, on the interface asked for and in a mode the system accepted, and called for a
  detach of that hook once, last of all.  If the system accepts the detach the hook is empty: what was
  attached there before the run is not restored.  If it refuses, the answer is ignored and the program stays.  All
  other hooks are as they were.
\<close>

theorem bench_main_detaches:
  assumes "bench_main fuel E A args = Some (r, log)"
  shows "(no_xdp log \<and> xdp_hooks p log H = H)
    \<or> (\<exists>b i n l. bind_sum (parse_args args) bench_options_of = Inr b \<and> attached_run A (bo_ifname b) i n l
         \<and> log = l @ [Detach i n (su_detach A n)]
         \<and> xdp_hooks p log H = H((i, n) := (if su_detach A n = None then None else Some p)))"
proof -
  have hooks: "xdp_hooks p (l @ [Detach i n a]) H = H((i, n) := (if a = None then None else Some p))"
    if "attached_run A ifname i n l" for ifname i n l a
    using that by (auto simp: attached_run_def xdp_hooks_none)
  from bench_main_cases [OF assms] show ?thesis
  proof (elim disjE exE conjE)
    fix b
    assume b: "bind_sum (parse_args args) bench_options_of = Inr b" "bench_run fuel E A b = Some (r, log)"
    from bench_run_detaches [OF b(2)] show ?thesis
    proof (elim disjE exE conjE)
      fix i n l
      assume "attached_run A (bo_ifname b) i n l" "log = l @ [Detach i n (su_detach A n)]"
      then show ?thesis using b(1) hooks by blast
    qed simp
  qed simp
qed

subsection \<open>Descriptors and mappings\<close>

lemma live_attach:
  "attach_xdp att ifx = (Ok a, l) \<Longrightarrow> live_fds l fds = fds \<and> live_maps l mps = mps"
  "live_fds (attachment_drop det a) fds = fds" "live_maps (attachment_drop det a) mps = mps"
  by (auto simp: attachment_drop_def dest!: attach_xdp_Ok)

lemma parse_mac_length: "parse_mac s = Inr mac \<Longrightarrow> length mac = 6"
  by (auto simp: parse_mac_eq Let_def split: if_splits)

lemma probe_mac: "xskip_probe A ifname = Inr (idx, our_mac, mtu, maps) \<Longrightarrow> length our_mac = 6"
  by (auto simp: xskip_probe_def bind_sum_Inr stop_context_Inr read_mac_def parse_mac_length split: sum.splits)

lemma options_mac: "bench_options_of m = Inr b \<Longrightarrow> length (bo_peer_mac b) = 6"
  by (auto simp: bench_options_of_def option_reads parse_mac_length split: if_splits)

lemma xskip_run_log:
  assumes "bo_stack b = ''xskip''"
    "xskip_probe A (bo_ifname b) = Inr (idx, our_mac, mtu, maps)"
    "attach_xdp (su_attach A) idx = (Ok xdp, la)"
    "socket_new (be_profile E) (be_stack E) (su_world A) (bo_proto b) (bench_config b idx our_mac mtu) maps
       = (Ok sk, maps', ln)"
    "kernel_behaves E" "alive E rel sk" "bench_run fuel E A b = Some (r, log)"
  shows "log = la @ ln @ rel @ attachment_drop (su_detach A) xdp"
proof -
  obtain rs l where s: "xskip_setup fuel E A b = Some (rs, l)"
    using assms(1,7) by (auto simp: bench_run_def split: option.splits)
  obtain rc maps'' lc where c: "xskip_connect fuel E A (bo_peer b) maps' sk = Some (rc, maps'', lc)"
    and rs: "(\<exists>e. rc = Inl e \<and> rs = Inl e \<and> l = la @ ln @ lc @ attachment_drop (su_detach A) xdp)
       \<or> (\<exists>sk' i. rc = Inr (sk', i) \<and> rs = Inr (sk', xdp, i, maps'') \<and> l = la @ ln @ lc)"
    using s assms(2-4)
    by (auto simp: xskip_setup_def stop_context_def split: option.splits sum.splits prod.splits)
  from xskip_connect_stops [OF assms(5,6) c] show ?thesis
  proof (elim disjE exE conjE)
    fix e
    assume "rc = Inl e" "lc = rel"
    then show ?thesis using rs assms(1,7) s by (auto simp: bench_run_def)
  next
    fix sk1 i
    assume sk1: "rc = Inr (sk1, i)" "lc = []" "alive E rel sk1"
    then have rs: "rs = Inr (sk1, xdp, i, maps'')" "l = la @ ln" using rs by auto
    obtain sk2 where x: "bench_exchange fuel E b i (Sock_Xskip sk1) = Some (r, Sock_Xskip sk2)"
      and log: "log = l @ snd (socket_drop maps'' sk2) @ attachment_drop (su_detach A) xdp"
      using assms(1,7) s rs(1) by (auto simp: bench_run_def split: option.splits bench_sock.splits)
    have "bench_client.holds E rel (Sock_Xskip sk1)"
      using sk1(3) by (simp add: bench_client.holds_def)
    from bench_client.bench_exchange_keeps [OF this x] have "alive E rel sk2"
      using assms(5) unfolding bench_client.holds_def by simp
    then show ?thesis using log rs(2) alive_drop by simp
  qed
qed

text \<open>
  C16.  Once the socket is built, a run of the tool releases everything.  If the kernel only takes steps
  of its own and the libraries obey their laws, then however the run goes on, through a refused connect, a
  handshake that times out, errors and panics of the loops or a full report, when \<^verbatim>\<open>main\<close> returns every
  descriptor and every mapping it acquired is released.
\<close>

theorem bench_main_releases:
  assumes "bind_sum (parse_args args) bench_options_of = Inr b" and "bo_stack b = ''xskip''"
    and "xskip_probe A (bo_ifname b) = Inr (idx, our_mac, mtu, maps)"
    and "attach_xdp (su_attach A) idx = (Ok xdp, la)"
    and "socket_new (be_profile E) (be_stack E) (su_world A) (bo_proto b) (bench_config b idx our_mac mtu) maps
       = (Ok sk, maps', ln)"
    and "rings_zeroed (w_xsk (su_world A))" and "mmap_nonnull (w_xsk (su_world A))"
    and "ETH_HDR_LEN + mtu \<le> 2 ^ 63" and "os_page_size (w_xsk (su_world A)) < 2 ^ 32"
    and "env_ok (be_wire E) (be_stack E) mtu" and "kernel_behaves E"
    and "bench_main fuel E A args = Some (r, log)"
  shows "live_fds log fds = fds \<and> live_maps log mps = mps"
proof -
  have macs: "length our_mac = 6" "length (bo_peer_mac b) = 6"
    using probe_mac [OF assms(3)] options_mac assms(1) by (auto simp: bind_sum_Inr)
  let ?cfg = "bench_config b idx our_mac mtu"
  have cfg: "cfg_mtu ?cfg = mtu" "cfg_our_mac ?cfg = our_mac" "cfg_peer_mac ?cfg = bo_peer_mac b"
    by (simp_all add: bench_config_def)
  note new = socket_new_inv [where cfg = ?cfg, unfolded cfg, OF assms(6-9) macs assms(10,5)]
  from bench_main_cases [OF assms(12)] show ?thesis
  proof (elim disjE exE conjE)
    fix b'
    assume "bind_sum (parse_args args) bench_options_of = Inr b'" "bench_run fuel E A b' = Some (r, log)"
    then have run: "bench_run fuel E A b = Some (r, log)" using assms(1) by simp
    have "log = la @ ln @ sock_releases sk @ attachment_drop (su_detach A) xdp"
      by (rule xskip_run_log [OF assms(2-5,11) _ run]) (use new(1) in \<open>auto simp: alive_def\<close>)
    then show ?thesis
      using new(2,3) live_attach(1) [OF assms(4)] by (simp add: live_attach(2,3))
  qed simp
qed

end
