(* ===== verification/Bench_Send.thy ===== *)
theory Bench_Send
  imports Bench_Life
begin

text \<open>
  \<^verbatim>\<open>Sock::send_all\<close> over a TCP socket of the library: when it returns, exactly the buffer was handed to the stack; that
  it returns at all depends on the stack taking something now and then, and after a reset it does not.
\<close>

section \<open>Results of a poll\<close>

text \<open>A property of whatever a program of device calls can end with.\<close>

primrec all_results :: "('a \<Rightarrow> bool) \<Rightarrow> 'a device_prog \<Rightarrow> bool" where
  "all_results P (Finish x) \<longleftrightarrow> P x"
| "all_results P (Receive idle reply next) \<longleftrightarrow> all_results P idle \<and> (\<forall>p. all_results P (next p))"
| "all_results P (Transmit idle req next) \<longleftrightarrow> all_results P idle \<and> all_results P next"

lemma bind_outcome_eq_Err_iff: "bind_outcome r f = Err e \<longleftrightarrow> r = Err e \<or> (\<exists>x. r = Ok x \<and> f x = Err e)"
  by (cases r) auto

lemma drive_result:
  "all_results P prog \<Longrightarrow> drive take_rx done_rx offer_tx send_tx prog s = Ok (x, s') \<Longrightarrow> P x"
proof (induction prog arbitrary: s)
  case (Receive idle reply more)
  then show ?case
    by (auto simp: bind_outcome_eq_Ok_iff split: prod.splits option.splits) (blast+)
next
  case (Transmit idle req more)
  then show ?case by (auto simp: bind_outcome_eq_Ok_iff split: if_splits)
qed simp

lemma drive_no_Err:
  assumes "\<And>req s e. send_tx req s \<noteq> Err e"
  shows "drive take_rx done_rx offer_tx send_tx prog s \<noteq> Err e"
proof (induction prog arbitrary: s)
  case (Receive idle reply more)
  then show ?case using assms by (auto simp: bind_outcome_eq_Err_iff split: prod.splits option.splits)
next
  case (Transmit idle req more)
  then show ?case using assms by (auto simp: bind_outcome_eq_Err_iff)
qed simp

lemma tcp_poll_result:
  assumes "tcp_poll S reading p = Ok p'" "\<And>now i. all_results (\<lambda>(i, t). Q t) (sm_poll S now i (tp_socket p))"
  shows "Q (tp_socket p')"
proof -
  obtain now p1 where n: "tcp_now reading p = (now, p1)" by fastforce
  obtain i t s where d: "drive device_receive rx_token_done device_transmit (tx_token_consume (tp_device p1))
      (sm_poll S now (tp_iface p1) (tp_socket p1)) (tp_xsk p1) = Ok ((i, t), s)" "tp_socket p' = t"
    using assms(1) n by (auto simp: tcp_poll_def bind_outcome_eq_Ok_iff)
  from drive_result [OF _ d(1), of "\<lambda>(i, t). Q t"] show ?thesis
    using assms(2) tcp_now_fields(4) [OF n] d(2) by simp
qed

lemma tx_token_no_Err: "tx_token_consume d req s \<noteq> Err e"
  by (auto simp: tx_token_consume_def Let_def split: prod.splits option.splits)

lemma tcp_poll_no_Err: "tcp_poll S reading p \<noteq> Err e"
  by (auto simp: tcp_poll_def bind_outcome_eq_Err_iff drive_no_Err [OF tx_token_no_Err] split: prod.splits)

section \<open>The stream of a socket\<close>

text \<open>
  \<open>queued t\<close> is the byte stream a socket of the stack has accepted so far (as in \<^const>\<open>send_slice_laws\<close>); polling sends
  from it and adds nothing to it.
\<close>

definition poll_keeps_stream :: "('i, 't) smoltcp \<Rightarrow> ('t \<Rightarrow> bytes) \<Rightarrow> bool" where
  "poll_keeps_stream S queued \<longleftrightarrow>
     (\<forall>now i t. all_results (\<lambda>(i', t'). queued t' = queued t) (sm_poll S now i t))"

definition stream_of :: "('t \<Rightarrow> bytes) \<Rightarrow> ('i, 't) sock \<Rightarrow> bytes option" where
  "stream_of queued sk = (case sk_plane sk of Plane_Tcp p \<Rightarrow> Some (queued (tp_socket p)) | Plane_Udp _ \<Rightarrow> None)"

text \<open>What the kernel does between two calls concerns the rings only.\<close>

definition kernel_keeps_sockets :: "('k, 'i, 't) bench_env \<Rightarrow> bool" where
  "kernel_keeps_sockets E \<longleftrightarrow>
     (\<forall>i sk. \<exists>s. be_kernel E i sk = sk\<lparr>sk_plane := set_plane_xsk s (sk_plane sk)\<rparr>)"

lemma kernel_keeps_stream:
  assumes "kernel_keeps_sockets E"
  shows "stream_of queued (be_kernel E i sk) = stream_of queued sk" "sk_connected (be_kernel E i sk) = sk_connected sk"
proof -
  obtain s where "be_kernel E i sk = sk\<lparr>sk_plane := set_plane_xsk s (sk_plane sk)\<rparr>"
    using assms by (auto simp: kernel_keeps_sockets_def)
  then show "stream_of queued (be_kernel E i sk) = stream_of queued sk" "sk_connected (be_kernel E i sk) = sk_connected sk"
    by (simp_all add: stream_of_def set_plane_xsk_def split: plane.split)
qed

text \<open>One call hands over a prefix.\<close>

lemma socket_send_stream:
  assumes "send_slice_laws S queued" "poll_keeps_stream S queued" "sk_connected sk" "stream_of queued sk = Some xs"
    "data \<noteq> []" "socket_send W S reading data sk = (r, sk')"
  shows "sk_connected sk'
    \<and> (case r of Ok n \<Rightarrow> n \<le> length data \<and> stream_of queued sk' = Some (xs @ take n data) | Err _ \<Rightarrow> False | Panic _ \<Rightarrow> True)"
proof -
  obtain p where p: "sk_plane sk = Plane_Tcp p" "xs = queued (tp_socket p)"
    using assms(4) by (auto simp: stream_of_def split: plane.splits)
  obtain n t where l: "send_loop S data 0 (tp_socket p) = (Ok n, t)" "n \<le> length data" "queued t = xs @ take n data"
    using send_loop_stream [OF assms(1), of 0 data "tp_socket p"] p(2) by auto
  have kept: "queued (tp_socket p') = queued t" if "tcp_poll S reading (p\<lparr>tp_socket := t\<rparr>) = Ok p'" for p'
    by (rule tcp_poll_result [OF that]) (use assms(2) in \<open>simp add: poll_keeps_stream_def\<close>)
  show ?thesis
    using assms(3,5,6) p(1) l kept tcp_poll_no_Err [of S reading "p\<lparr>tp_socket := t\<rparr>"]
    by (cases "tcp_poll S reading (p\<lparr>tp_socket := t\<rparr>)")
       (auto simp: socket_send_def tcp_send_def Let_def stream_of_def)
qed

lemma send_all_loop_stream:
  assumes laws: "send_slice_laws (be_stack E) queued" "poll_keeps_stream (be_stack E) queued" "kernel_keeps_sockets E"
    and "sk_connected sk" "stream_of queued sk = Some (xs @ take off buf)" "off \<le> length buf"
    and "send_all_loop fuel E buf off i sk = Some (r, j, sk')"
  shows "case r of Ok _ \<Rightarrow> stream_of queued sk' = Some (xs @ buf) | Err _ \<Rightarrow> False | Panic _ \<Rightarrow> True"
  using assms(4-)
proof (induction fuel arbitrary: off i sk)
  case (Suc fuel)
  show ?case
  proof (cases "off < length buf")
    case True
    obtain r1 sk1 where s: "socket_send (be_wire E) (be_stack E) (be_clock E i) (drop off buf) (be_kernel E i sk) = (r1, sk1)"
      by fastforce
    have "sk_connected (be_kernel E i sk)" "stream_of queued (be_kernel E i sk) = Some (xs @ take off buf)"
      using Suc.prems(1,2) by (simp_all add: kernel_keeps_stream [OF laws(3)])
    note one = socket_send_stream [OF laws(1,2) this _ s]
    show ?thesis
    proof (cases r1)
      case (Ok n)
      have "xs @ take off buf @ take n (drop off buf) = xs @ take (off + n) buf" by (simp add: take_add)
      moreover have "off + n \<le> length buf" using one True Ok by auto
      ultimately show ?thesis using Suc.IH [of sk1 "off + n" "Suc i"] Suc.prems(4) one True s Ok by simp
    next
      case (Err e)
      then show ?thesis using one True by simp
    next
      case (Panic q)
      then show ?thesis using Suc.prems(4) s True by auto
    qed
  next
    case False
    then show ?thesis using Suc.prems by auto
  qed
qed simp

section \<open>Whether it returns\<close>

text \<open>
  The stack takes nothing at most \<open>K\<close> times in a row: \<open>wait\<close> says how often it may still do so, and falls with every call
  that hands over nothing.
\<close>

definition takes_within ::
  "('k, 'i, 't) bench_env \<Rightarrow> ('t \<Rightarrow> bytes) \<Rightarrow> nat \<Rightarrow> (nat \<Rightarrow> ('i, 't) sock \<Rightarrow> nat) \<Rightarrow> bool" where
  "takes_within E queued K wait \<longleftrightarrow>
     (\<forall>i sk. wait i sk \<le> K)
     \<and> (\<forall>i sk data sk'. data \<noteq> [] \<and> sk_connected sk \<and> stream_of queued sk \<noteq> None
          \<and> socket_send (be_wire E) (be_stack E) (be_clock E i) data (be_kernel E i sk) = (Ok 0, sk')
        \<longrightarrow> wait (Suc i) sk' < wait i sk)"

lemma send_all_loop_returns:
  assumes laws: "send_slice_laws (be_stack E) queued" "poll_keeps_stream (be_stack E) queued" "kernel_keeps_sockets E"
    and takes: "takes_within E queued K wait"
    and "sk_connected sk" "stream_of queued sk \<noteq> None" "(length buf - off) * Suc K + wait i sk < fuel"
  shows "send_all_loop fuel E buf off i sk \<noteq> None"
  using assms(5-)
proof (induction fuel arbitrary: off i sk)
  case (Suc fuel)
  show ?case
  proof (cases "off < length buf")
    case True
    obtain r1 sk1 where s: "socket_send (be_wire E) (be_stack E) (be_clock E i) (drop off buf) (be_kernel E i sk) = (r1, sk1)"
      by fastforce
    obtain xs where "sk_connected (be_kernel E i sk)" "stream_of queued (be_kernel E i sk) = Some xs"
      using Suc.prems(1,2) by (auto simp: kernel_keeps_stream [OF laws(3)])
    note one = socket_send_stream [OF laws(1,2) this _ s]
    show ?thesis
    proof (cases r1)
      case (Ok n)
      have "(length buf - (off + n)) * Suc K + wait (Suc i) sk1 < fuel"
      proof (cases "n = 0")
        case True
        then have "wait (Suc i) sk1 < wait i sk"
          using conjunct2 [OF takes [unfolded takes_within_def], rule_format, of "drop off buf" sk i sk1]
            Suc.prems(1,2) s Ok \<open>off < length buf\<close> by simp
        then show ?thesis using True Suc.prems(3) by simp
      next
        case False
        have "wait (Suc i) sk1 \<le> K" using takes by (simp add: takes_within_def)
        moreover have "Suc (length buf - (off + n)) \<le> length buf - off" using False True by simp
        then have "Suc (length buf - (off + n)) * Suc K \<le> (length buf - off) * Suc K" by (rule mult_le_mono1)
        ultimately show ?thesis using Suc.prems(3) by simp
      qed
      then show ?thesis using Suc.IH [of sk1 "off + n" "Suc i"] one True s Ok by simp
    qed (use one True s in simp_all)
  qed simp
qed simp


section \<open>After a reset\<close>

text \<open>
  A closed socket of the stack: it cannot send (\<^verbatim>\<open>may_send\<close> needs ESTABLISHED or CLOSE-WAIT), and polling does not open it.
\<close>

definition closed_laws :: "('i, 't) smoltcp \<Rightarrow> bool" where
  "closed_laws S \<longleftrightarrow>
     (\<forall>t. sm_state S t = Closed_State \<longrightarrow>
        \<not> sm_may_send S t \<and> (\<forall>now i. all_results (\<lambda>(i', t'). sm_state S t' = Closed_State) (sm_poll S now i t)))"

definition closed_sock :: "('i, 't) smoltcp \<Rightarrow> ('i, 't) sock \<Rightarrow> bool" where
  "closed_sock S sk \<longleftrightarrow>
     sk_connected sk \<and> (\<exists>p. sk_plane sk = Plane_Tcp p \<and> sm_state S (tp_socket p) = Closed_State)"

lemma closed_sock_send:
  assumes "closed_laws S" "closed_sock S sk" "data \<noteq> []" "socket_send W S reading data sk = (r, sk')"
  shows "(r = Ok 0 \<and> closed_sock S sk') \<or> (\<exists>q. r = Panic q)"
proof -
  obtain p where p: "sk_connected sk" "sk_plane sk = Plane_Tcp p" "sm_state S (tp_socket p) = Closed_State"
    using assms(2) by (auto simp: closed_sock_def)
  have "send_loop S data 0 (tp_socket p) = (Ok 0, tp_socket p)"
    using assms(1) p(3) by (simp add: closed_laws_def send_loop.simps)
  moreover have "sm_state S (tp_socket p') = Closed_State" if "tcp_poll S reading p = Ok p'" for p'
    by (rule tcp_poll_result [OF that]) (use assms(1) p(3) in \<open>simp add: closed_laws_def\<close>)
  ultimately show ?thesis
    using p assms(3,4) tcp_poll_no_Err [of S reading p]
    by (cases "tcp_poll S reading p") (auto simp: socket_send_def tcp_send_def Let_def closed_sock_def)
qed

lemma closed_sock_kernel: "kernel_keeps_sockets E \<Longrightarrow> closed_sock S sk \<Longrightarrow> closed_sock S (be_kernel E i sk)"
proof -
  assume "kernel_keeps_sockets E" "closed_sock S sk"
  moreover obtain s where "be_kernel E i sk = sk\<lparr>sk_plane := set_plane_xsk s (sk_plane sk)\<rparr>"
    using calculation(1) by (auto simp: kernel_keeps_sockets_def)
  ultimately show ?thesis by (auto simp: closed_sock_def set_plane_xsk_def)
qed

lemma send_all_loop_closed:
  assumes "closed_laws (be_stack E)" "kernel_keeps_sockets E"
    and "closed_sock (be_stack E) sk" "off < length buf" "send_all_loop fuel E buf off i sk = Some (r, j, sk')"
  shows "\<exists>q. r = Panic q"
  using assms(3-)
proof (induction fuel arbitrary: i sk)
  case (Suc fuel)
  obtain r1 sk1 where s: "socket_send (be_wire E) (be_stack E) (be_clock E i) (drop off buf) (be_kernel E i sk) = (r1, sk1)"
    by fastforce
  from closed_sock_send [OF assms(1) closed_sock_kernel [OF assms(2) Suc.prems(1)] _ s] Suc.prems(2)
  have "(r1 = Ok 0 \<and> closed_sock (be_stack E) sk1) \<or> (\<exists>q. r1 = Panic q)" by simp
  then show ?case using Suc.IH [of sk1 "Suc i"] Suc.prems s by auto
qed simp

text \<open>
  C34.  After the connection was reset, \<^verbatim>\<open>Sock::send_all\<close> spins.  On a TCP socket that the stack has closed, \<^verbatim>\<open>send\<close> takes nothing
  and says so without an error, and \<^verbatim>\<open>send_all\<close> calls it again: however long it runs, it reports neither success nor an error.
\<close>

theorem send_all_after_reset:
  assumes "closed_laws (be_stack E)" and "kernel_keeps_sockets E" and "closed_sock (be_stack E) sk" and "buf \<noteq> []"
  shows "case bench_send_all fuel E buf i (Sock_Xskip sk) of None \<Rightarrow> True | Some (r, j, s) \<Rightarrow> \<exists>q. r = Panic q"
  using send_all_loop_closed [OF assms(1-3), of 0 buf fuel i] assms(4)
  by (auto simp: bench_send_all_def split: option.splits)

end
