(* ===== verification/Bench_Sample.thy ===== *)
theory Bench_Sample
  imports Bench_Consume Bench_Send Socket_Sample
begin

text \<open>
  Concrete runs of the benchmark tool: over a kernel socket that answers every receive with one byte, over
  the sample UDP socket with one packet in its ring, and a whole run whose connect is refused.
\<close>

definition sample_net :: "unit kernel_net" where
  "sample_net =
     \<lparr>kn_bind = (\<lambda>_. Inr ()), kn_connect = (\<lambda>_ k. (Inr (), k)), kn_tcp_connect = (\<lambda>_. Inr ()),
      kn_set_nodelay = (\<lambda>k. (Inr (), k)), kn_setsockopt = (\<lambda>_ _ _ k. (None, k)), kn_set_read_timeout = (\<lambda>_ k. (Inr (), k)),
      kn_send = (\<lambda>bs k. (Inr (length bs), k)), kn_write_all = (\<lambda>_ k. (Inr (), k)),
      kn_recv = (\<lambda>_ k. (Inr [1], k)), kn_read = (\<lambda>_ k. (Inr [1], k))\<rparr>"

definition sample_clock :: "nat \<Rightarrow> int" where
  "sample_clock i = int i * 1000000000"

definition sample_E :: "(unit, unit, bytes \<times> bytes) bench_env" where
  "sample_E = quiet_env Release rfc_wire sample_stack sample_net sample_clock"

lemma sample_E_fields [simp]:
  "be_profile sample_E = Release" "be_wire sample_E = rfc_wire" "be_stack sample_E = sample_stack"
  "be_net sample_E = sample_net" "be_kernel sample_E i sk = sk" "be_clock sample_E i = int i * 1000000000"
  by (simp_all add: sample_E_def quiet_env_def sample_clock_def)

section \<open>Loops\<close>

theorem connect_loop_terminates_witness:
  "\<exists>r j sk'. connect_loop 2 sample_E 2000000000 0 sample_connected = Some (r, j, sk') \<and> j \<le> 2"
  using connect_loop_terminates [of 2000000000 sample_E 2 0 2 sample_connected] by fastforce

definition sample_loop_config :: "u64 \<Rightarrow> loop_config" where
  "sample_loop_config cnt =
     \<lparr>lc_proto = Protocol_Udp, lc_count = cnt, lc_want_bytes = cnt * 10, lc_echo = False, lc_blocking = False\<rparr>"

theorem bench_report_adds_up_witness:
  "\<exists>st. consume_loop 2 sample_E (sample_loop_config 1) (consume_start sample_E 0 (Sock_Udp ())) = Some (Target_Reached, st)
     \<and> rp_missing (bench_report_of sample_E (sample_loop_config 1) 10 0 st) = 0"
proof -
  have "\<exists>st. consume_loop 2 sample_E (sample_loop_config 1) (consume_start sample_E 0 (Sock_Udp ())) = Some (Target_Reached, st)"
    by (simp add: numeral_2_eq_2 sample_loop_config_def consume_done_def consume_start_def consume_turn_def
        bench_recv_def sample_net_def kernel_recv_def stop_context_def echo_back_def count_message_def
        add_u64_def Let_def)
  then obtain st where st: "consume_loop 2 sample_E (sample_loop_config 1)
      (consume_start sample_E 0 (Sock_Udp ())) = Some (Target_Reached, st)" by blast
  have "want_bytes Debug (lc_count (sample_loop_config 1)) 10 = Ok (lc_want_bytes (sample_loop_config 1))"
    by (simp add: want_bytes_def sample_loop_config_def)
  from bench_report_adds_up [OF st this, of 0] st show ?thesis by auto
qed

text \<open>The sample socket with the sample packet in its ring.\<close>

definition sample_rx_sock :: "(unit, bytes \<times> bytes) sock" where
  "sample_rx_sock =
     sample_connected\<lparr>sk_plane := Plane_Udp \<lparr>up_xsk = sample_rx_sk,
        up_framing = \<lparr>f_src_mac = [0x02, 0, 0, 0, 0, 1], f_dst_mac = [0x02, 0, 0, 0, 0, 2],
          f_local = sample_local, f_remote = Some sample_remote\<rparr>\<rparr>\<rparr>"

lemma sample_rx_parse:
  "parse rfc_wire \<lparr>f_src_mac = [0x02, 0, 0, 0, 0, 1], f_dst_mac = [0x02, 0, 0, 0, 0, 2],
     f_local = sample_local, f_remote = Some sample_remote\<rparr> sample_packet = Some [0x78]"
  using sample_parse by (simp add: parse_def mirror_def sample_framing_def)

lemma sample_rx_sock_ok: "sock_ok {#} {#} sample_rx_sock" "sk_connected sample_rx_sock"
  using sample_delivered
  by (simp_all add: sock_ok_def sample_rx_sock_def sample_connected_def sample_udp_sock_def header_len_defs
      tx_fits_def sample_queues sample_rx_sk_fields framing_ok_def local_addr_def sample_local_def)

theorem bench_consumes_ring_witness:
  "\<exists>fuel st. consume_loop fuel sample_E (sample_loop_config 2) (consume_start sample_E 0 (Sock_Xskip sample_rx_sock)) =
       Some (Idle_Cutoff, st) \<and> unat (bl_msgs st) = 1 \<and> unat (bl_bytes st) = 1"
proof -
  let ?u = "\<lparr>up_xsk = sample_rx_sk,
        up_framing = \<lparr>f_src_mac = [0x02, 0, 0, 0, 0, 1], f_dst_mac = [0x02, 0, 0, 0, 0, 2],
          f_local = sample_local, f_remote = Some sample_remote\<rparr>\<rparr>"
  have h: "sk_plane sample_rx_sock = Plane_Udp ?u"
    "map (parse rfc_wire (up_framing ?u)) (rx_wire (up_xsk ?u)) = map Some [[0x78]]"
    using sample_delivered sample_rx_parse by (simp_all add: sample_rx_sock_def)
  have c: "\<not> lc_echo (sample_loop_config 2)" "lc_proto (sample_loop_config 2) = Protocol_Udp"
    by (simp_all add: sample_loop_config_def)
  have t: "\<forall>j k. j \<le> 0 + length [[0x78 :: u8]] \<and> 3 \<le> k \<longrightarrow> sample_clock j + IDLE < sample_clock k"
    by (auto simp: sample_clock_def IDLE_def)
  show ?thesis
    using bench_consumes_ring [OF h(1) sample_rx_sock_ok(2,1) h(2) _ _ c _ t, of Release sample_stack sample_net]
    by (simp add: sample_E_def sample_loop_config_def min_def)
qed

section \<open>Streams\<close>

text \<open>A stack that takes up to 100 bytes at a time and keeps what it took, and one whose connection was reset.\<close>

definition stream_stack :: "(unit, bytes \<times> bytes) smoltcp" where
  "stream_stack = sample_stack\<lparr>sm_poll := (\<lambda>_ i t. Finish (i, t))\<rparr>"

definition reset_stack :: "(unit, bytes \<times> bytes) smoltcp" where
  "reset_stack = stream_stack\<lparr>sm_may_send := (\<lambda>_. False), sm_state := (\<lambda>_. Closed_State)\<rparr>"

definition sample_tcp_connected :: "(unit, bytes \<times> bytes) sock" where
  "sample_tcp_connected = sample_tcp_sock\<lparr>sk_connected := True, sk_remote := Some sample_remote\<rparr>"

lemma quiet_kernel: "kernel_keeps_sockets (quiet_env p W S N clk)"
  unfolding kernel_keeps_sockets_def
proof (intro allI)
  fix i sk
  show "\<exists>s. be_kernel (quiet_env p W S N clk) i sk = sk\<lparr>sk_plane := set_plane_xsk s (sk_plane sk)\<rparr>"
    by (intro exI [of _ "plane_xsk (sk_plane sk)"]) (simp add: quiet_env_def)
qed

lemma stream_laws: "send_slice_laws stream_stack snd" "poll_keeps_stream stream_stack snd" "closed_laws reset_stack"
  using sample_stack_sends
  by (simp_all add: send_slice_laws_def poll_keeps_stream_def closed_laws_def stream_stack_def reset_stack_def)

lemma stream_takes: "takes_within (quiet_env Release rfc_wire stream_stack N clk) snd 0 (\<lambda>_ _. 0)"
proof -
  have "\<exists>t. send_loop stream_stack data 0 t' = (Ok (length data), t)" for data t'
  proof -
    obtain n t where l: "send_loop stream_stack data 0 t' = (Ok n, t)" "n \<le> length data"
      "n < length data \<longrightarrow> \<not> sm_may_send stream_stack t \<or> (\<exists>t0. sm_send_slice stream_stack (drop n data) t0 = (Inr 0, t))"
      using send_loop_stream [OF stream_laws(1) le0, of data t'] by blast
    then show ?thesis by (auto simp: stream_stack_def sample_stack_def split: prod.splits)
  qed
  note whole = this
  have "socket_send W stream_stack reading data sk \<noteq> (Ok 0, sk')"
    if data: "data \<noteq> []" "sk_connected sk" "stream_of snd sk \<noteq> None" for W reading data sk sk'
  proof -
    obtain p where p: "sk_plane sk = Plane_Tcp p" using data(3) by (auto simp: stream_of_def split: plane.splits)
    obtain t where "send_loop stream_stack data 0 (tp_socket p) = (Ok (length data), t)" using whole by blast
    then show ?thesis
      using data(1,2) p
      by (cases "tcp_poll stream_stack reading (p\<lparr>tp_socket := t\<rparr>)") (simp_all add: socket_send_def tcp_send_def)
  qed
  then show ?thesis by (auto simp: takes_within_def quiet_env_def)
qed


theorem send_all_after_reset_witness:
  "closed_sock reset_stack sample_tcp_connected
   \<and> (case bench_send_all 9 (quiet_env Release rfc_wire reset_stack sample_net sample_clock) [0x78] 0
        (Sock_Xskip sample_tcp_connected) of None \<Rightarrow> True | Some (r, j, s) \<Rightarrow> \<exists>q. r = Panic q)"
proof -
  have c: "closed_sock reset_stack sample_tcp_connected"
    by (simp add: closed_sock_def sample_tcp_connected_def sample_tcp_sock_def reset_stack_def)
  then show ?thesis
    using send_all_after_reset [where E = "quiet_env Release rfc_wire reset_stack sample_net sample_clock",
        OF _ quiet_kernel, of sample_tcp_connected "[0x78]" 9 0] stream_laws(3) by (simp add: quiet_env_def)
qed

section \<open>The idle cutoff\<close>

text \<open>The packet is taken two seconds before the next poll finds the sample of the clock too old.\<close>

definition sample_stale :: "(unit, unit, bytes \<times> bytes) bench_loop" where
  "sample_stale = (consume_start sample_E 0 (Sock_Xskip sample_rx_sock))\<lparr>bl_spins := 1023\<rparr>"

lemma sample_stale_recv:
  "\<exists>buf1 s1 buf2 s2. bench_recv sample_E (bl_buf sample_stale) 0 (Sock_Xskip sample_rx_sock) = (Ok (Some 1), buf1, s1)
     \<and> bench_recv sample_E buf1 1 s1 = (Ok None, buf2, s2)"
proof -
  let ?s = "Sock_Xskip sample_rx_sock :: (unit, unit, bytes \<times> bytes) bench_sock"
  have r: "udp_ready ?s" using sample_rx_sock_ok unfolding udp_ready_def by (auto simp: sample_rx_sock_def)
  have w: "udp_waiting rfc_wire ?s = [Some 1]"
    using sample_delivered sample_rx_parse by (simp add: udp_waiting_def sample_rx_sock_def frame_message_def)
  have b: "length (bl_buf sample_stale) = 65536" by (simp add: sample_stale_def consume_start_def)
  obtain buf1 s1 where 1: "bench_recv sample_E (bl_buf sample_stale) 0 ?s = (Ok (Some 1), buf1, s1)"
    "length buf1 = 65536" "udp_ready s1" "udp_waiting rfc_wire s1 = []"
    using udp_source.recv_waiting [OF r b, where W = rfc_wire and p = Release and S = sample_stack
        and N = sample_net and clk = sample_clock and i = 0] w
    by (auto simp: sample_E_def)
  then show ?thesis
    using udp_source.recv_waiting [OF 1(3,2), where W = rfc_wire and p = Release and S = sample_stack
        and N = sample_net and clk = sample_clock and i = 1]
    by (auto simp: sample_E_def)
qed

theorem idle_cutoff_after_message_witness:
  "\<exists>st'. consume_loop (Suc (Suc 0)) sample_E (sample_loop_config 5) sample_stale = Some (Idle_Cutoff, st') \<and> bl_msgs st' = 1"
proof -
  have f: "bl_tick sample_stale = 0" "bl_sock sample_stale = Sock_Xskip sample_rx_sock" "bl_msgs sample_stale = 0"
    "bl_bytes sample_stale = 0" "bl_spins sample_stale = 1023" "bl_last sample_stale = 0"
    by (simp_all add: sample_stale_def consume_start_def)
  obtain buf1 s1 buf2 s2 where
    "bench_recv sample_E (bl_buf sample_stale) (bl_tick sample_stale) (bl_sock sample_stale) = (Ok (Some 1), buf1, s1)"
    "bench_recv sample_E buf1 (Suc (bl_tick sample_stale)) s1 = (Ok None, buf2, s2)"
    using sample_stale_recv f by auto
  from idle_cutoff_after_message [OF this(1) _ this(2), of "sample_loop_config 5" 0] show ?thesis
    by (auto simp: f sample_loop_config_def IDLE_def simp del: consume_loop.simps)
qed

section \<open>A whole run\<close>

definition sample_args :: "string list" where
  "sample_args =
     [''--stack'', ''xskip'', ''--proto'', ''udp'', ''--if'', ''eth0'', ''--local-ip'', ''10.99.0.1'',
      ''--peer-ip'', ''10.99.0.2'', ''--port'', ''6667'', ''--peer-mac'', ''02:00:00:00:00:02'', ''--cpu'', ''0'',
      ''--queue'', ''0'', ''--count'', ''10'', ''--size'', ''64'']"

definition sample_options :: bench_options where
  "sample_options =
     \<lparr>bo_stack = ''xskip'', bo_proto = Protocol_Udp, bo_ifname = ''eth0'', bo_local_ip = 0x0a630001,
      bo_peer = \<lparr>sa_ip = 0x0a630002, sa_port = 6667\<rparr>, bo_peer_mac = [0x02, 0, 0, 0, 0, 2], bo_cpu = 0,
      bo_queue = 0, bo_count = 10, bo_size = 64, bo_xdp_mode = Auto, bo_mode = ''consume''\<rparr>"

definition sample_answers :: setup_answers where
  "sample_answers =
     \<lparr>su_cpu = \<lparr>cp_zero = id, cp_set = (\<lambda>_ c. Ok c), cp_setaffinity = (\<lambda>_. None)\<rparr>, su_nametoindex = (\<lambda>_. 3), su_mac_file = (\<lambda>_. Inr (''02:00:00:00:00:01'' @ [CHR 0x0A])),
      su_mtu_file = (\<lambda>_. Inr (''1500'' @ [CHR 0x0A])), su_open_skel = Inr (), su_load_skel = Inr sample_maps,
      su_attach = (\<lambda>_. None), su_detach = (\<lambda>_. None), su_world = sample_world, su_flow_err = Some 12\<rparr>"

lemma sample_numbers:
  "parse_uint 16 ''6667'' = Some 6667" "parse_uint 64 ''0'' = Some 0" "parse_uint 32 ''0'' = Some 0"
  "parse_uint 64 ''10'' = Some 10" "parse_uint 64 ''64'' = Some 64"
  by (simp_all add: parse_uint_def from_str_radix_def to_digit_def Let_def)

lemma sample_ips: "parse_ipv4 ''10.99.0.1'' = Some 0x0a630001" "parse_ipv4 ''10.99.0.2'' = Some 0x0a630002"
  by (simp_all add: parse_ipv4_def parse_octet_def to_digit_def Let_def from_be_bytes32_def)

lemma sample_macs: "parse_mac ''02:00:00:00:00:01'' = Inr [0x02, 0, 0, 0, 0, 1]"
    "parse_mac ''02:00:00:00:00:02'' = Inr [0x02, 0, 0, 0, 0, 2]"
  by (simp_all add: parse_mac_eq from_str_radix_def to_digit_def Let_def)

lemma sample_parse_args: "\<exists>m. parse_args sample_args = Inr m
    \<and> m ''stack'' = Some ''xskip'' \<and> m ''proto'' = Some ''udp'' \<and> m ''if'' = Some ''eth0''
    \<and> m ''local-ip'' = Some ''10.99.0.1'' \<and> m ''peer-ip'' = Some ''10.99.0.2'' \<and> m ''port'' = Some ''6667''
    \<and> m ''peer-mac'' = Some ''02:00:00:00:00:02'' \<and> m ''cpu'' = Some ''0'' \<and> m ''queue'' = Some ''0''
    \<and> m ''count'' = Some ''10'' \<and> m ''size'' = Some ''64'' \<and> m ''xdp-mode'' = None \<and> m ''mode'' = None"
  by (simp add: parse_args_def sample_args_def strip_prefix_def)

lemma sample_options_of: "bind_sum (parse_args sample_args) bench_options_of = Inr sample_options"
  using sample_parse_args
  by (auto simp: bench_options_of_def arg_def parse_with_def parse_proto_def parse_xdp_mode_def sample_numbers
      sample_ips sample_macs sample_options_def)

lemma sample_probe: "xskip_probe sample_answers ''eth0'' = Inr (3, [0x02, 0, 0, 0, 0, 1], 1500, sample_maps)"
proof -
  have "read_mac (Inr (''02:00:00:00:00:01'' @ [CHR 0x0A])) = Ok [0x02, 0, 0, 0, 0, 1]"
    by (simp add: read_mac_def trim_def is_space_def sample_macs)
  moreover have "read_mtu ''eth0'' (Inr (''1500'' @ [CHR 0x0A])) = Ok 1500"
    by (simp add: read_mtu_def trim_def is_space_def from_str_radix_def to_digit_def Let_def)
  moreover have "ifindex (\<lambda>_. 3) ''eth0'' = Ok 3" by (simp add: ifindex_def)
  ultimately show ?thesis by (simp add: xskip_probe_def sample_answers_def stop_context_def load_skel_def)
qed

lemma sample_new_log:
  "\<exists>ln. socket_new Release sample_stack sample_world Protocol_Udp
       (bench_config sample_options 3 [0x02, 0, 0, 0, 0, 1] 1500) sample_maps = (Ok sample_udp_sock, sample_maps1, ln)"
  using sample_socket_new by (simp add: bench_config_def sample_options_def sample_cfg_def)

lemma sample_attach: "attach_xdp (su_attach sample_answers) 3 = (Ok \<lparr>xa_ifindex = 3, xa_native = True\<rparr>, [Attached 3 True])"
  by (simp add: attach_xdp_def sample_answers_def)

text \<open>The insert of the flow is refused, and the run ends with that error.\<close>

lemma sample_main: "\<exists>e log. bench_main 1 sample_E sample_answers sample_args = Some (Inl e, log) \<and> Attached 3 True \<in> set log"
proof -
  have refused: "\<exists>e. add_flow_to_ebpf_tracking (Some 12) la ra m = Err e" for la ra m
    by (auto simp: add_flow_to_ebpf_tracking_def map_update_def split: sum.splits)
  obtain ln where n: "socket_new Release sample_stack sample_world Protocol_Udp
       (bench_config sample_options 3 [0x02, 0, 0, 0, 0, 1] 1500) sample_maps = (Ok sample_udp_sock, sample_maps1, ln)"
    using sample_new_log by blast
  obtain e where c: "socket_connect sample_stack 0 (Some 12) (bo_peer sample_options) sample_maps1 sample_udp_sock =
      (Err e, sample_maps1, sample_udp_sock)"
    using refused [of "local_addr sample_udp_sock" "bo_peer sample_options" "config_map sample_maps1"]
    by (auto simp: socket_connect_def)
  have f: "bo_stack sample_options = ''xskip''" "bo_ifname sample_options = ''eth0''" "bo_proto sample_options = Protocol_Udp"
    "su_world sample_answers = sample_world" "su_flow_err sample_answers = Some 12"
    "\<exists>p. pin_cpu (su_cpu sample_answers) (bo_cpu sample_options) = Ok p"
    by (simp_all add: sample_options_def sample_answers_def pin_cpu_def)
  obtain maps2 l2 where "socket_drop sample_maps1 sample_udp_sock = (maps2, l2)" by fastforce
  then show ?thesis
    using n c f(6)
    by (auto simp: bench_main_def bench_run_def sample_options_of f(1-5) xskip_setup_def sample_probe sample_attach stop_context_def
        xskip_connect_def)
qed

theorem bench_main_detaches_witness:
  "\<exists>r l. bench_main 1 sample_E sample_answers sample_args = Some (r, Attached 3 True # l @ [Detach 3 True None])
     \<and> xdp_hooks (1 :: nat) (Attached 3 True # l @ [Detach 3 True None]) [(3, True) \<mapsto> 9, (4, True) \<mapsto> 8] = [(4, True) \<mapsto> 8]"
proof -
  let ?H = "[(3 :: int, True) \<mapsto> 9 :: nat, (4, True) \<mapsto> 8]"
  obtain e log where m: "bench_main 1 sample_E sample_answers sample_args = Some (Inl e, log)" "Attached 3 True \<in> set log"
    using sample_main by blast
  then have "\<not> no_xdp log" by (auto simp: no_xdp_def)
  with bench_main_detaches [OF m(1), of "1 :: nat" ?H] obtain b :: bench_options and i n l where
    r: "attached_run sample_answers (bo_ifname b) i n l" "log = l @ [Detach i n (su_detach sample_answers n)]"
    "xdp_hooks 1 log ?H = ?H((i, n) := (if su_detach sample_answers n = None then None else Some 1))" by blast
  have d: "su_detach sample_answers n = None" by (simp add: sample_answers_def)
  obtain l' where l: "l = Attached i n # l'" "no_xdp l'" using r(1) by (auto simp: attached_run_def)
  then have "i = 3" "n = True" using m(2) r(2) by (auto simp: no_xdp_def)
  then show ?thesis using m(1) r(2,3) l(1) d by (intro exI [of _ "Inl e"] exI [of _ l']) (auto simp: fun_eq_iff)
qed

lemma sample_kernel_behaves: "kernel_behaves sample_E"
  unfolding kernel_behaves_def by fastforce

theorem bench_main_releases_witness:
  "\<exists>r log. bench_main 1 sample_E sample_answers sample_args = Some (r, log) \<and> log \<noteq> []
     \<and> live_fds log {#} = {#} \<and> live_maps log {#} = {#}"
proof -
  obtain ln where n: "socket_new (be_profile sample_E) (be_stack sample_E) (su_world sample_answers) (bo_proto sample_options)
       (bench_config sample_options 3 [0x02, 0, 0, 0, 0, 1] 1500) sample_maps = (Ok sample_udp_sock, sample_maps1, ln)"
    using sample_new_log by (auto simp: sample_answers_def sample_options_def)
  obtain e log where m: "bench_main 1 sample_E sample_answers sample_args = Some (Inl e, log)" "log \<noteq> []"
    using sample_main by fastforce
  have f: "bo_stack sample_options = ''xskip''" "bo_ifname sample_options = ''eth0''" "su_world sample_answers = sample_world"
    by (simp_all add: sample_options_def sample_answers_def)
  have env: "env_ok (be_wire sample_E) (be_stack sample_E) 1500" using sample_env by simp
  have "ETH_HDR_LEN + 1500 \<le> 2 ^ 63" by (simp add: ETH_HDR_LEN_def)
  note w = sample_world_ok(1,2) this sample_world_ok(4)
  show ?thesis
    using bench_main_releases [OF sample_options_of f(1) sample_probe [folded f(2)] sample_attach n
        w [folded f(3)] env sample_kernel_behaves m(1), of "{#}" "{#}"] m by blast
qed

end
