(* ===== verification/Float64.thy ===== *)
theory Float64
  imports Complex_Main "HOL-Library.Log_Nat" Parsing
begin

text \<open>
  \<^verbatim>\<open>f64\<close>, as far as the report of the benchmark tool uses it: IEEE 754 binary64 with rounding to nearest, ties to
  even, and printing with a fixed number of decimals.  A finite value is the rational number it stands for; the
  sign of a zero is not kept, no zero of the report is negative.
\<close>

section \<open>Rounding\<close>

definition round_half_even :: "rat \<Rightarrow> int" where
  "round_half_even x =
     (let f = \<lfloor>x\<rfloor>; d = x - of_int f
      in if d < 1 / 2 then f else if 1 / 2 < d then f + 1 else if even f then f else f + 1)"

text \<open>The binary exponent of a positive number.\<close>

definition f64_exponent :: "rat \<Rightarrow> int" where
  "f64_exponent x =
     (case quotient_of x of
        (a, b) \<Rightarrow> let e = bitlen a - bitlen b in if 2 powi e \<le> x then e else e - 1)"

text \<open>53 significant bits, and multiples of \<open>2 powi (- 1074)\<close> below that.\<close>

definition f64_round :: "rat \<Rightarrow> rat" where
  "f64_round x =
     (if x = 0 then 0
      else let q = 2 powi max (- 1074) (f64_exponent \<bar>x\<bar> - 52)
      in of_int (round_half_even (x / q)) * q)"

datatype f64 = Fin rat | Inf bool | NaN

definition f64_of :: "rat \<Rightarrow> f64" where
  "f64_of x = (let y = f64_round x in if 2 ^ 1024 \<le> \<bar>y\<bar> then Inf (x < 0) else Fin y)"

section \<open>Arithmetic\<close>

fun f64_neg :: "f64 \<Rightarrow> f64" where
  "f64_neg (Fin x) = Fin (- x)"
| "f64_neg (Inf s) = Inf (\<not> s)"
| "f64_neg NaN = NaN"

fun f64_add :: "f64 \<Rightarrow> f64 \<Rightarrow> f64" where
  "f64_add (Fin x) (Fin y) = f64_of (x + y)"
| "f64_add (Fin x) (Inf s) = Inf s"
| "f64_add (Inf s) (Fin y) = Inf s"
| "f64_add (Inf s) (Inf t) = (if s = t then Inf s else NaN)"
| "f64_add NaN y = NaN"
| "f64_add x NaN = NaN"

definition f64_sub :: "f64 \<Rightarrow> f64 \<Rightarrow> f64" where
  "f64_sub x y = f64_add x (f64_neg y)"

fun f64_mul :: "f64 \<Rightarrow> f64 \<Rightarrow> f64" where
  "f64_mul (Fin x) (Fin y) = f64_of (x * y)"
| "f64_mul (Fin x) (Inf s) = (if x = 0 then NaN else Inf (s \<noteq> (x < 0)))"
| "f64_mul (Inf s) (Fin y) = (if y = 0 then NaN else Inf (s \<noteq> (y < 0)))"
| "f64_mul (Inf s) (Inf t) = Inf (s \<noteq> t)"
| "f64_mul NaN y = NaN"
| "f64_mul x NaN = NaN"

fun f64_div :: "f64 \<Rightarrow> f64 \<Rightarrow> f64" where
  "f64_div (Fin x) (Fin y) =
     (if y = 0 then (if x = 0 then NaN else Inf (x < 0)) else f64_of (x / y))"
| "f64_div (Fin x) (Inf s) = Fin 0"
| "f64_div (Inf s) (Fin y) = Inf (s \<noteq> (y < 0))"
| "f64_div (Inf s) (Inf t) = NaN"
| "f64_div NaN y = NaN"
| "f64_div x NaN = NaN"

fun f64_positive :: "f64 \<Rightarrow> bool" where
  "f64_positive (Fin x) = (0 < x)"
| "f64_positive (Inf s) = (\<not> s)"
| "f64_positive NaN = False"

text \<open>\<^verbatim>\<open>{:.n}\<close>: the decimal nearest to the value, ties to even.\<close>

definition show_decimals :: "nat \<Rightarrow> nat \<Rightarrow> string" where
  "show_decimals n k =
     (let d = dec_string (k mod 10 ^ n)
      in dec_string (k div 10 ^ n) @ ''.'' @ replicate (n - length d) CHR ''0'' @ d)"

fun f64_show :: "nat \<Rightarrow> f64 \<Rightarrow> string" where
  "f64_show n (Fin x) =
     (if x < 0 then ''-'' else []) @ show_decimals n (nat (round_half_even (\<bar>x\<bar> * 10 ^ n)))"
| "f64_show n (Inf s) = (if s then ''-inf'' else ''inf'')"
| "f64_show n NaN = ''NaN''"

section \<open>How far off a rounded value is\<close>

lemma round_half_even_error: "\<bar>of_int (round_half_even x) - x\<bar> \<le> 1 / 2"
proof -
  have "of_int \<lfloor>x\<rfloor> \<le> x" "x < of_int \<lfloor>x\<rfloor> + 1" using floor_correct [of x] by simp_all
  then show ?thesis
    unfolding round_half_even_def Let_def abs_le_iff
    by (simp only: of_int_add of_int_1 split: if_split) linarith
qed

lemma round_half_even_int: "x \<le> of_int n \<Longrightarrow> round_half_even x \<le> n" "of_int n \<le> x \<Longrightarrow> n \<le> round_half_even x"
proof -
  have e: "of_int (round_half_even x) - x \<le> 1 / 2" "x - of_int (round_half_even x) \<le> 1 / 2"
    using round_half_even_error [of x] by linarith+
  show "round_half_even x \<le> n" if "x \<le> of_int n"
  proof -
    have "(of_int (round_half_even x) :: rat) < of_int (n + 1)" using e(1) that by simp
    then show ?thesis by linarith
  qed
  show "n \<le> round_half_even x" if "of_int n \<le> x"
  proof -
    have "(of_int (n - 1) :: rat) < of_int (round_half_even x)" using e(2) that by simp
    then show ?thesis by linarith
  qed
qed

lemma f64_exponent_bounds:
  assumes "0 < x"
  shows "2 powi f64_exponent x \<le> x" "x < 2 powi (f64_exponent x + 1)"
proof -
  obtain a b where ab: "quotient_of x = (a, b)" by fastforce
  have x: "x = of_int a / of_int b" "0 < b" using quotient_of_div [OF ab] quotient_of_denom_pos [OF ab] by simp_all
  then have a: "0 < a" using assms by (simp add: zero_less_divide_iff)
  have pow: "(2 :: rat) powi (bitlen n - 1) \<le> of_int n" "of_int n < (2 :: rat) powi bitlen n" if "0 < n" for n
  proof -
    have b: "2 ^ nat (bitlen n - 1) \<le> n \<and> n < 2 ^ nat (bitlen n)" "0 < bitlen n"
      using bitlen_bounds [OF that] bitlen_nonneg [of n] bitlen_eq_zero_iff [of n] that by auto
    have "(of_int (2 ^ nat (bitlen n - 1)) :: rat) \<le> of_int n" "(of_int n :: rat) < of_int (2 ^ nat (bitlen n))"
      using b(1) by (simp_all only: of_int_le_iff of_int_less_iff)
    then show "(2 :: rat) powi (bitlen n - 1) \<le> of_int n" "of_int n < (2 :: rat) powi bitlen n"
      using b(2) by (simp_all add: power_int_def)
  qed
  let ?e = "bitlen a - bitlen b"
  have up: "x < 2 powi (?e + 1)"
  proof -
    have "x < 2 powi bitlen a / of_int b" using pow(2) [OF a] x by (simp add: divide_strict_right_mono)
    also have "\<dots> \<le> 2 powi bitlen a / 2 powi (bitlen b - 1)"
      using pow(1) [OF x(2)] x(2) by (intro divide_left_mono) auto
    also have "\<dots> = 2 powi (?e + 1)" by (simp add: algebra_simps flip: power_int_diff)
    finally show ?thesis .
  qed
  have "(2 :: rat) powi (?e - 1) \<le> x"
  proof -
    have "(2 :: rat) powi (?e - 1) = 2 powi (bitlen a - 1) / 2 powi bitlen b"
      by (simp add: algebra_simps flip: power_int_diff)
    also have "\<dots> \<le> of_int a / 2 powi bitlen b" using pow(1) [OF a] by (simp add: divide_right_mono)
    also have "\<dots> \<le> x" unfolding x(1) using pow(2) [OF x(2)] a x(2) by (intro divide_left_mono) auto
    finally show ?thesis .
  qed
  then show "2 powi f64_exponent x \<le> x" "x < 2 powi (f64_exponent x + 1)"
    using up by (auto simp: f64_exponent_def ab Let_def)
qed


text \<open>In the normal range the error is at most half a unit of the 53rd bit; below it, half of the smallest unit.\<close>

lemma f64_round_unit:
  assumes "x \<noteq> 0"
  defines "q \<equiv> 2 powi max (- 1074) (f64_exponent \<bar>x\<bar> - 52) :: rat"
  shows "\<bar>f64_round x - x\<bar> \<le> q / 2"
proof -
  have q: "0 < q" by (simp add: q_def)
  have "f64_round x - x = (of_int (round_half_even (x / q)) - x / q) * q"
    using assms(1) q by (simp add: f64_round_def Let_def q_def field_simps)
  then have "\<bar>f64_round x - x\<bar> = \<bar>of_int (round_half_even (x / q)) - x / q\<bar> * q"
    using q by (simp add: abs_mult)
  also have "\<dots> \<le> 1 / 2 * q" using q round_half_even_error by (intro mult_right_mono) auto
  finally show ?thesis by simp
qed

lemma f64_round_relative:
  assumes "2 powi (- 1022) \<le> \<bar>x\<bar>"
  shows "\<bar>f64_round x - x\<bar> \<le> \<bar>x\<bar> / 2 ^ 53"
proof -
  have x: "x \<noteq> 0" "0 < \<bar>x\<bar>" using assms by (auto simp: power_int_def)
  let ?e = "f64_exponent \<bar>x\<bar>"
  note e = f64_exponent_bounds [OF x(2)]
  have "(2 :: rat) powi (- 1022) < 2 powi (?e + 1)" using assms e(2) by (rule le_less_trans)
  then have "- 1022 < ?e + 1" using power_int_increasing [of "?e + 1" "- 1022" "2 :: rat"] by force
  then have q: "max (- 1074) (?e - 52) = ?e - 52" by simp
  have "\<bar>f64_round x - x\<bar> \<le> 2 powi (?e - 52) / 2" using f64_round_unit [OF x(1)] unfolding q .
  also have "\<dots> = 2 powi ?e / 2 ^ 53" by (simp add: power_int_diff)
  also have "\<dots> \<le> \<bar>x\<bar> / 2 ^ 53" using e(1) by (intro divide_right_mono) simp_all
  finally show ?thesis .
qed

lemma f64_round_bound: "\<bar>f64_round x\<bar> \<le> 2 * \<bar>x\<bar> + 1"
proof (cases "2 powi (- 1022) \<le> \<bar>x\<bar>")
  case True
  have "\<bar>x\<bar> / 2 ^ 53 \<le> \<bar>x\<bar>" by (simp add: divide_le_eq)
  then show ?thesis using f64_round_relative [OF True] by linarith
next
  case False
  show ?thesis
  proof (cases "x = 0")
    case nz: False
    let ?e = "f64_exponent \<bar>x\<bar>"
    have "(2 :: rat) powi ?e < 2 powi (- 1022)" using f64_exponent_bounds(1) [of "\<bar>x\<bar>"] nz False by force
    then have "?e < - 1022" using power_int_increasing [of "- 1022" ?e "2 :: rat"] by force
    then have "(2 :: rat) powi max (- 1074) (?e - 52) \<le> 2 powi 0" by (intro power_int_increasing) simp_all
    then have "\<bar>f64_round x - x\<bar> \<le> 1" using f64_round_unit [OF nz] by simp
    then show ?thesis by linarith
  qed (simp add: f64_round_def)
qed

lemma f64_of_finite: "\<bar>x\<bar> \<le> 2 ^ 1000 \<Longrightarrow> f64_of x = Fin (f64_round x)"
  using f64_round_bound [of x] by (simp add: f64_of_def Let_def)

lemma f64_round_0 [simp]: "f64_round 0 = 0"
  by (simp add: f64_round_def)

text \<open>Zero and the numbers with which the report computes.\<close>

definition f64_normal :: "rat \<Rightarrow> bool" where
  "f64_normal x \<longleftrightarrow> x = 0 \<or> (1 / 2 ^ 1000 \<le> x \<and> x \<le> 2 ^ 1000)"

lemma f64_round_near:
  assumes "f64_normal x"
  shows "x - x / 2 ^ 53 \<le> f64_round x" "f64_round x \<le> x + x / 2 ^ 53" "f64_of x = Fin (f64_round x)"
proof -
  have x: "0 \<le> x" "x \<le> 2 ^ 1000" using assms by (auto simp: f64_normal_def intro: order_trans [rotated])
  then show "f64_of x = Fin (f64_round x)" by (intro f64_of_finite) simp
  have "\<bar>f64_round x - x\<bar> \<le> x / 2 ^ 53"
  proof (cases "x = 0")
    case False
    have "(2 :: rat) powi (- 1022) \<le> 2 powi (- 1000)" by (intro power_int_increasing) simp_all
    also have "\<dots> \<le> x" using assms False by (simp add: f64_normal_def power_int_def inverse_eq_divide power_one_over)
    finally show ?thesis using f64_round_relative [of x] x(1) by simp
  qed simp
  then show "x - x / 2 ^ 53 \<le> f64_round x" "f64_round x \<le> x + x / 2 ^ 53" by linarith+
qed

section \<open>A calculus of relative errors\<close>

text \<open>
  \<open>near n k x f\<close>: \<open>f\<close> is finite and \<open>n\<close> roundings away from the number \<open>x\<close>, which is zero or positive, \<open>k\<close> binary
  orders of magnitude around one.
\<close>

definition f64_step :: rat where "f64_step = 1 + 1 / 2 ^ 52"

definition magnitude :: "nat \<Rightarrow> rat \<Rightarrow> bool" where
  "magnitude k x \<longleftrightarrow> x = 0 \<or> (1 / 2 ^ k \<le> x \<and> x \<le> 2 ^ k)"

definition near :: "nat \<Rightarrow> nat \<Rightarrow> rat \<Rightarrow> f64 \<Rightarrow> bool" where
  "near n k x f \<longleftrightarrow> magnitude k x \<and> (\<exists>y. f = Fin y \<and> x \<le> y * f64_step ^ n \<and> y \<le> x * f64_step ^ n)"

lemma step_ge_1: "1 \<le> f64_step ^ n" "0 < f64_step ^ n"
  by (simp_all add: f64_step_def one_le_power)

lemma step_mono: "n \<le> m \<Longrightarrow> f64_step ^ n \<le> f64_step ^ m"
  by (rule power_increasing) (simp_all add: f64_step_def)

lemma step_nonneg: "0 \<le> x \<Longrightarrow> x \<le> y * f64_step ^ n \<Longrightarrow> 0 \<le> y"
  using step_ge_1(2) [of n] by (meson order_trans zero_le_mult_iff not_less)

lemma magnitude_nonneg: "magnitude k x \<Longrightarrow> 0 \<le> x"
  by (auto simp: magnitude_def intro: order_trans [rotated])

lemma magnitude_mono: "magnitude k x \<Longrightarrow> k \<le> j \<Longrightarrow> magnitude j x"
  unfolding magnitude_def
  by (auto intro: order_trans [OF _ power_increasing] order_trans [OF divide_left_mono [OF power_increasing]])

lemma magnitude_mult: "magnitude k x \<Longrightarrow> magnitude j y \<Longrightarrow> magnitude (k + j) (x * y)"
proof (cases "x = 0 \<or> y = 0")
  case False
  assume "magnitude k x" "magnitude j y"
  with False have xy: "1 / 2 ^ k \<le> x" "x \<le> 2 ^ k" "1 / 2 ^ j \<le> y" "y \<le> 2 ^ j" "0 \<le> x" "0 \<le> y"
    by (auto simp: magnitude_def intro: order_trans [rotated])
  have "1 / 2 ^ k * (1 / 2 ^ j) \<le> x * y" by (rule mult_mono) (use xy in simp_all)
  moreover have "x * y \<le> 2 ^ k * 2 ^ j" by (rule mult_mono) (use xy in simp_all)
  ultimately show ?thesis by (simp add: magnitude_def power_add)
qed (auto simp: magnitude_def)

lemma magnitude_inverse: "magnitude k x \<Longrightarrow> magnitude k (1 / x)"
proof (cases "x = 0")
  case False
  assume "magnitude k x"
  with False have "1 / 2 ^ k \<le> x" "x \<le> 2 ^ k" "0 < x" by (auto simp: magnitude_def intro: less_le_trans [rotated])
  then show ?thesis by (simp add: magnitude_def field_simps)
qed (simp add: magnitude_def)

lemma magnitude_add: "magnitude k x \<Longrightarrow> magnitude k y \<Longrightarrow> magnitude (Suc k) (x + y)"
proof (cases "x = 0 \<or> y = 0")
  case True
  assume "magnitude k x" "magnitude k y"
  with True show ?thesis using magnitude_mono [of k _ "Suc k"] by auto
next
  case False
  assume "magnitude k x" "magnitude k y"
  with False have xy: "1 / 2 ^ k \<le> x" "x \<le> 2 ^ k" "1 / 2 ^ k \<le> y" "y \<le> 2 ^ k" by (auto simp: magnitude_def)
  have "(1 :: rat) / 2 ^ Suc k \<le> 1 / 2 ^ k" by (simp add: field_simps)
  then show ?thesis using xy by (auto simp: magnitude_def intro: order_trans [of _ "1 / 2 ^ k + 0"])
qed

lemma near_const: "magnitude k c \<Longrightarrow> near 0 k c (Fin c)"
  by (simp add: near_def)

text \<open>A result that is \<open>n\<close> roundings away before it is rounded.\<close>

lemma near_round:
  assumes x: "magnitude k x" and y: "x \<le> y * f64_step ^ n" "y \<le> x * f64_step ^ n" and b: "k \<le> 900" "n \<le> 20"
  shows "near (Suc n) k x (f64_of y)"
proof -
  have s: "f64_step ^ n \<le> 2"
    using step_mono [OF b(2)] by (rule order_trans) (simp add: f64_step_def power_divide field_simps)
  have y0: "0 \<le> y" using magnitude_nonneg [OF x] y(1) by (rule step_nonneg)
  have "f64_normal y"
  proof (cases "x = 0")
    case True
    then show ?thesis using y y0 by (simp add: f64_normal_def)
  next
    case False
    with magnitude_mono [OF x b(1)] have m: "1 / 2 ^ 900 \<le> x" "x \<le> 2 ^ 900" by (simp_all add: magnitude_def)
    have "x * f64_step ^ n \<le> x * 2" "y * f64_step ^ n \<le> y * 2"
      using s y0 magnitude_nonneg [OF x] by (simp_all add: mult_left_mono)
    then have "y \<le> 2 * 2 ^ 900" "1 / 2 ^ 900 \<le> y * 2" using y m by linarith+
    then have "y \<le> 2 * 2 ^ 900" "1 / 2 ^ 900 / 2 \<le> y" by (simp_all only: pos_divide_le_eq zero_less_numeral)
    moreover have "(1 :: rat) / 2 ^ 1000 \<le> 1 / 2 ^ 900 / 2" "(2 :: rat) * 2 ^ 900 \<le> 2 ^ 1000" by simp_all
    ultimately show ?thesis unfolding f64_normal_def by (meson order_trans)
  qed
  note r = f64_round_near [OF this]
  have "y \<le> f64_round y * f64_step" "f64_round y \<le> y * f64_step"
    using r(1,2) y0 by (simp_all add: f64_step_def algebra_simps)
  then have "y * f64_step ^ n \<le> f64_round y * f64_step * f64_step ^ n" "f64_round y \<le> x * f64_step ^ n * f64_step"
    using y(2) step_ge_1(2) [of n] step_ge_1(2) [of 1] by (auto intro: order_trans mult_right_mono)
  then have "x \<le> f64_round y * f64_step ^ Suc n" "f64_round y \<le> x * f64_step ^ Suc n"
    using y(1) by (simp_all add: ac_simps)
  then show ?thesis using x r(3) by (simp add: near_def)
qed

lemma near_of: "magnitude k x \<Longrightarrow> k \<le> 900 \<Longrightarrow> near 1 k x (f64_of x)"
  using near_round [of k x x 0] by simp

lemma near_add:
  assumes "near n k x f" "near m j y g" "max k j < 900" "max n m \<le> 20"
  shows "near (Suc (max n m)) (Suc (max k j)) (x + y) (f64_add f g)"
proof -
  let ?s = "f64_step ^ max n m"
  obtain a b where a: "f = Fin a" "x \<le> a * f64_step ^ n" "a \<le> x * f64_step ^ n"
    and b: "g = Fin b" "y \<le> b * f64_step ^ m" "b \<le> y * f64_step ^ m" and m: "magnitude k x" "magnitude j y"
    using assms(1,2) unfolding near_def by blast
  have widen: "u \<le> v * ?s" "v \<le> u * ?s"
    if "u \<le> v * f64_step ^ i" "v \<le> u * f64_step ^ i" "i \<le> max n m" "0 \<le> u" for u v i
  proof -
    have "0 \<le> v" using that(4,1) by (rule step_nonneg)
    then show "u \<le> v * ?s" "v \<le> u * ?s"
      using that step_mono [OF that(3)] by (auto intro: order_trans mult_left_mono)
  qed
  have "x + y \<le> (a + b) * ?s" "a + b \<le> (x + y) * ?s"
    using widen [OF a(2,3)] widen [OF b(2,3)] m magnitude_nonneg by (simp_all add: distrib_right add_mono)
  moreover have "magnitude (Suc (max k j)) (x + y)"
    using m magnitude_mono by (intro magnitude_add) auto
  ultimately show ?thesis using a(1) b(1) assms(3,4) by (simp add: near_round)
qed

lemma near_mult:
  assumes "near n k x f" "near m j y g" "k + j \<le> 900" "n + m \<le> 20"
  shows "near (Suc (n + m)) (k + j) (x * y) (f64_mul f g)"
proof -
  obtain a b where a: "f = Fin a" "x \<le> a * f64_step ^ n" "a \<le> x * f64_step ^ n"
    and b: "g = Fin b" "y \<le> b * f64_step ^ m" "b \<le> y * f64_step ^ m" and m: "magnitude k x" "magnitude j y"
    using assms(1,2) unfolding near_def by blast
  note p = magnitude_nonneg [OF m(1)] magnitude_nonneg [OF m(2)]
  have "0 \<le> a" "0 \<le> b" using p a(2) b(2) by (blast intro: step_nonneg)+
  then have "x * y \<le> (a * f64_step ^ n) * (b * f64_step ^ m)" "a * b \<le> (x * f64_step ^ n) * (y * f64_step ^ m)"
    using a(2,3) b(2,3) p step_ge_1(2) by (auto intro!: mult_mono simp: less_imp_le)
  then show ?thesis
    using a(1) b(1) magnitude_mult [OF m] assms(3,4) by (simp add: near_round power_add ac_simps)
qed

lemma near_div:
  assumes "near n k x f" "near m j y g" "y \<noteq> 0" "k + j \<le> 900" "n + m \<le> 20"
  shows "near (Suc (n + m)) (k + j) (x / y) (f64_div f g)"
proof -
  obtain a b where a: "f = Fin a" "x \<le> a * f64_step ^ n" "a \<le> x * f64_step ^ n"
    and b: "g = Fin b" "y \<le> b * f64_step ^ m" "b \<le> y * f64_step ^ m" and m: "magnitude k x" "magnitude j y"
    using assms(1,2) unfolding near_def by blast
  have x: "0 \<le> x" and y: "0 < y" using magnitude_nonneg m assms(3) by force+
  then have ab: "0 \<le> a" "0 < b" using step_nonneg [OF _ a(2)] step_nonneg [OF _ b(2)] b(2) by (auto simp: order.order_iff_strict)
  have "x * b \<le> (a * f64_step ^ n) * (y * f64_step ^ m)" "a * y \<le> (x * f64_step ^ n) * (b * f64_step ^ m)"
    using a(2,3) b(2,3) x y ab step_ge_1(2) by (auto intro!: mult_mono simp: less_imp_le)
  then have "x / y \<le> a / b * f64_step ^ (n + m)" "a / b \<le> x / y * f64_step ^ (n + m)"
    using y ab by (simp_all add: field_simps power_add)
  then show ?thesis
    using a(1) b(1) ab(2) magnitude_mult [OF m(1) magnitude_inverse [OF m(2)]] assms(4,5) by (simp add: near_round)
qed

text \<open>What a figure comes to that is a few roundings away from its exact value.\<close>

definition accurate :: "rat \<Rightarrow> f64 \<Rightarrow> bool" where
  "accurate x f \<longleftrightarrow> (\<exists>y. f = Fin y \<and> \<bar>y - x\<bar> \<le> x / 10 ^ 14)"

lemma near_accurate: "near n k x f \<Longrightarrow> n \<le> 20 \<Longrightarrow> accurate x f"
proof -
  assume n: "near n k x f" "n \<le> 20"
  then obtain y where y: "f = Fin y" "x \<le> y * f64_step ^ n" "y \<le> x * f64_step ^ n" and x: "0 \<le> x"
    unfolding near_def using magnitude_nonneg by blast
  have "f64_step ^ n \<le> 1 + 1 / (2 * 10 ^ 14)"
    using step_mono [OF n(2)] by (rule order_trans) (simp add: f64_step_def power_divide field_simps)
  moreover have "0 \<le> y" using x y(2) by (rule step_nonneg)
  ultimately have "x \<le> y * (1 + 1 / (2 * 10 ^ 14))" "y \<le> x * (1 + 1 / (2 * 10 ^ 14))"
    using x by (auto intro: order_trans [OF y(2)] order_trans [OF y(3)] mult_left_mono simp del: power_numeral)
  then have "y - x \<le> x / 10 ^ 14" "x - y \<le> x / 10 ^ 14" using x by (simp_all add: field_simps)
  then have "\<bar>y - x\<bar> \<le> x / 10 ^ 14" by linarith
  then show ?thesis using y(1) by (auto simp: accurate_def)
qed

text \<open>Printing adds half a unit of the last digit.\<close>

lemma show_accurate:
  assumes "accurate x f" "0 \<le> x"
  shows "\<exists>k. f64_show n f = show_decimals n k \<and> \<bar>of_nat k / 10 ^ n - x\<bar> \<le> 1 / (2 * 10 ^ n) + x / 10 ^ 14"
proof -
  obtain y where y: "f = Fin y" "\<bar>y - x\<bar> \<le> x / 10 ^ 14" using assms(1) by (auto simp: accurate_def)
  then have "x - y \<le> x / 10 ^ 14" by linarith
  then have p: "0 \<le> y" using assms(2) by (simp add: field_simps)
  let ?k = "round_half_even (y * 10 ^ n)"
  have k: "0 \<le> ?k" using round_half_even_int(2) [of 0 "y * 10 ^ n"] p by simp
  have "\<bar>of_int ?k - y * 10 ^ n\<bar> / 10 ^ n \<le> (1 / 2) / 10 ^ n"
    using round_half_even_error by (rule divide_right_mono) simp
  moreover have "\<bar>of_int ?k - y * 10 ^ n\<bar> / 10 ^ n = \<bar>of_int ?k / 10 ^ n - y\<bar>"
    using abs_divide [of "of_int ?k - y * 10 ^ n" "10 ^ n"] by (simp add: diff_divide_distrib)
  ultimately have "\<bar>of_int ?k / 10 ^ n - y\<bar> \<le> 1 / (2 * 10 ^ n)" by simp
  moreover have "\<bar>of_int ?k / 10 ^ n - x\<bar> \<le> \<bar>of_int ?k / 10 ^ n - y\<bar> + \<bar>y - x\<bar>"
    using abs_triangle_ineq [of "of_int ?k / 10 ^ n - y" "y - x"] by simp
  ultimately have "\<bar>of_int ?k / 10 ^ n - x\<bar> \<le> 1 / (2 * 10 ^ n) + x / 10 ^ 14"
    using y(2) by (meson add_mono order_trans)
  then show ?thesis using y(1) p k by (intro exI [of _ "nat ?k"]) simp
qed

section \<open>Figures of either sign\<close>

definition fin_le :: "rat \<Rightarrow> f64 \<Rightarrow> bool" where
  "fin_le B f \<longleftrightarrow> (\<exists>x. f = Fin x \<and> \<bar>x\<bar> \<le> B)"

lemma fin_leI: "\<bar>x\<bar> \<le> B \<Longrightarrow> fin_le B (Fin x)"
  by (simp add: fin_le_def)

lemma fin_of:
  assumes "\<bar>x\<bar> \<le> B" "B \<le> 2 ^ 900" "2 * B + 1 \<le> C"
  shows "fin_le C (f64_of x)"
proof -
  have "B \<le> 2 ^ 1000" using assms(2) by (rule order_trans) simp
  then have "f64_of x = Fin (f64_round x)" using assms(1) by (intro f64_of_finite) simp
  moreover have "\<bar>f64_round x\<bar> \<le> C" using f64_round_bound [of x] assms(1,3) by linarith
  ultimately show ?thesis by (simp add: fin_le_def)
qed

lemma fin_add: "fin_le A f \<Longrightarrow> fin_le B g \<Longrightarrow> A + B \<le> 2 ^ 900 \<Longrightarrow> 2 * (A + B) + 1 \<le> C \<Longrightarrow> fin_le C (f64_add f g)"
  using fin_of [of "x + y" "A + B" C for x y] abs_triangle_ineq order_trans
  by (auto simp: fin_le_def [of A] fin_le_def [of B])

lemma fin_sub: "fin_le A f \<Longrightarrow> fin_le B g \<Longrightarrow> A + B \<le> 2 ^ 900 \<Longrightarrow> 2 * (A + B) + 1 \<le> C \<Longrightarrow> fin_le C (f64_sub f g)"
  unfolding f64_sub_def by (rule fin_add) (auto simp: fin_le_def)

lemma fin_mul:
  assumes "fin_le A f" "0 \<le> c" "A * c \<le> 2 ^ 900" "2 * (A * c) + 1 \<le> C"
  shows "fin_le C (f64_mul f (Fin c))"
proof -
  obtain x where x: "f = Fin x" "\<bar>x\<bar> \<le> A" using assms(1) by (auto simp: fin_le_def)
  then have "\<bar>x * c\<bar> \<le> A * c" using assms(2) by (simp add: abs_mult mult_right_mono)
  then show ?thesis using fin_of [of "x * c" "A * c" C] assms(3,4) x by simp
qed

lemma fin_div:
  assumes "fin_le A f" "1 / l \<le> y" "0 < l" "A * l \<le> 2 ^ 900" "2 * (A * l) + 1 \<le> C"
  shows "fin_le C (f64_div f (Fin y))"
proof -
  obtain x where x: "f = Fin x" "\<bar>x\<bar> \<le> A" using assms(1) by (auto simp: fin_le_def)
  have "0 < y" using assms(2,3) by (auto intro: less_le_trans [of 0 "1 / l"])
  with assms(2,3) have y: "0 < y" "1 / y \<le> l" by (simp_all add: field_simps)
  have "\<bar>x / y\<bar> = \<bar>x\<bar> * (1 / y)" using y(1) by (simp add: abs_divide)
  also have "\<dots> \<le> A * l" using x(2) y by (intro mult_mono) auto
  finally show ?thesis using fin_of [of "x / y" "A * l" C] assms(4,5) x y(1) by simp
qed

end
