(* ===== verification/Bench_Report.thy ===== *)
theory Bench_Report
  imports Bench_Spec Float64
begin

text \<open>
  What the benchmark tool computes and prints: CPU seconds, the rates, the loss in percent, and the JSON line
  (\<^verbatim>\<open>src/bin/bench.rs\<close>, built without the heap profiler).  The figures are finite and close to the exact ones.
\<close>

section \<open>The figures\<close>

text \<open>The user and system times of \<^verbatim>\<open>getrusage\<close>, each in seconds and microseconds, or its failure.\<close>

type_synonym rusage = "((int \<times> int) \<times> (int \<times> int)) option"

definition timeval_secs :: "int \<times> int \<Rightarrow> f64" where
  "timeval_secs t = f64_add (f64_of (of_int (fst t))) (f64_div (f64_of (of_int (snd t))) (Fin 1000000))"

definition cpu_secs :: "rusage \<Rightarrow> f64" where
  "cpu_secs u = (case u of None \<Rightarrow> Fin 0 | Some (utime, stime) \<Rightarrow> f64_add (timeval_secs utime) (timeval_secs stime))"

text \<open>\<^verbatim>\<open>Duration::as_secs_f64\<close> of a number of nanoseconds, and \<^verbatim>\<open>as f64\<close> of a 64-bit number.\<close>

definition as_secs_f64 :: "nat \<Rightarrow> f64" where
  "as_secs_f64 d =
     f64_add (f64_of (of_nat (d div 1000000000))) (f64_div (f64_of (of_nat (d mod 1000000000))) (Fin 1000000000))"

definition u64_as_f64 :: "u64 \<Rightarrow> f64" where
  "u64_as_f64 n = f64_of (of_nat (unat n))"

record figures =
  fg_elapsed :: f64
  fg_msgs_per_s :: f64
  fg_mbps :: f64
  fg_loss :: f64
  fg_cpu :: f64
  fg_us_per_msg :: f64

definition report_rate :: "f64 \<Rightarrow> f64 \<Rightarrow> f64" where
  "report_rate elapsed v = (if f64_positive elapsed then f64_div v elapsed else Fin 0)"

definition loss_percent :: "u64 \<Rightarrow> u64 \<Rightarrow> f64" where
  "loss_percent miss cnt = f64_div (f64_mul (u64_as_f64 miss) (Fin 100)) (u64_as_f64 cnt)"

text \<open>\<^verbatim>\<open>end - start\<close> is zero if the clock went back.\<close>

definition report_figures :: "u64 \<Rightarrow> rusage \<Rightarrow> rusage \<Rightarrow> bench_report \<Rightarrow> figures" where
  "report_figures cnt cpu0 cpu1 r =
     (let elapsed = as_secs_f64 (nat (rp_elapsed r));
          cpu = f64_sub (cpu_secs cpu1) (cpu_secs cpu0);
          us_per_msg =
            (if 0 < rp_received r
             then f64_div (f64_mul cpu (Fin 1000000)) (u64_as_f64 (rp_received r)) else Fin 0)
      in \<lparr>fg_elapsed = elapsed,
          fg_msgs_per_s = report_rate elapsed (u64_as_f64 (rp_received r)),
          fg_mbps = report_rate elapsed (f64_div (f64_mul (u64_as_f64 (rp_bytes r)) (Fin 8)) (Fin 1000000)),
          fg_loss = loss_percent (rp_missing r) cnt,
          fg_cpu = cpu, fg_us_per_msg = us_per_msg\<rparr>)"

section \<open>The line\<close>

definition json_quote :: "string \<Rightarrow> string" where
  "json_quote s = CHR 0x22 # s @ [CHR 0x22]"

definition json_object :: "(string \<times> string) list \<Rightarrow> string" where
  "json_object kvs = ''{'' @ join CHR '','' (map (\<lambda>(k, v). json_quote k @ '':'' @ v) kvs) @ ''}''"

definition report_line :: "bench_options \<Rightarrow> bench_report \<Rightarrow> figures \<Rightarrow> string" where
  "report_line b r F =
     json_object
       [(''stack'', json_quote (bo_stack b)), (''proto'', json_quote (protocol_name (bo_proto b))),
        (''count'', dec_string (unat (bo_count b))), (''size'', dec_string (bo_size b)),
        (''received'', dec_string (unat (rp_received r))), (''bytes'', dec_string (unat (rp_bytes r))),
        (''elapsed_s'', f64_show 6 (fg_elapsed F)), (''msgs_per_s'', f64_show 1 (fg_msgs_per_s F)),
        (''mbps'', f64_show 1 (fg_mbps F)), (''loss_pct'', f64_show 3 (fg_loss F)),
        (''cpu_s'', f64_show 6 (fg_cpu F)), (''cpu_us_per_msg'', f64_show 3 (fg_us_per_msg F))]"

definition chunk_line :: "bench_options \<Rightarrow> nat \<Rightarrow> string" where
  "chunk_line b n =
     json_object
       [(''stack'', json_quote (bo_stack b)), (''proto'', json_quote (protocol_name (bo_proto b))),
        (''sent'', dec_string n)]"

text \<open>What a run that ends well has written to standard output.\<close>

definition bench_stdout :: "bench_options \<Rightarrow> rusage \<Rightarrow> rusage \<Rightarrow> bench_output \<Rightarrow> string" where
  "bench_stdout b cpu0 cpu1 out =
     (case out of
        Chunk_Sent n \<Rightarrow> chunk_line b n
      | Consumed r \<Rightarrow> report_line b r (report_figures (bo_count b) cpu0 cpu1 r)) @ [CHR 0x0A]"

section \<open>The figures are right\<close>

definition rusage_ok :: "rusage \<Rightarrow> bool" where
  "rusage_ok u \<longleftrightarrow>
     (case u of None \<Rightarrow> True
      | Some ((us, uu), (ss, su)) \<Rightarrow> \<forall>t \<in> {us, uu, ss, su}. - (2 ^ 63) \<le> t \<and> t < 2 ^ 63)"

lemma timeval_finite:
  assumes "- (2 ^ 63) \<le> fst t \<and> fst t < 2 ^ 63" "- (2 ^ 63) \<le> snd t \<and> snd t < 2 ^ 63"
  shows "fin_le (2 ^ 70) (timeval_secs t)"
proof -
  have i: "\<bar>of_int n\<bar> \<le> (2 ^ 63 :: rat)" if "- (2 ^ 63) \<le> n \<and> n < 2 ^ 63" for n :: int
  proof -
    have "(of_int \<bar>n\<bar> :: rat) \<le> of_int (2 ^ 63)" using that by (simp only: of_int_le_iff) auto
    then show ?thesis by simp
  qed
  have "fin_le (2 ^ 65) (f64_of (of_int (fst t)))" "fin_le (2 ^ 65) (f64_of (of_int (snd t)))"
    by (rule fin_of [OF i]; use assms in simp)+
  then have "fin_le (2 ^ 65) (f64_of (of_int (fst t)))" "fin_le (2 ^ 67) (f64_div (f64_of (of_int (snd t))) (Fin 1000000))"
    using fin_div [where l = 1 and A = "2 ^ 65" and C = "2 ^ 67" and y = 1000000] by simp_all
  then show ?thesis unfolding timeval_secs_def by (rule fin_add) simp_all
qed

lemma cpu_finite: "rusage_ok u \<Longrightarrow> fin_le (2 ^ 75) (cpu_secs u)"
  by (auto simp: cpu_secs_def rusage_ok_def intro: fin_leI split: option.splits
      intro!: fin_add [OF timeval_finite timeval_finite])

lemma nat_magnitude: "n < 2 ^ k \<Longrightarrow> magnitude k (of_nat n)"
proof (cases "n = 0")
  case False
  assume "n < 2 ^ k"
  then have "(of_nat n :: rat) \<le> of_nat (2 ^ k)" by (simp only: of_nat_le_iff less_imp_le)
  moreover have "(1 :: rat) / 2 ^ k \<le> 1" "(1 :: rat) \<le> of_nat n" using False by simp_all
  ultimately show ?thesis unfolding magnitude_def by (metis of_nat_numeral of_nat_power order_trans)
qed (simp add: magnitude_def)

lemma near_nat: "n < 2 ^ k \<Longrightarrow> k \<le> 900 \<Longrightarrow> near 1 k (of_nat n) (f64_of (of_nat n))"
  by (intro near_of nat_magnitude)

lemma near_consts:
  "near 0 3 8 (Fin 8)" "near 0 7 100 (Fin 100)" "near 0 20 1000000 (Fin 1000000)"
  "near 0 30 1000000000 (Fin 1000000000)"
  by (simp_all add: near_const magnitude_def)

lemma near_u64: "near 1 64 (of_nat (unat n)) (u64_as_f64 n)"
  unfolding u64_as_f64_def by (rule near_nat [OF u64_bound]) simp

lemma near_elapsed:
  assumes "d < 2 ^ 64 * 1000000000"
  shows "near 3 95 (of_nat d / 10 ^ 9) (as_secs_f64 d)"
proof -
  let ?s = "d div 1000000000" and ?n = "d mod 1000000000"
  have s: "?s < 2 ^ 64" using assms by (simp add: less_mult_imp_div_less)
  have n: "?n < 2 ^ 64" by (rule less_trans [of _ 1000000000]) simp_all
  have "near 2 94 (of_nat ?n / 1000000000) (f64_div (f64_of (of_nat ?n)) (Fin 1000000000))"
    using near_div [OF near_nat [OF n] near_consts(4)] by (simp add: numeral_2_eq_2)
  with near_nat [OF s] have "near 3 95 (of_nat ?s + of_nat ?n / 1000000000) (as_secs_f64 d)"
    unfolding as_secs_f64_def using near_add by (fastforce simp: numeral_3_eq_3 numeral_2_eq_2)
  moreover have "(of_nat ?s + of_nat ?n / 1000000000 :: rat) = of_nat (?s * 1000000000 + ?n) / 10 ^ 9"
    by (simp only: of_nat_add of_nat_mult) (simp add: add_divide_distrib)
  ultimately show ?thesis by simp
qed

lemma near_loss:
  "cnt \<noteq> 0 \<Longrightarrow> near 4 135 (100 * of_nat (unat miss) / of_nat (unat cnt)) (loss_percent miss cnt)"
  unfolding loss_percent_def
  using near_div [OF near_mult [OF near_u64 near_consts(2)] near_u64, of cnt miss]
  by (simp add: mult.commute eval_nat_numeral unat_eq_0 del: of_nat_unat)

text \<open>A rate over the elapsed time; over no time it is zero.\<close>

lemma near_rate:
  assumes v: "near n k v f" "n \<le> 10" "k \<le> 800" and d: "d < 2 ^ 64 * 1000000000"
  shows "accurate (v / (of_nat d / 10 ^ 9)) (report_rate (as_secs_f64 d) f)"
proof -
  obtain e where e: "as_secs_f64 d = Fin e" "of_nat d / 10 ^ 9 \<le> e * f64_step ^ 3" "e \<le> of_nat d / 10 ^ 9 * f64_step ^ 3"
    using near_elapsed [OF d] by (auto simp: near_def)
  show ?thesis
  proof (cases "d = 0")
    case True
    then show ?thesis using e by (simp add: report_rate_def accurate_def)
  next
    case False
    then have "0 < of_nat d / (10 ^ 9 :: rat)" by simp
    then have "0 < e" using e(2) step_ge_1(2) [of 3] by (metis less_le_trans zero_less_mult_pos2)
    then have "report_rate (as_secs_f64 d) f = f64_div f (as_secs_f64 d)" by (simp add: report_rate_def e(1))
    moreover have "near (Suc (n + 3)) (k + 95) (v / (of_nat d / 10 ^ 9)) (f64_div f (as_secs_f64 d))"
      using near_div [OF v(1) near_elapsed [OF d]] v(2,3) False by simp
    ultimately show ?thesis using v(2) by (auto intro: near_accurate)
  qed
qed

lemma near_megabits: "near 3 87 (of_nat (unat n) * 8 / 10 ^ 6) (f64_div (f64_mul (u64_as_f64 n) (Fin 8)) (Fin 1000000))"
  using near_div [OF near_mult [OF near_u64 near_consts(1)] near_consts(3), of n]
  by (simp add: eval_nat_numeral del: of_nat_unat)

text \<open>CPU times may have any sign; a count that is not zero is at least a half as a float.\<close>

lemma cpu_figures_finite:
  assumes "rusage_ok cpu0" "rusage_ok cpu1"
  defines "cpu \<equiv> f64_sub (cpu_secs cpu1) (cpu_secs cpu0)"
  shows "\<exists>x. cpu = Fin x" "n \<noteq> 0 \<Longrightarrow> \<exists>x. f64_div (f64_mul cpu (Fin 1000000)) (u64_as_f64 n) = Fin x"
proof -
  have c: "fin_le (2 ^ 80) cpu" unfolding cpu_def by (rule fin_sub [OF cpu_finite cpu_finite]) (simp_all add: assms)
  then show "\<exists>x. cpu = Fin x" by (auto simp: fin_le_def)
  assume n: "n \<noteq> 0"
  obtain y where y: "u64_as_f64 n = Fin y" "of_nat (unat n) \<le> y * f64_step"
    using near_u64 [of n] by (auto simp: near_def simp del: of_nat_unat)
  have "1 \<le> unat n" using n by (simp add: unat_gt_0 Suc_le_eq)
  then have "(1 :: rat) \<le> of_nat (unat n)" by (metis of_nat_1 of_nat_le_iff)
  then have "1 / 2 \<le> y" using y(2) by (simp add: f64_step_def field_simps del: of_nat_unat)
  moreover have "fin_le (2 ^ 110) (f64_mul cpu (Fin 1000000))" by (rule fin_mul [OF c]) simp_all
  ultimately have "fin_le (2 ^ 120) (f64_div (f64_mul cpu (Fin 1000000)) (Fin y))" by (intro fin_div [where l = 2]) auto
  then show "\<exists>x. f64_div (f64_mul cpu (Fin 1000000)) (u64_as_f64 n) = Fin x" by (auto simp: fin_le_def y(1))
qed

lemma unat_missing: "unat (missing cnt rcvd) = unat cnt - unat rcvd"
  by (auto simp: missing_def unat_sub word_le_nat_alt)

lemma report_times:
  fixes cnt :: u64 and cpu0 cpu1 :: rusage
  assumes "nat (rp_elapsed r) < 2 ^ 64 * 1000000000"
  defines "secs \<equiv> rat_of_nat (nat (rp_elapsed r)) / 10 ^ 9" and "F \<equiv> report_figures cnt cpu0 cpu1 r"
  shows "accurate secs (fg_elapsed F)"
    "accurate (of_nat (unat (rp_received r)) / secs) (fg_msgs_per_s F)"
    "accurate (of_nat (unat (rp_bytes r)) * 8 / 10 ^ 6 / secs) (fg_mbps F)"
  using near_accurate [OF near_elapsed [OF assms(1)]] near_rate [OF near_u64 _ _ assms(1)]
    near_rate [OF near_megabits _ _ assms(1), of "rp_bytes r"]
  by (simp_all add: F_def report_figures_def Let_def secs_def del: of_nat_unat)

lemma report_loss:
  assumes "cnt \<noteq> 0" "unat (rp_missing r) = unat cnt - n"
  shows "\<exists>k. f64_show 3 (fg_loss (report_figures cnt cpu0 cpu1 r)) = show_decimals 3 k
    \<and> \<bar>rat_of_nat k / 1000 - 100 * of_nat (unat cnt - n) / of_nat (unat cnt)\<bar> < 1 / 1000"
proof -
  let ?x = "100 * of_nat (unat cnt - n) / of_nat (unat cnt) :: rat" and ?f = "fg_loss (report_figures cnt cpu0 cpu1 r)"
  have "accurate ?x ?f"
    using near_accurate [OF near_loss [OF assms(1), of "rp_missing r"]]
    by (simp add: report_figures_def Let_def assms(2) del: of_nat_unat)
  moreover have x: "0 \<le> ?x" "?x \<le> 100" by (simp_all add: divide_le_eq del: of_nat_unat)
  ultimately obtain k where k: "f64_show 3 ?f = show_decimals 3 k" "\<bar>of_nat k / 10 ^ 3 - ?x\<bar> \<le> 1 / (2 * 10 ^ 3) + ?x / 10 ^ 14"
    using show_accurate by blast
  have "1 / (2 * 10 ^ 3) + ?x / 10 ^ 14 < 1 / 1000" using x(2) by simp
  then have "\<bar>of_nat k / 10 ^ 3 - ?x\<bar> < 1 / 1000" by (rule le_less_trans [OF k(2)])
  then show ?thesis using k(1) by (intro exI [of _ k]) simp
qed

text \<open>
  C31. The report of a run: its figures are finite numbers, never the NaN or infinity that JSON lacks, even if no time has
  passed, nothing arrived or the CPU clock went backwards; the elapsed seconds, messages and megabits per second
  are the exact ones to one part in a hundred million million (the rates are zero if no time has passed); and the loss that is printed is the share of the
  messages asked for that did not arrive, to within one unit of the last of its three decimals.
\<close>

theorem report_figures_sound:
  fixes E :: "('k, 'i, 't) bench_env" and st :: "('k, 'i, 't) bench_loop"
  fixes cfg :: loop_config and sz :: nat and start :: int and cpu0 cpu1 :: rusage
  defines "r \<equiv> bench_report_of E cfg sz start st"
  defines "F \<equiv> report_figures (lc_count cfg) cpu0 cpu1 r"
  defines "secs \<equiv> rat_of_nat (nat (rp_elapsed r)) / 10 ^ 9"
  assumes "lc_count cfg \<noteq> 0" "rp_elapsed r < 2 ^ 64 * 10 ^ 9" "rusage_ok cpu0" "rusage_ok cpu1"
  shows "accurate secs (fg_elapsed F)
    \<and> accurate (of_nat (unat (rp_received r)) / secs) (fg_msgs_per_s F)
    \<and> accurate (of_nat (unat (rp_bytes r)) * 8 / 10 ^ 6 / secs) (fg_mbps F)
    \<and> (\<exists>x. fg_cpu F = Fin x) \<and> (\<exists>x. fg_us_per_msg F = Fin x) \<and> (\<exists>x. fg_loss F = Fin x)
    \<and> (\<exists>k. f64_show 3 (fg_loss F) = show_decimals 3 k \<and>
         \<bar>rat_of_nat k / 1000 - 100 * of_nat (unat (lc_count cfg) - unat (rp_received r)) / of_nat (unat (lc_count cfg))\<bar>
           < 1 / 1000)"
proof (intro conjI)
  have d: "nat (rp_elapsed r) < 2 ^ 64 * 1000000000" using assms(5) by simp
  note times = report_times [OF d, folded secs_def, of "lc_count cfg" cpu0 cpu1, folded F_def]
  show "accurate secs (fg_elapsed F)" by (rule times)
  show "accurate (of_nat (unat (rp_received r)) / secs) (fg_msgs_per_s F)" by (rule times)
  show "accurate (of_nat (unat (rp_bytes r)) * 8 / 10 ^ 6 / secs) (fg_mbps F)" by (rule times)
  show "\<exists>x. fg_cpu F = Fin x" "\<exists>x. fg_us_per_msg F = Fin x"
    using cpu_figures_finite [OF assms(6,7)] by (auto simp: F_def report_figures_def Let_def word_neq_0_conv)
  show "\<exists>x. fg_loss F = Fin x"
    using near_loss [OF assms(4), of "rp_missing r"] by (auto simp: F_def report_figures_def Let_def near_def)
  have m: "unat (rp_missing r) = unat (lc_count cfg) - unat (rp_received r)"
    by (simp only: r_def bench_report_of_def Let_def bench_report.simps unat_missing)
  show "\<exists>k. f64_show 3 (fg_loss F) = show_decimals 3 k \<and>
      \<bar>rat_of_nat k / 1000 - 100 * of_nat (unat (lc_count cfg) - unat (rp_received r)) / of_nat (unat (lc_count cfg))\<bar> < 1 / 1000"
    unfolding F_def by (rule report_loss [OF assms(4) m])
qed

end
