(* ===== verification/Bench_Json.thy ===== *)
theory Bench_Json
  imports Bench_Report
begin

text \<open>
  The line the benchmark tool prints, read back.  \<^verbatim>\<open>main\<close> writes it with a format string; scripts read it as JSON.
  The reader here accepts flat objects whose strings need no escapes, all of them JSON.
\<close>

section \<open>A reader\<close>

definition digit :: "char \<Rightarrow> bool" where
  "digit c \<longleftrightarrow> to_digit 10 c \<noteq> None"

definition json_digits :: "string \<Rightarrow> bool" where
  "json_digits s \<longleftrightarrow> s \<noteq> [] \<and> list_all digit s"

text \<open>A number: a sign, an integer without superfluous zeros, a fraction.\<close>

definition json_unsigned :: "string \<Rightarrow> bool" where
  "json_unsigned s \<longleftrightarrow>
     (case split_on CHR ''.'' s of
        [i] \<Rightarrow> json_digits i \<and> (hd i = CHR ''0'' \<longrightarrow> tl i = [])
      | [i, f] \<Rightarrow> json_digits i \<and> (hd i = CHR ''0'' \<longrightarrow> tl i = []) \<and> json_digits f
      | _ \<Rightarrow> False)"

definition json_number :: "string \<Rightarrow> bool" where
  "json_number s \<longleftrightarrow> json_unsigned (if s \<noteq> [] \<and> hd s = CHR ''-'' then tl s else s)"

definition plain_char :: "char \<Rightarrow> bool" where
  "plain_char c \<longleftrightarrow> (32 :: nat) \<le> of_char c \<and> of_char c < (127 :: nat) \<and> c \<notin> {CHR 0x22, CHR 0x5C, CHR '','', CHR '':''}"

definition json_string :: "string \<Rightarrow> bool" where
  "json_string s \<longleftrightarrow> 2 \<le> length s \<and> s = json_quote (tl (butlast s)) \<and> list_all plain_char (tl (butlast s))"

definition json_field :: "string \<Rightarrow> (string \<times> string) option" where
  "json_field s =
     (case split_on CHR '':'' s of
        [k, v] \<Rightarrow> if json_string k \<and> (json_string v \<or> json_number v) then Some (tl (butlast k), v) else None
      | _ \<Rightarrow> None)"

definition json_fields :: "string \<Rightarrow> (string \<times> string) list option" where
  "json_fields s =
     (if 2 \<le> length s \<and> hd s = CHR ''{'' \<and> List.last s = CHR ''}''
      then those (map json_field (split_on CHR '','' (tl (butlast s)))) else None)"

definition json_uint :: "string \<Rightarrow> string \<Rightarrow> nat option" where
  "json_uint s key = Option.bind (Option.bind (json_fields s) (\<lambda>kvs. map_of kvs key)) (parse_uint 64)"

section \<open>What is printed can be read\<close>

lemma digit_facts: "digit c \<Longrightarrow> c \<notin> {CHR ''.'', CHR ''-'', CHR '','', CHR '':'', CHR 0x0A}" "digit CHR ''0''"
  by (auto simp: digit_def to_digit_def)

lemma dec_string_json: "json_digits (dec_string n)"
proof -
  have "list_all digit s" if "map (to_digit 10) s = map Some ds" for s ds
    using that by (induction s arbitrary: ds) (auto simp: digit_def Cons_eq_map_conv)
  then show ?thesis using dec_string_digits [of n] by (auto simp: json_digits_def)
qed

lemma dec_string_lead: "hd (dec_string n) = CHR ''0'' \<Longrightarrow> tl (dec_string n) = []"
  using dec_string_hd [of n] by (cases "dec_string n") auto

lemma digits_avoid: "json_digits s \<Longrightarrow> c \<in> {CHR ''.'', CHR ''-'', CHR '','', CHR '':'', CHR 0x0A} \<Longrightarrow> c \<notin> set s"
  using digit_facts(1) unfolding json_digits_def list_all_iff by blast

lemma split_number:
  "json_digits i \<Longrightarrow> split_on CHR ''.'' i = [i]"
  "json_digits i \<Longrightarrow> json_digits f \<Longrightarrow> split_on CHR ''.'' (i @ CHR ''.'' # f) = [i, f]"
  using digits_avoid [of _ "CHR ''.''"] by (simp_all add: split_on_plain split_on_append)

lemma show_decimals_digits:
  "\<exists>i f. show_decimals n k = dec_string i @ CHR ''.'' # f \<and> json_digits f"
proof -
  let ?d = "dec_string (k mod 10 ^ n)"
  have "json_digits (replicate (n - length ?d) CHR ''0'' @ ?d)"
    using dec_string_json [of "k mod 10 ^ n"] digit_facts(2) by (auto simp: json_digits_def list_all_iff)
  then show ?thesis unfolding show_decimals_def Let_def by auto
qed

lemma unsigned_prints: "json_unsigned (dec_string n)" "json_unsigned (show_decimals k n)"
  using show_decimals_digits [of k n] dec_string_lead
  by (auto simp: json_unsigned_def split_number dec_string_json)

text \<open>A value as it is printed: well-formed, and without the characters that structure a line.\<close>

definition printed :: "string \<Rightarrow> bool" where
  "printed v \<longleftrightarrow> (json_string v \<or> json_number v) \<and> CHR '','' \<notin> set v \<and> CHR '':'' \<notin> set v \<and> CHR 0x0A \<notin> set v"

lemma printed_number: "printed (dec_string n)" "printed (f64_show k (Fin x))"
proof -
  have sign: "json_number s \<and> json_number (CHR ''-'' # s)" if "json_unsigned s" "s = [] \<or> hd s \<noteq> CHR ''-''" for s
    using that by (auto simp: json_number_def)
  have hd: "hd (dec_string i @ t) \<noteq> CHR ''-''" for i t
    using dec_string_json [of i] digits_avoid [OF dec_string_json, of "CHR ''-''" i] by (cases "dec_string i") (auto simp: json_digits_def)
  note avoid = digits_avoid [of _ "CHR '',''"] digits_avoid [of _ "CHR '':''"] digits_avoid [of _ "CHR 0x0A"]
  show "printed (dec_string n)"
    using sign [OF unsigned_prints(1)] hd [of n "[]"] avoid dec_string_json by (simp add: printed_def)
  let ?s = "show_decimals k (nat (round_half_even (\<bar>x\<bar> * 10 ^ k)))"
  obtain i f where s: "?s = dec_string i @ CHR ''.'' # f" "json_digits f" using show_decimals_digits by blast
  have "json_number ?s \<and> json_number (CHR ''-'' # ?s)" using sign [OF unsigned_prints(2)] hd s by metis
  then show "printed (f64_show k (Fin x))" using s avoid dec_string_json by (simp add: printed_def)
qed

lemma unquote: "tl (butlast (json_quote s)) = s"
  by (simp add: json_quote_def butlast_append)

lemma printed_quote:
  assumes "list_all plain_char s"
  shows "json_string (json_quote s)" "printed (json_quote s)"
proof -
  show q: "json_string (json_quote s)" using assms by (simp add: json_string_def unquote) (simp add: json_quote_def)
  have "\<not> plain_char (CHR '','')" "\<not> plain_char (CHR '':'')" "\<not> plain_char (CHR 0x0A)" by (simp_all add: plain_char_def)
  then have "CHR '','' \<notin> set s" "CHR '':'' \<notin> set s" "CHR 0x0A \<notin> set s"
    using assms unfolding list_all_iff by blast+
  then show "printed (json_quote s)" using q by (simp add: printed_def) (simp add: json_quote_def)
qed

lemma json_field_printed:
  assumes "list_all plain_char k" "printed v"
  shows "json_field (json_quote k @ '':'' @ v) = Some (k, v)"
proof -
  have "split_on CHR '':'' (json_quote k @ CHR '':'' # v) = [json_quote k, v]"
    using printed_quote(2) [OF assms(1)] assms(2) by (simp add: printed_def split_on_plain split_on_append)
  then show ?thesis
    using printed_quote(1) [OF assms(1)] assms(2) by (simp add: json_field_def printed_def unquote)
qed

text \<open>An object of such fields reads as these fields.\<close>

lemma json_fields_object:
  assumes "kvs \<noteq> []" "\<forall>(k, v) \<in> set kvs. list_all plain_char k \<and> printed v"
  shows "json_fields (json_object kvs) = Some kvs" "CHR 0x0A \<notin> set (json_object kvs)"
proof -
  let ?f = "\<lambda>(k, v). json_quote k @ '':'' @ v"
  have plain: "CHR '','' \<notin> set (?f p) \<and> CHR 0x0A \<notin> set (?f p)" if "p \<in> set kvs" for p
    using assms(2) that by (fastforce simp: json_quote_def printed_def list_all_iff plain_char_def)
  then have "split_on CHR '','' (join CHR '','' (map ?f kvs)) = map ?f kvs"
    using assms(1) by (intro split_join) auto
  moreover have "map json_field (map ?f kvs) = map Some kvs"
    using assms(2) json_field_printed by (auto simp del: append_Cons)
  moreover have "those (map Some kvs) = Some kvs" for kvs :: "(string \<times> string) list" by (induction kvs) simp_all
  ultimately have "those (map json_field (split_on CHR '','' (join CHR '','' (map ?f kvs)))) = Some kvs" by (simp only:)
  then show "json_fields (json_object kvs) = Some kvs"
    by (simp add: json_fields_def json_object_def butlast_append)
  show "CHR 0x0A \<notin> set (json_object kvs)"
    using set_join [of "CHR '',''" "map ?f kvs"] plain unfolding json_object_def by fastforce
qed

section \<open>The lines of a run\<close>

lemma accepted_options:
  assumes "bench_options_of m = Inr b"
  shows "bo_count b \<noteq> 0" "bo_size b < 2 ^ 64"
proof -
  obtain cnt sz where c: "Option.bind (m ''count'') (parse_uint LENGTH(64)) = Some cnt" "cnt \<noteq> 0" "bo_count b = of_nat cnt"
    and s: "Option.bind (m ''size'') (parse_uint 64) = Some sz" "bo_size b = sz"
    using assms unfolding bench_options_of_def by (auto simp: option_reads split: if_splits)
  show "bo_count b \<noteq> 0" using parse_uint_word [OF c(1)] c(2,3) by auto
  show "bo_size b < 2 ^ 64" using s by (auto simp: bind_eq_Some_conv dest: parse_uint_bound [of 64])
qed

lemma bench_exchange_chunk: "bench_exchange fuel E b i s = Some (Inr (Chunk_Sent n), s') \<Longrightarrow> n = bo_size b"
  by (auto simp: bench_exchange_def Let_def stop_context_def
      split: outcome.splits option.splits prod.splits if_splits exit_reason.splits)

lemma bench_run_ok:
  assumes "bench_run fuel E A b = Some (Inr out, l)"
  shows "bo_stack b = ''kernel'' \<or> bo_stack b = ''xskip''" "out = Chunk_Sent n \<Longrightarrow> n = bo_size b"
  using assms bench_exchange_chunk
  by (auto simp: bench_run_def split: if_splits option.splits sum.splits prod.splits bench_sock.splits)

lemma figures_finite:
  fixes cnt :: u64 and cpu0 cpu1 :: rusage
  assumes "cnt \<noteq> 0" "nat (rp_elapsed r) < 2 ^ 64 * 1000000000" "rusage_ok cpu0" "rusage_ok cpu1"
  defines "F \<equiv> report_figures cnt cpu0 cpu1 r"
  shows "\<exists>x. fg_elapsed F = Fin x" "\<exists>x. fg_msgs_per_s F = Fin x" "\<exists>x. fg_mbps F = Fin x"
    "\<exists>x. fg_loss F = Fin x" "\<exists>x. fg_cpu F = Fin x" "\<exists>x. fg_us_per_msg F = Fin x"
  using report_times [OF assms(2), of cnt cpu0 cpu1] near_loss [OF assms(1), of "rp_missing r"]
    cpu_figures_finite [OF assms(3,4)]
  unfolding F_def accurate_def near_def report_figures_def Let_def
  by (auto simp: word_neq_0_conv)

lemma name_chars: "list_all plain_char s" if "s \<in> {''kernel'', ''xskip'', ''udp'', ''tcp'', ''stack'', ''proto'', ''sent'',
    ''count'', ''size'', ''received'', ''bytes'', ''elapsed_s'', ''msgs_per_s'', ''mbps'', ''loss_pct'', ''cpu_s'', ''cpu_us_per_msg''}"
  using that by (auto simp: plain_char_def)

lemma parse_uint_dec: "n < 2 ^ 64 \<Longrightarrow> parse_uint 64 (dec_string n) = Some n"
  unfolding parse_uint_def by (rule from_dec_string)

lemma proto_chars: "list_all plain_char (protocol_name p)"
  by (rule name_chars) (simp add: protocol_name_def split: protocol.split)

lemma chunk_line_reads:
  assumes "bo_stack b = ''kernel'' \<or> bo_stack b = ''xskip''" "n < 2 ^ 64"
  shows "json_uint (chunk_line b n) ''sent'' = Some n" "CHR 0x0A \<notin> set (chunk_line b n)"
proof -
  have "list_all plain_char (bo_stack b)" by (rule name_chars) (use assms(1) in auto)
  note names = printed_quote(2) [OF this] printed_quote(2) [OF proto_chars]
  have f: "json_fields (chunk_line b n) =
      Some [(''stack'', json_quote (bo_stack b)), (''proto'', json_quote (protocol_name (bo_proto b))), (''sent'', dec_string n)]"
    "CHR 0x0A \<notin> set (chunk_line b n)"
    unfolding chunk_line_def by (rule json_fields_object; simp add: names name_chars printed_number(1) del: list.pred_inject)+
  then show "json_uint (chunk_line b n) ''sent'' = Some n" "CHR 0x0A \<notin> set (chunk_line b n)"
    using parse_uint_dec [OF assms(2)] by (simp_all add: json_uint_def)
qed

lemma report_line_reads:
  assumes "bo_stack b = ''kernel'' \<or> bo_stack b = ''xskip''" "bo_count b \<noteq> 0" "bo_size b < 2 ^ 64"
    and r: "nat (rp_elapsed r) < 2 ^ 64 * 1000000000" "rusage_ok cpu0" "rusage_ok cpu1"
  defines "line \<equiv> report_line b r (report_figures (bo_count b) cpu0 cpu1 r)"
  shows "json_uint line ''count'' = Some (unat (bo_count b))" "json_uint line ''size'' = Some (bo_size b)"
    "json_uint line ''received'' = Some (unat (rp_received r))" "json_uint line ''bytes'' = Some (unat (rp_bytes r))"
    "CHR 0x0A \<notin> set line"
proof -
  have "list_all plain_char (bo_stack b)" by (rule name_chars) (use assms(1) in auto)
  note names = printed_quote(2) [OF this] printed_quote(2) [OF proto_chars]
  obtain e v w o' c u where F: "report_figures (bo_count b) cpu0 cpu1 r =
      \<lparr>fg_elapsed = Fin e, fg_msgs_per_s = Fin v, fg_mbps = Fin w, fg_loss = Fin o', fg_cpu = Fin c, fg_us_per_msg = Fin u\<rparr>"
    using figures_finite [OF assms(2) r] by (metis figures.surjective old.unit.exhaust)
  have "\<exists>kvs. json_fields line = Some kvs \<and> map_of kvs ''count'' = Some (dec_string (unat (bo_count b)))
      \<and> map_of kvs ''size'' = Some (dec_string (bo_size b)) \<and> map_of kvs ''received'' = Some (dec_string (unat (rp_received r)))
      \<and> map_of kvs ''bytes'' = Some (dec_string (unat (rp_bytes r)))"
    unfolding line_def F report_line_def
    by (subst json_fields_object(1)) (simp_all add: names name_chars printed_number del: list.pred_inject f64_show.simps)
  then show "json_uint line ''count'' = Some (unat (bo_count b))" "json_uint line ''size'' = Some (bo_size b)"
    "json_uint line ''received'' = Some (unat (rp_received r))" "json_uint line ''bytes'' = Some (unat (rp_bytes r))"
    using parse_uint_dec u64_bound assms(3) by (auto simp: json_uint_def)
  show "CHR 0x0A \<notin> set line"
    unfolding line_def F report_line_def
    by (rule json_fields_object(2)) (simp_all add: names name_chars printed_number del: list.pred_inject f64_show.simps)
qed

text \<open>
  C32. A run of the benchmark that ends well prints one line of JSON, whatever was measured: it reads back as an
  object, with the numbers asked for, those received and the bytes (or the bytes sent, of a chunk run) as its
  64-bit fields.
\<close>

theorem bench_stdout_json:
  assumes "bind_sum (parse_args args) bench_options_of = Inr b" "bench_main fuel E A args = Some (Inr out, l)"
    and "rusage_ok cpu0" "rusage_ok cpu1" "\<forall>r. out = Consumed r \<longrightarrow> rp_elapsed r < 2 ^ 64 * 10 ^ 9"
  shows "\<exists>line. bench_stdout b cpu0 cpu1 out = line @ [CHR 0x0A] \<and> CHR 0x0A \<notin> set line \<and>
    (case out of
       Chunk_Sent n \<Rightarrow> n = bo_size b \<and> json_uint line ''sent'' = Some n
     | Consumed r \<Rightarrow>
         json_uint line ''count'' = Some (unat (bo_count b)) \<and> json_uint line ''size'' = Some (bo_size b)
         \<and> json_uint line ''received'' = Some (unat (rp_received r))
         \<and> json_uint line ''bytes'' = Some (unat (rp_bytes r)))"
proof -
  obtain m where "bench_options_of m = Inr b" using assms(1) by (auto simp: bind_sum_Inr)
  note opts = accepted_options [OF this]
  have run: "bench_run fuel E A b = Some (Inr out, l)"
    using assms(1,2) by (auto simp: bench_main_def split: sum.splits)
  note stack = bench_run_ok(1) [OF run]
  show ?thesis
  proof (cases out)
    case (Chunk_Sent n)
    then show ?thesis using bench_run_ok(2) [OF run Chunk_Sent] chunk_line_reads [OF stack opts(2)] by (auto simp: bench_stdout_def)
  next
    case (Consumed r)
    then have "nat (rp_elapsed r) < 2 ^ 64 * 1000000000" using assms(5) by simp
    from report_line_reads [OF stack opts this assms(3,4)] Consumed show ?thesis by (auto simp: bench_stdout_def)
  qed
qed

end
