(* ===== verification/Report_Sample.thy ===== *)
theory Report_Sample
  imports Bench_Sample Bench_Json
begin

text \<open>Concrete reports: half of the messages lost, and the line of a run over a kernel socket.\<close>

definition half_lost :: "(unit, unit, bytes \<times> bytes) bench_loop" where
  "half_lost = (consume_start sample_E 0 (Sock_Udp ()))\<lparr>bl_msgs := 1, bl_last := 1500000000\<rparr>"

definition some_cpu :: rusage where
  "some_cpu = Some ((1, 500000), (0, 250000))"

theorem report_figures_sound_witness:
  "f64_show 3 (fg_loss (report_figures 2 None some_cpu (bench_report_of sample_E (sample_loop_config 2) 10 0 half_lost)))
     = ''50.000''"
proof -
  let ?r = "bench_report_of sample_E (sample_loop_config 2) 10 0 half_lost"
  have r: "rp_received ?r = 1" "rp_elapsed ?r = 1500000000" "lc_count (sample_loop_config 2) = 2"
    by (simp_all add: bench_report_of_def half_lost_def consume_start_def sample_loop_config_def received_def Let_def
      word_le_nat_alt)
  have "rusage_ok None" "rusage_ok some_cpu" by (simp_all add: rusage_ok_def some_cpu_def)
  with report_figures_sound [of "sample_loop_config 2" sample_E 10 0 half_lost None some_cpu] r
  obtain k where k: "f64_show 3 (fg_loss (report_figures 2 None some_cpu ?r)) = show_decimals 3 k"
    "\<bar>rat_of_nat k / 1000 - 50\<bar> < 1 / 1000" by auto
  have "rat_of_nat k < of_nat 50001" "rat_of_nat 49999 < of_nat k" using k(2) unfolding abs_less_iff by simp_all
  then have "k = 50000" unfolding of_nat_less_iff by simp
  moreover have "replicate 2 c = [c, c]" for c :: char by (simp add: numeral_2_eq_2)
  ultimately show ?thesis
    unfolding k(1) by (simp add: show_decimals_def dec_string.simps digit_char_def char_of_def bit_0)
qed

section \<open>A run over a kernel socket\<close>

definition kernel_args :: "string list" where
  "kernel_args = sample_args @ [''--stack'', ''kernel'', ''--count'', ''1'']"

definition kernel_options :: bench_options where
  "kernel_options = sample_options\<lparr>bo_stack := ''kernel'', bo_count := 1\<rparr>"

lemma kernel_options_of: "bind_sum (parse_args kernel_args) bench_options_of = Inr kernel_options"
proof -
  have "parse_uint 64 ''1'' = Some 1"
    by (simp add: parse_uint_def from_str_radix_def to_digit_def Let_def)
  then show ?thesis
    by (simp add: parse_args_def kernel_args_def sample_args_def strip_prefix_def
      bench_options_of_def arg_def parse_with_def parse_proto_def parse_xdp_mode_def sample_numbers
      sample_ips sample_macs sample_options_def kernel_options_def)
qed

lemma kernel_run:
  "\<exists>r. bench_main 2 sample_E sample_answers kernel_args = Some (Inr (Consumed r), []) \<and> rp_received r = 1
     \<and> rp_bytes r = 1 \<and> rp_elapsed r = 1000000000"
proof -
  have o: "bo_stack kernel_options = ''kernel''" "bo_proto kernel_options = Protocol_Udp" "bo_count kernel_options = 1"
    "bo_size kernel_options = 64" "bo_mode kernel_options = ''consume''"
    by (simp_all add: kernel_options_def sample_options_def)
  have "\<exists>p. pin_cpu (su_cpu sample_answers) (bo_cpu kernel_options) = Ok p"
    by (simp add: kernel_options_def sample_options_def sample_answers_def pin_cpu_def)
  then show ?thesis
    by (auto simp: bench_main_def kernel_options_of stop_context_def bench_run_def o(1-5) kernel_setup_def io_result_def
      sample_net_def set_rcvbuf_def bench_exchange_def want_bytes_def bench_send_all_def numeral_2_eq_2 consume_done_def consume_start_def consume_turn_def
        bench_recv_def kernel_recv_def echo_back_def count_message_def
        add_u64_def Let_def bench_report_of_def received_def)
qed

theorem bench_stdout_json_witness:
  "\<exists>r line. bench_main 2 sample_E sample_answers kernel_args = Some (Inr (Consumed r), [])
     \<and> bench_stdout kernel_options None some_cpu (Consumed r) = line @ [CHR 0x0A]
     \<and> json_uint line ''count'' = Some 1 \<and> json_uint line ''received'' = Some 1"
proof -
  obtain r where r: "bench_main 2 sample_E sample_answers kernel_args = Some (Inr (Consumed r), [])" "rp_received r = 1"
    "rp_elapsed r = 1000000000" using kernel_run by blast
  have "rusage_ok None" "rusage_ok some_cpu" by (simp_all add: rusage_ok_def some_cpu_def)
  from bench_stdout_json [OF kernel_options_of r(1) this] show ?thesis
    using r by (auto simp: kernel_options_def)
qed

end
