(* ===== verification/Build_Script.thy ===== *)
theory Build_Script
  imports Xskip_Prelude
begin

text \<open>
  The build script (\<^verbatim>\<open>build.rs\<close>): where the skeleton of the XDP program is generated, and what cargo is told.  The
  generator of libbpf is a parameter: from the source and the output path it succeeds or fails.
\<close>

definition SRC :: string where "SRC = ''src/bpf/xskip.bpf.c''"

text \<open>\<^verbatim>\<open>PathBuf::join\<close> of a relative path.\<close>

definition path_join :: "string \<Rightarrow> string \<Rightarrow> string" where
  "path_join dir p = (if dir = [] \<or> last dir = CHR ''/'' then dir @ p else dir @ ''/'' @ p)"

text \<open>The lines printed for cargo, or the panic.\<close>

definition build_main :: "string option \<Rightarrow> (string \<Rightarrow> string \<Rightarrow> 'e + unit) \<Rightarrow> string list outcome" where
  "build_main out_dir build_and_generate =
     (case out_dir of
        None \<Rightarrow> Panic (Expect_Failed ''OUT_DIR not set'')
      | Some dir \<Rightarrow>
          (case build_and_generate SRC (path_join dir ''xskip.skel.rs'') of
             Inl e \<Rightarrow> Panic (Expect_Failed ''bpf skeleton generation failed'')
           | Inr _ \<Rightarrow> Ok [''cargo:rerun-if-changed='' @ SRC]))"

text \<open>
  Cargo is told to watch a file only when the skeleton was generated from that file, as a file of the output
  directory; otherwise the build stops.
\<close>

lemma path_join_last:
  assumes "CHR ''/'' \<notin> set p"
  shows "rev (takeWhile (\<lambda>c. c \<noteq> CHR ''/'') (rev (path_join dir p))) = p"
proof -
  have takeWhile: "takeWhile (\<lambda>c. c \<noteq> CHR ''/'') (rev p @ rest) = rev p @ takeWhile (\<lambda>c. c \<noteq> CHR ''/'') rest" for rest
    using assms by (intro takeWhile_append2) auto
  have "\<exists>rest. rev (path_join dir p) = rev p @ rest \<and> takeWhile (\<lambda>c. c \<noteq> CHR ''/'') rest = []"
    by (cases dir rule: rev_cases) (auto simp: path_join_def)
  then show ?thesis by (auto simp: takeWhile)
qed

lemma build_main_watches_source:
  "build_main out_dir gen = Ok ls \<longleftrightarrow>
     (\<exists>dir. out_dir = Some dir \<and> gen SRC (path_join dir ''xskip.skel.rs'') = Inr ()) \<and> ls = [''cargo:rerun-if-changed='' @ SRC]"
  by (auto simp: build_main_def split: option.splits sum.splits)

end
