(* ===== verification/Spec2Isabelle.thy ===== *)
theory Spec2Isabelle
  imports Xskip_Prelude Ring Ring_Order Umem_Config Xsk Xsk_Ownership Xsk_System Xsk_Queues Xsk_Delivery
    Xsk_Resources Flow Framing Wire_Sample Udp_Plane Udp_Sample Tcp_Device Tcp_Plane
    Socket Socket_Spec Socket_Life Socket_Sample Link Link_Sample
    Parsing Unit_Tests Bench_Args Bench Bench_Spec Bench_Consume Bench_Life Bench_Send Bench_Sample
    Float64 Bench_Report Bench_Json Report_Sample Build_Script
begin

text \<open>
  \<^bold>\<open>xskip\<close>, a user-space UDP and TCP socket over AF\_XDP, verified.

  \<^bold>\<open>The program.\<close>  An XDP program in the kernel (\<^verbatim>\<open>src/bpf/xskip.bpf.c\<close>) looks up the flow of every IPv4 TCP or
  UDP packet in a hash map and redirects packets of tracked flows to the AF\_XDP socket registered for
  their queue; everything else goes to the kernel's own stack.  In user space (\<^verbatim>\<open>src/socket.rs\<close>) an \<^verbatim>\<open>Xsk\<close> owns
  that socket: a memory of 4096 frames (the UMEM) and four rings of descriptors shared with the kernel.  A
  \<^verbatim>\<open>Socket\<close> puts one of two planes on top of it: \<^verbatim>\<open>UdpPlane\<close> builds and parses datagrams in place in the
  frames, \<^verbatim>\<open>TcpPlane\<close> runs the smoltcp stack over a device that moves IP packets between the rings and the
  stack.  \<^verbatim>\<open>connect\<close> inserts the flow, \<^verbatim>\<open>drop\<close> removes it and releases what was acquired.  A benchmark tool
  (\<^verbatim>\<open>src/bin/bench.rs\<close>) drives such a socket, or a kernel socket, through one loop.

  \<^bold>\<open>The theories\<close>, each with the source it models and what its lemmas show.

  \<^item> \<open>Xskip_Prelude\<close>: build profiles (a checked \<^verbatim>\<open>+\<close> panics in one and wraps in the other), errors, panics and
    outcomes, 16- and 32-bit big-endian codecs (locale \<open>exact_codec\<close>), slices, memory, and the locale of
    transition systems with an invariant.
  \<^item> \<open>Ring\<close>: \<^verbatim>\<open>struct Ring\<close> and both sides of it, with free-running 32-bit indices.  A ring is a bounded queue
    across every wrap-around of its indices.
  \<^item> \<open>Ring_Order\<close>: the \<^verbatim>\<open>Acquire\<close> and \<^verbatim>\<open>Release\<close> orderings of the index accesses, on memory that delays and reorders
    the stores of the producer and the loads of the consumer.  The two ends still see one queue of whole
    descriptors, and the calls on a ring of \<open>Ring\<close> are runs of it, which is why the other theories let an access take
    effect at once.
  \<^item> \<open>Umem_Config\<close>: the sizes, \<^verbatim>\<open>frame_size_for\<close>, \<^verbatim>\<open>HugePage\<close>, \<^verbatim>\<open>XdpMode\<close>, \<^verbatim>\<open>map_umem\<close>, and the log of system calls
    that acquire and release.  The frame size is the least that works; which huge pages are tried.
  \<^item> \<open>Xsk\<close>: \<^verbatim>\<open>struct Xsk\<close>, every operation of it, \<^verbatim>\<open>Xsk::new\<close> and its drop.  \<open>Xsk_Ownership\<close> says where each frame is and
    that every operation and every kernel step moves it; \<open>Xsk_System\<close> interleaves both and shows that every
    frame has exactly one owner, that no unread descriptor is overwritten, that a frame held by user
    space does not change.  \<open>Xsk_Queues\<close> reads the rings as queues of byte frames, \<open>Xsk_Delivery\<close>
    says what the kernel does to these queues and what it can deliver.  \<open>Xsk_Resources\<close> follows
    descriptors and mappings through construction, its failures and the drop.
  \<^item> \<open>Flow\<close>: the XDP program, its two maps (locale \<open>bpf_map\<close>, interpreted for both; whether an update is accepted is the
    system's answer) and
    \<^verbatim>\<open>flow_key\<close>, \<^verbatim>\<open>add_flow_to_ebpf_tracking\<close>.  Which packets are redirected, and that an insert changes the
    verdict on exactly one flow.
  \<^item> \<open>Framing\<close>: \<^verbatim>\<open>Framing::build\<close> and \<^verbatim>\<open>parse\<close> over the header library, given by laws; they are inverse between
    the two ends of a flow, and what one end builds the other end's XDP program redirects.  \<open>Wire_Sample\<close> has
    a header library by the RFCs that satisfies the laws.
  \<^item> \<open>Udp_Plane\<close>, with \<open>Udp_Sample\<close>: \<^verbatim>\<open>UdpPlane::send\<close> and \<^verbatim>\<open>recv_into\<close> over the queues.
  \<^item> \<open>Tcp_Device\<close>: \<^verbatim>\<open>XskDevice\<close> and its tokens; the stack's poll is a finite program of device calls, run
    on the rings or on two queues of packets (locale \<open>phy_device\<close>, interpreted on the rings).  \<open>Tcp_Plane\<close>:
    \<^verbatim>\<open>TcpPlane\<close>; a poll on the rings refines a poll on the queues, the clock is read every 32nd time, a
    send hands over a prefix.
  \<^item> \<open>Socket\<close>: \<^verbatim>\<open>PortReservation\<close>, \<^verbatim>\<open>Socket\<close> with every public method, \<^verbatim>\<open>attach_xdp\<close>, \<^verbatim>\<open>load_skel\<close>, \<^verbatim>\<open>ifindex\<close>,
    \<^verbatim>\<open>pin_cpu\<close>.
    \<open>Socket_Spec\<close>: what a UDP send puts on the wire.  \<open>Socket_Life\<close>: a step relation of sockets,
    kernel and other users of the maps, its invariant, and what a socket leaves in the maps and in the
    process after its drop.  \<open>Socket_Sample\<close>: concrete sockets and a small stack.
  \<^item> \<open>Link\<close>: two hosts with connected UDP sockets and a wire that loses frames and carries those of others,
    as one step relation over both programs, both kernels, the XDP program and the wire.  What one end reads is a
    subsequence of what the other end sent, and what is sent can arrive whole.  \<open>Link_Sample\<close>: one byte on its way.
  \<^item> \<open>Parsing\<close>: \<^verbatim>\<open>parse_mac\<close>, \<^verbatim>\<open>read_mac\<close>, \<^verbatim>\<open>read_mtu\<close>; which texts are read, and that what the kernel prints is.
  \<^item> \<open>Unit_Tests\<close>: the unit tests of the source as predicates over the model, and that they pass.
  \<^item> \<open>Bench_Args\<close>: the command line of the tool, characterised exactly.  \<open>Bench\<close>: its sockets, setup, loops,
    report and \<^verbatim>\<open>main\<close>.  \<open>Bench_Spec\<close>: the handshake ends, the report adds up, what \<^verbatim>\<open>send_all\<close> does, the idle
    cutoff.  \<open>Bench_Consume\<close>: the loop over anything with messages waiting (locale \<open>message_source\<close>, interpreted on a UDP
    socket and its ring).  \<open>Bench_Life\<close>: what the loops keep of a socket (locale \<open>sock_client\<close>) and that a
    run releases everything and asks for a detach of what it attached.  \<open>Bench_Send\<close>: \<^verbatim>\<open>send_all\<close> over TCP hands over
    exactly the buffer, when it returns, and that it spins after a reset.  \<open>Bench_Sample\<close>: concrete runs.
  \<^item> \<open>Float64\<close>: double precision as the language defines it (round to nearest, ties to even, infinities, NaN, decimal
    printing), and a calculus that counts roundings.  \<open>Bench_Report\<close>: \<^verbatim>\<open>cpu_secs\<close>, the figures of the report and the
    lines printed; the figures are finite, and exact up to a few roundings.  \<open>Bench_Json\<close>: a reader of such lines, and that a
    run prints one line of JSON with the counts in it.  \<open>Report_Sample\<close>: concrete reports.
  \<^item> \<open>Build_Script\<close>: \<^verbatim>\<open>build.rs\<close>, with the generator of the skeleton as a parameter.

  \<^bold>\<open>What is relied on.\<close>  The kernel side of the rings is \<open>kernel_step\<close>: it takes only what it was given, returns
  it once, and writes only frames it holds.  Fresh ring memory is zero and \<^verbatim>\<open>mmap\<close> never returns the null
  page.  smoltcp's header code obeys \<open>ipv4_wire_laws\<close> and \<open>udp_wire_laws\<close>, its sockets \<open>send_slice_laws\<close> and
  \<open>recv_slice_laws\<close>, and its poll makes finitely many device calls with packets within the announced MTU
  (\<open>good_prog\<close>); \<^verbatim>\<open>is_active\<close> is what it is documented to be (\<open>is_active_law\<close>), a poll adds nothing to the stream a
  socket has accepted (\<open>poll_keeps_stream\<close>) and does not open a closed one (\<open>closed_laws\<close>).  Each assumption is
  shown to hold of a concrete instance.  Accesses to the shared indices are
  atomic; \<open>Ring_Order\<close> justifies treating them as taking effect in program order.  In the systems of several parties a
  call on a socket is one step: the kernel runs between calls, not between the datagrams of one \<^verbatim>\<open>send\<close> or within one poll;
  \<open>Xsk_System\<close>, below the calls, interleaves it with every single operation on the rings.

  \<^bold>\<open>Bounds and fuel.\<close>  Words have the width the source gives them; \<^verbatim>\<open>usize\<close> is a natural number with its 64-bit
  limit written out where a sum can reach it.  The loops of the library are total functions.  Three loops of
  the tool may run for ever and take fuel: the handshake loop ends within the ticks to its deadline,
  \<^verbatim>\<open>send_all\<close> over UDP needs two units and over TCP as many as the stack makes it wait, the consume loop is shown to
  end with some fuel.

  \<^bold>\<open>Not modelled.\<close>  What is printed to standard error; the sign of a floating-point zero, which no figure of the report can
  show; the test that asks the operating system which ports are taken; the heap profiler, which is compiled in only on
  request; \<^verbatim>\<open>lib.rs\<close>, which names one module; the shell and Python scripts around the tool.
\<close>

end
